(* ===== verification/Market_Prelude.thy ===== *)
theory Market_Prelude
  imports Main "HOL-Library.Word" "HOL-Library.Char_ord" "HOL-Library.List_Lexorder"
    "HOL-Library.Product_Lexorder" "HOL-Library.Multiset"
begin

text \<open>
  What every component of the marketplace shares.

  \<^item> Go values: \<open>int64\<close> and Go's \<open>int\<close> (64 bits on the platforms the
    Dockerfiles build for) as \<open>64 word\<close>, read with \<open>sint\<close>; strings as lists of
    UTF-8 bytes.
  \<^item> Go errors: a value of type \<open>error\<close> is a chain; \<open>fmt.Errorf\<close> with
    \<open>%w\<close> adds a link, \<open>errors.Is\<close> walks it, \<open>Error()\<close> prints it.
    The sentinel errors of a service are a datatype of that service.
  \<^item> Failures of what the program calls: PostgreSQL, Kafka and Redis are not part of the
    repository, so which of their calls fail is an argument of each operation, a
    \<open>db_faults\<close> record. A theorem that quantifies over it covers every pattern of
    failures (lost connections, type errors of a column, a commit whose acknowledgement is
    lost).
  \<^item> Generic lemmas on lists (\<open>list_simps\<close>) and on signed words (\<open>word_simps\<close>).
\<close>

named_theorems go_simps \<open>evaluation of Go errors and strings\<close>
named_theorems fault_simps \<open>projections of the failure patterns that stand for no failure\<close>

section \<open>Machine integers\<close>

type_synonym int64 = "64 word"
type_synonym int32 = "32 word"

definition int64_range :: "int \<Rightarrow> bool" where
  "int64_range i \<longleftrightarrow> - (2 ^ 63) \<le> i \<and> i < 2 ^ 63"

definition int4_range :: "int \<Rightarrow> bool" where
  "int4_range i \<longleftrightarrow> - (2 ^ 31) \<le> i \<and> i < 2 ^ 31"

lemma sint_int64_range: "int64_range (sint (w :: int64))"
  using sint_range_size [of w] by (simp add: int64_range_def word_size)

lemma sint_of_int_in_range: "int64_range i \<Longrightarrow> sint (word_of_int i :: int64) = i"
  by (simp add: int64_range_def sint_sbintrunc' signed_take_bit_int_eq_self)

lemma int4_range_int64: "int4_range i \<Longrightarrow> int64_range i"
  by (simp add: int4_range_def int64_range_def)

lemma sint_add_in_range:
  "int64_range (sint a + sint b) \<Longrightarrow> sint (a + b :: int64) = sint a + sint b"
  using sint_of_int_in_range [of "sint a + sint b"] by simp

lemma sint_sub_in_range:
  "int64_range (sint a - sint b) \<Longrightarrow> sint (a - b :: int64) = sint a - sint b"
  using sint_of_int_in_range [of "sint a - sint b"] by simp

lemma sint_mult_in_range:
  "int64_range (sint a * sint b) \<Longrightarrow> sint (a * b :: int64) = sint a * sint b"
  using sint_of_int_in_range [of "sint a * sint b"] by simp

section \<open>Strings\<close>

text \<open>A string literal with characters beyond ASCII is given by its UTF-8 bytes.\<close>

definition utf8 :: "nat list \<Rightarrow> string" where
  "utf8 = map char_of"

text \<open>The number of code points: bytes that do not continue a UTF-8 sequence.\<close>

definition rune_count :: "string \<Rightarrow> nat" where
  "rune_count s = length (filter (\<lambda>c. \<not> (128 \<le> (of_char c :: nat) \<and> (of_char c :: nat) < 192)) s)"

section \<open>Go errors\<close>

text \<open>
  \<open>Sentinel\<close>: a package-level \<open>errors.New\<close> value compared by identity;
  \<open>Opaque\<close>: any other error, by its text; \<open>Wrapf pre e post\<close>:
  \<open>fmt.Errorf("pre%wpost", e)\<close>.
\<close>

datatype 's go_error = Sentinel 's | Opaque string | Wrapf string "'s go_error" string

fun errors_is :: "'s go_error \<Rightarrow> 's \<Rightarrow> bool" where
  "errors_is (Sentinel s) t \<longleftrightarrow> s = t"
| "errors_is (Opaque m) t \<longleftrightarrow> False"
| "errors_is (Wrapf pre e post) t \<longleftrightarrow> errors_is e t"

fun error_text :: "('s \<Rightarrow> string) \<Rightarrow> 's go_error \<Rightarrow> string" where
  "error_text msg (Sentinel s) = msg s"
| "error_text msg (Opaque m) = m"
| "error_text msg (Wrapf pre e post) = pre @ error_text msg e @ post"

text \<open>An error chain ends in at most one sentinel.\<close>

lemma errors_is_unique: "errors_is e s \<Longrightarrow> errors_is e t \<Longrightarrow> s = t"
  by (induction e s rule: errors_is.induct) auto

declare errors_is.simps [go_simps] error_text.simps [go_simps]

text \<open>
  What a call does: it returns, or it panics (a nil dereference, an index out of range), which the
  gRPC server and the consumers do not recover from and which gin answers with status 500.
\<close>

datatype 'a call = Panics | Returns 'a

section \<open>Failure patterns of a database operation\<close>

datatype commit_result = Committed | CommitFailed string | CommitUnknown string

text \<open>
  The failures of one operation against PostgreSQL: \<open>f_begin\<close> of opening the
  transaction, \<open>f_exec n\<close> of its \<open>n\<close>-th statement (counted from 0 in program
  order), \<open>f_rows\<close> the number of rows after which a result stream breaks off,
  \<open>f_scan n\<close> of scanning the \<open>n\<close>-th row, \<open>f_close\<close> of closing a
  batch, \<open>f_commit\<close> of the commit. \<open>CommitUnknown\<close> is a commit that took effect
  and whose answer was lost.
\<close>

record db_faults =
  f_begin :: "string option"
  f_exec :: "nat \<Rightarrow> string option"
  f_rows :: "nat option"
  f_scan :: "nat \<Rightarrow> string option"
  f_close :: "string option"
  f_commit :: commit_result

definition no_faults :: db_faults where
  "no_faults = \<lparr>f_begin = None, f_exec = (\<lambda>_. None), f_rows = None, f_scan = (\<lambda>_. None),
     f_close = None, f_commit = Committed\<rparr>"

lemma no_faults_simps [simp, fault_simps]:
  "f_begin no_faults = None" "f_exec no_faults = (\<lambda>_. None)" "f_rows no_faults = None"
  "f_scan no_faults = (\<lambda>_. None)" "f_close no_faults = None" "f_commit no_faults = Committed"
  by (simp_all add: no_faults_def)

text \<open>
  \<open>commit\<close>: what \<open>tx.Commit\<close> returns and which state the database is left in, from
  the state \<open>db\<close> before the transaction and \<open>tx\<close> inside it. The deferred
  \<open>tx.Rollback\<close> of every other return leaves \<open>db\<close>.
\<close>

fun commit :: "commit_result \<Rightarrow> 'db \<Rightarrow> 'db \<Rightarrow> 's go_error option \<times> 'db" where
  "commit Committed db tx = (None, tx)"
| "commit (CommitFailed m) db tx = (Some (Opaque m), db)"
| "commit (CommitUnknown m) db tx = (Some (Opaque m), tx)"

lemma commit_atomic: "commit c db tx = (r, db') \<Longrightarrow> db' = db \<or> db' = tx"
  by (cases c) auto

lemma commit_None: "commit c db tx = (None, db') \<Longrightarrow> db' = tx"
  by (cases c) auto

lemma commit_no_sentinel: "commit c db tx = (Some e, db') \<Longrightarrow> \<not> errors_is e s"
  by (cases c) auto

text \<open>The rows a client sees of a result that breaks off after \<open>f_rows\<close> rows.\<close>

definition delivered :: "nat option \<Rightarrow> 'a list \<Rightarrow> 'a list" where
  "delivered r xs = (case r of None \<Rightarrow> xs | Some n \<Rightarrow> take n xs)"

lemma delivered_None [simp]: "delivered None xs = xs"
  by (simp add: delivered_def)

lemma set_delivered: "set (delivered r xs) \<subseteq> set xs"
  by (auto simp: delivered_def dest: in_set_takeD split: option.splits)

section \<open>Rows of a table\<close>

text \<open>
  A table is the list of its rows in the order of insertion. \<open>find_row key k t\<close> is the
  row a primary key selects, \<open>update_where p f t\<close> the effect of
  \<open>UPDATE t SET f WHERE p\<close>, \<open>rows_affected\<close> the count in its command tag.
\<close>

definition find_row :: "('r \<Rightarrow> 'k) \<Rightarrow> 'k \<Rightarrow> 'r list \<Rightarrow> 'r option" where
  "find_row key k t = List.find (\<lambda>r. key r = k) t"

definition update_where :: "('r \<Rightarrow> bool) \<Rightarrow> ('r \<Rightarrow> 'r) \<Rightarrow> 'r list \<Rightarrow> 'r list" where
  "update_where p f t = map (\<lambda>r. if p r then f r else r) t"

definition rows_affected :: "('r \<Rightarrow> bool) \<Rightarrow> 'r list \<Rightarrow> nat" where
  "rows_affected p t = length (filter p t)"

definition has_key :: "('r \<Rightarrow> 'k) \<Rightarrow> 'k \<Rightarrow> 'r list \<Rightarrow> bool" where
  "has_key key k t \<longleftrightarrow> k \<in> set (map key t)"

lemma find_row_None: "find_row key k t = None \<longleftrightarrow> \<not> has_key key k t"
  by (auto simp: find_row_def has_key_def find_None_iff)

lemma find_row_Some: "find_row key k t = Some r \<Longrightarrow> r \<in> set t \<and> key r = k"
  by (auto simp: find_row_def find_Some_iff)

lemma find_row_distinct:
  assumes "distinct (map key t)"
  shows "find_row key k t = Some r \<longleftrightarrow> r \<in> set t \<and> key r = k"
proof
  assume "r \<in> set t \<and> key r = k"
  with assms show "find_row key k t = Some r"
    by (induction t) (auto simp: find_row_def rev_image_eqI)
qed (rule find_row_Some)

lemma find_row_Cons:
  "find_row key k (r # t) = (if key r = k then Some r else find_row key k t)"
  by (simp add: find_row_def)

lemma find_row_Nil [simp]: "find_row key k [] = None"
  by (simp add: find_row_def)

lemma find_row_append:
  "find_row key k (t @ u) = (case find_row key k t of None \<Rightarrow> find_row key k u | Some r \<Rightarrow> Some r)"
  by (induction t) (auto simp: find_row_Cons)

lemma update_where_Nil [simp]: "update_where p f [] = []"
  by (simp add: update_where_def)

lemma update_where_Cons:
  "update_where p f (r # t) = (if p r then f r else r) # update_where p f t"
  by (simp add: update_where_def)

lemma length_update_where [simp]: "length (update_where p f t) = length t"
  by (simp add: update_where_def)

lemma update_where_id: "(\<And>r. r \<in> set t \<Longrightarrow> \<not> p r) \<Longrightarrow> update_where p f t = t"
  by (induction t) (auto simp: update_where_def)

lemma map_key_update_where:
  "(\<And>r. p r \<Longrightarrow> key (f r) = key r) \<Longrightarrow> map key (update_where p f t) = map key t"
  by (auto simp: update_where_def)

lemma find_row_update_where:
  assumes "\<And>r. p r \<Longrightarrow> key (f r) = key r"
  shows "find_row key k (update_where p f t)
    = map_option (\<lambda>r. if p r then f r else r) (find_row key k t)"
  by (induction t) (auto simp: find_row_Cons update_where_Cons assms)

lemma rows_affected_0: "rows_affected p t = 0 \<longleftrightarrow> (\<forall>r \<in> set t. \<not> p r)"
  by (auto simp: rows_affected_def filter_empty_conv)

lemma distinct_map_eqD: "distinct (map key t) \<Longrightarrow> x \<in> set t \<Longrightarrow> y \<in> set t \<Longrightarrow> key x = key y \<Longrightarrow> x = y"
  by (auto simp: distinct_map dest: inj_onD)

lemma filter_single_key:
  "distinct (map key t) \<Longrightarrow> length (filter (\<lambda>r. key r = k \<and> q r) t) \<le> 1"
proof (induction t)
  case (Cons r t)
  show ?case
  proof (cases "key r = k")
    case True
    with Cons.prems have "filter (\<lambda>r. key r = k \<and> q r) t = []"
      by (auto simp: filter_empty_conv rev_image_eqI)
    then show ?thesis by simp
  qed (use Cons in auto)
qed simp

end
