(* ===== verification/Go_Base64.thy ===== *)
theory Go_Base64
  imports Market_Prelude
begin

text \<open>
  \<open>base64.URLEncoding\<close> of Go's package \<open>encoding/base64\<close> (the URL-safe alphabet,
  with padding), as the pagination cursors use it: \<open>encode64\<close> is
  \<open>EncodeToString\<close>, \<open>decode64\<close> is \<open>DecodeString\<close> (\<open>None\<close> is
  \<open>CorruptInputError\<close>), and \<open>decode64_encode64\<close> is the round trip.
\<close>

section \<open>The alphabet\<close>

definition b64_char :: "nat \<Rightarrow> char" where
  "b64_char n = char_of
     (if n < 26 then n + 65 else if n < 52 then n + 71 else if n < 62 then n - 4
      else if n = 62 then 45 else 95 :: nat)"

definition b64_value :: "char \<Rightarrow> nat option" where
  "b64_value c = (let k = (of_char c :: nat) in
     if 65 \<le> k \<and> k \<le> 90 then Some (k - 65)
     else if 97 \<le> k \<and> k \<le> 122 then Some (k - 71)
     else if 48 \<le> k \<and> k \<le> 57 then Some (k + 4)
     else if k = 45 then Some 62
     else if k = 95 then Some 63
     else None)"

lemma b64_char_code:
  "n < 64 \<Longrightarrow> (of_char (b64_char n) :: nat)
    = (if n < 26 then n + 65 else if n < 52 then n + 71 else if n < 62 then n - 4
       else if n = 62 then 45 else 95)"
  by (auto simp: b64_char_def)

lemma b64_value_char [simp]: "n < 64 \<Longrightarrow> b64_value (b64_char n) = Some n"
  by (auto simp: b64_value_def b64_char_code Let_def)

lemma b64_char_special [simp]:
  assumes "n < 64"
  shows "b64_char n \<noteq> CHR ''=''" "b64_char n \<noteq> CHR 0x0A" "b64_char n \<noteq> CHR 0x0D"
  using b64_char_code [OF assms] by (auto split: if_splits)

section \<open>Encoding\<close>

text \<open>Three bytes are four digits of base 64, the most significant first.\<close>

abbreviation (input) byte :: "char \<Rightarrow> nat" where
  "byte c \<equiv> of_char c"

fun encode64 :: "string \<Rightarrow> string" where
  "encode64 [] = []"
| "encode64 [a] =
     [b64_char (byte a div 4), b64_char (byte a mod 4 * 16), CHR ''='', CHR ''='']"
| "encode64 [a, b] =
     [b64_char (byte a div 4), b64_char (byte a mod 4 * 16 + byte b div 16),
      b64_char (byte b mod 16 * 4), CHR ''='']"
| "encode64 (a # b # c # cs) =
     b64_char (byte a div 4) # b64_char (byte a mod 4 * 16 + byte b div 16)
     # b64_char (byte b mod 16 * 4 + byte c div 64) # b64_char (byte c mod 64) # encode64 cs"

section \<open>Decoding\<close>

text \<open>
  Line breaks are skipped wherever they stand. A quantum is four digits, or at the end of the
  input two with \<open>==\<close> or three with \<open>=\<close>; bits past the last whole byte are ignored
  (the encoding is not \<open>Strict\<close>).
\<close>

definition is_newline :: "char \<Rightarrow> bool" where
  "is_newline c \<longleftrightarrow> c = CHR 0x0A \<or> c = CHR 0x0D"

fun decode_quanta :: "string \<Rightarrow> string option" where
  "decode_quanta [] = Some []"
| "decode_quanta (a # b # c # d # cs) =
     (case (b64_value a, b64_value b) of
        (Some x, Some y) \<Rightarrow>
          (if d = CHR ''='' \<and> c = CHR ''=''
           then (if cs = [] then Some [char_of (x * 4 + y div 16)] else None)
           else (case b64_value c of
                   None \<Rightarrow> None
                 | Some z \<Rightarrow>
                     (if d = CHR ''=''
                      then (if cs = []
                            then Some [char_of (x * 4 + y div 16), char_of (y mod 16 * 16 + z div 4)]
                            else None)
                      else (case (b64_value d, decode_quanta cs) of
                              (Some w, Some rest) \<Rightarrow>
                                Some (char_of (x * 4 + y div 16) # char_of (y mod 16 * 16 + z div 4)
                                      # char_of (z mod 4 * 64 + w) # rest)
                            | _ \<Rightarrow> None))))
      | _ \<Rightarrow> None)"
| "decode_quanta _ = None"

definition decode64 :: "string \<Rightarrow> string option" where
  "decode64 s = decode_quanta (filter (\<lambda>c. \<not> is_newline c) s)"

section \<open>Round trip\<close>

lemma byte_less: "byte c < 256"
  by simp

text \<open>The two high and the two low parts of a byte.\<close>

lemma byte_parts [simp]:
  "byte c div 4 < 64" "byte c div 16 < 16" "byte c div 64 < 4"
  "byte c div 16 div 16 = 0" "byte c div 16 mod 16 = byte c div 16"
  "byte c div 64 div 4 = 0" "byte c div 64 mod 4 = byte c div 64"
  using byte_less [of c] by (simp_all add: div_mult2_eq [symmetric] less_mult_imp_div_less)

lemma low_part_less: "(r :: nat) < 16 \<Longrightarrow> x mod 4 * 16 + r < 64" "(r :: nat) < 4 \<Longrightarrow> x mod 16 * 4 + r < 64"
  using mod_less_divisor [of 4 x] mod_less_divisor [of 16 x] by linarith+

lemma encode64_bounds [simp]:
  "byte a mod 4 * 16 + byte b div 16 < 64"
  "byte b mod 16 * 4 + byte c div 64 < 64" "byte a mod 4 * 16 < 64" "byte b mod 16 * 4 < 64"
  using low_part_less [of 0] low_part_less(1) [of "byte b div 16"] low_part_less(2) [of "byte c div 64"]
  by simp_all

lemma decode_quanta_encode64: "decode_quanta (encode64 s) = Some s"
proof (induction s rule: encode64.induct)
  case (2 a)
  show ?case by simp
next
  case (3 a b)
  show ?case by simp
next
  case (4 a b c cs)
  then show ?case by simp
qed simp

lemma encode64_no_newline: "filter (\<lambda>c. \<not> is_newline c) (encode64 s) = encode64 s"
  by (induction s rule: encode64.induct) (simp_all add: is_newline_def)

lemma decode64_encode64: "decode64 (encode64 s) = Some s"
  by (simp add: decode64_def encode64_no_newline decode_quanta_encode64)

lemma encode64_Nil_iff [simp]: "encode64 s = [] \<longleftrightarrow> s = []"
  by (cases s rule: encode64.cases) auto

lemma encode64_inject: "encode64 s = encode64 t \<longleftrightarrow> s = t"
  by (metis decode64_encode64 option.inject)

end
