(* ===== verification/Go_Time.thy ===== *)
theory Go_Time
  imports Market_Prelude
begin

text \<open>
  The part of Go's package \<open>time\<close> the services use: instants in UTC by their civil
  fields, ordered as instants are, and their RFC 3339 texts, which the services print into
  JSON events, pagination cursors and HTTP responses.

  \<^item> \<open>rfc3339_nano t\<close> is \<open>t.Format(time.RFC3339Nano)\<close>: fractional seconds with
    trailing zeros removed. \<open>rfc3339 t\<close> is the layout without fractional seconds.
  \<^item> \<open>parse_rfc3339\<close> is \<open>time.Parse(time.RFC3339Nano, s)\<close> on texts of that shape in
    UTC. Texts with another zone offset, which no component prints, are not accepted by it.
  \<^item> \<open>parse_rfc3339_nano\<close>: parsing a printed instant gives it back.
\<close>

section \<open>Instants\<close>

datatype gotime = GoTime (t_year: nat) (t_month: nat) (t_day: nat)
  (t_hour: nat) (t_min: nat) (t_sec: nat) (t_nsec: nat)

definition civil :: "gotime \<Rightarrow> nat \<times> nat \<times> nat \<times> nat \<times> nat \<times> nat \<times> nat" where
  "civil t = (t_year t, t_month t, t_day t, t_hour t, t_min t, t_sec t, t_nsec t)"

lemma civil_inject: "civil t = civil u \<longleftrightarrow> t = u"
  by (cases t; cases u) (simp add: civil_def)

instantiation gotime :: linorder
begin

definition less_eq_gotime :: "gotime \<Rightarrow> gotime \<Rightarrow> bool" where
  "t \<le> u \<longleftrightarrow> civil t \<le> civil u"

definition less_gotime :: "gotime \<Rightarrow> gotime \<Rightarrow> bool" where
  "t < u \<longleftrightarrow> civil t < civil u"

instance
  by standard (auto simp: less_eq_gotime_def less_gotime_def civil_inject less_le)

end

definition leap_year :: "nat \<Rightarrow> bool" where
  "leap_year y \<longleftrightarrow> y mod 4 = 0 \<and> (y mod 100 \<noteq> 0 \<or> y mod 400 = 0)"

definition days_in :: "nat \<Rightarrow> nat \<Rightarrow> nat" where
  "days_in m y =
     (if m = 2 then (if leap_year y then 29 else 28)
      else if m \<in> {4, 6, 9, 11} then 30 else 31)"

definition valid_time :: "gotime \<Rightarrow> bool" where
  "valid_time t \<longleftrightarrow> 1 \<le> t_month t \<and> t_month t \<le> 12 \<and> 1 \<le> t_day t
     \<and> t_day t \<le> days_in (t_month t) (t_year t)
     \<and> t_hour t < 24 \<and> t_min t < 60 \<and> t_sec t < 60 \<and> t_nsec t < 10 ^ 9"

text \<open>The years \<open>time.Time.MarshalJSON\<close> accepts.\<close>

definition json_year :: "gotime \<Rightarrow> bool" where
  "json_year t \<longleftrightarrow> t_year t < 10000"

lemma days_in_le: "days_in m y \<le> 31"
  by (simp add: days_in_def)

section \<open>Decimal fields of fixed width\<close>

definition digit :: "nat \<Rightarrow> char" where
  "digit n = char_of (48 + n mod 10)"

definition digit_value :: "char \<Rightarrow> nat option" where
  "digit_value c = (let k = (of_char c :: nat) in if 48 \<le> k \<and> k < 58 then Some (k - 48) else None)"

fun pad :: "nat \<Rightarrow> nat \<Rightarrow> string" where
  "pad 0 n = []"
| "pad (Suc w) n = pad w (n div 10) @ [digit n]"

text \<open>The value of a text of digits, read on from \<open>acc\<close>.\<close>

fun read_digits :: "nat \<Rightarrow> string \<Rightarrow> nat option" where
  "read_digits acc [] = Some acc"
| "read_digits acc (c # cs) =
     (case digit_value c of None \<Rightarrow> None | Some d \<Rightarrow> read_digits (acc * 10 + d) cs)"

lemma digit_value_digit [simp]: "digit_value (digit n) = Some (n mod 10)"
proof -
  have "(48 + n mod 10) mod 256 = 48 + n mod 10"
    by (rule mod_less) (use mod_less_divisor [of 10 n] in linarith)
  then show ?thesis by (simp add: digit_value_def digit_def)
qed

lemma digit_code: "(of_char (digit n) :: nat) = 48 + n mod 10"
proof -
  have "(48 + n mod 10) mod 256 = 48 + n mod 10"
    by (rule mod_less) (use mod_less_divisor [of 10 n] in linarith)
  then show ?thesis by (simp add: digit_def)
qed

lemma digit_neq: "(of_char c :: nat) < 48 \<or> 57 < (of_char c :: nat) \<Longrightarrow> digit n \<noteq> c"
proof
  assume "(of_char c :: nat) < 48 \<or> 57 < (of_char c :: nat)" and "digit n = c"
  then show False using digit_code [of n] mod_less_divisor [of 10 n] by auto
qed

lemma length_pad [simp]: "length (pad w n) = w"
  by (induction w arbitrary: n) auto

lemma set_pad: "c \<in> set (pad w n) \<Longrightarrow> \<exists>k. c = digit k"
  by (induction w arbitrary: n) auto

lemma read_digits_append:
  "read_digits acc (xs @ ys)
   = (case read_digits acc xs of None \<Rightarrow> None | Some a \<Rightarrow> read_digits a ys)"
  by (induction xs arbitrary: acc) (auto split: option.splits)

lemma read_digits_pad_acc: "n < 10 ^ w \<Longrightarrow> read_digits acc (pad w n) = Some (acc * 10 ^ w + n)"
proof (induction w arbitrary: n)
  case (Suc w)
  have "n div 10 < 10 ^ w" using Suc.prems by (simp add: div_less_iff_less_mult)
  then have "read_digits acc (pad w (n div 10)) = Some (acc * 10 ^ w + n div 10)"
    by (rule Suc.IH)
  then show ?case by (simp add: read_digits_append algebra_simps)
qed simp

lemma read_digits_pad: "n < 10 ^ w \<Longrightarrow> read_digits 0 (pad w n) = Some n"
  by (simp add: read_digits_pad_acc)

section \<open>Printing\<close>

fun decimal :: "nat \<Rightarrow> string" where
  "decimal n = (if n < 10 then [digit n] else decimal (n div 10) @ [digit n])"

declare decimal.simps [simp del]

definition year_text :: "nat \<Rightarrow> string" where
  "year_text y = (if y < 10000 then pad 4 y else decimal y)"

definition trim_zeros :: "string \<Rightarrow> string" where
  "trim_zeros s = rev (dropWhile (\<lambda>c. c = CHR ''0'') (rev s))"

definition fraction_text :: "nat \<Rightarrow> string" where
  "fraction_text ns = (if ns = 0 then [] else CHR ''.'' # trim_zeros (pad 9 ns))"

definition seconds_text :: "gotime \<Rightarrow> string" where
  "seconds_text t = year_text (t_year t) @ ''-'' @ pad 2 (t_month t) @ ''-'' @ pad 2 (t_day t)
     @ ''T'' @ pad 2 (t_hour t) @ '':'' @ pad 2 (t_min t) @ '':'' @ pad 2 (t_sec t)"

definition rfc3339_nano :: "gotime \<Rightarrow> string" where
  "rfc3339_nano t = seconds_text t @ fraction_text (t_nsec t) @ ''Z''"

definition rfc3339 :: "gotime \<Rightarrow> string" where
  "rfc3339 t = seconds_text t @ ''Z''"

section \<open>Parsing\<close>

text \<open>
  \<open>field w sep s\<close> reads \<open>w\<close> digits and then the separator \<open>sep\<close>.
\<close>

definition field :: "nat \<Rightarrow> string \<Rightarrow> string \<Rightarrow> (nat \<times> string) option" where
  "field w sep s =
     (case read_digits 0 (take w s) of
        None \<Rightarrow> None
      | Some n \<Rightarrow>
          if length (take w s) = w \<and> take (length sep) (drop w s) = sep
          then Some (n, drop (w + length sep) s) else None)"

text \<open>What follows the seconds: the zone \<open>Z\<close>, with a fraction before it or none. At most
  nine digits of a fraction count.\<close>

definition parse_fraction :: "string \<Rightarrow> nat option" where
  "parse_fraction s =
     (if s = ''Z'' then Some 0
      else if 3 \<le> length s \<and> hd s = CHR ''.'' \<and> last s = CHR ''Z''
      then (let ds = butlast (tl s) in
            case read_digits 0 ds of
              None \<Rightarrow> None
            | Some _ \<Rightarrow> read_digits 0 (take 9 (ds @ replicate 9 CHR ''0'')))
      else None)"

definition parse_rfc3339 :: "string \<Rightarrow> gotime option" where
  "parse_rfc3339 s0 =
     (case field 4 ''-'' s0 of None \<Rightarrow> None | Some (y, s1) \<Rightarrow>
      (case field 2 ''-'' s1 of None \<Rightarrow> None | Some (mo, s2) \<Rightarrow>
      (case field 2 ''T'' s2 of None \<Rightarrow> None | Some (d, s3) \<Rightarrow>
      (case field 2 '':'' s3 of None \<Rightarrow> None | Some (h, s4) \<Rightarrow>
      (case field 2 '':'' s4 of None \<Rightarrow> None | Some (mi, s5) \<Rightarrow>
      (case field 2 [] s5 of None \<Rightarrow> None | Some (sec, s6) \<Rightarrow>
      (case parse_fraction s6 of None \<Rightarrow> None | Some ns \<Rightarrow>
        (let t = GoTime y mo d h mi sec ns in if valid_time t then Some t else None))))))))"

section \<open>Parsing a printed instant\<close>

lemma field_pad:
  "n < 10 ^ w \<Longrightarrow> field w sep (pad w n @ sep @ rest) = Some (n, rest)"
  by (simp add: field_def read_digits_pad)

lemma trim_zeros_split: "\<exists>k. s = trim_zeros s @ replicate k CHR ''0''"
proof -
  have "takeWhile (\<lambda>c. c = CHR ''0'') (rev s)
      = replicate (length (takeWhile (\<lambda>c. c = CHR ''0'') (rev s))) CHR ''0''"
    by (rule replicate_eqI) (auto dest: set_takeWhileD)
  then obtain k where "takeWhile (\<lambda>c. c = CHR ''0'') (rev s) = replicate k CHR ''0''"
    by blast
  then have "rev s = replicate k CHR ''0'' @ dropWhile (\<lambda>c. c = CHR ''0'') (rev s)"
    by (metis takeWhile_dropWhile_id)
  then have "s = trim_zeros s @ replicate k CHR ''0''"
    unfolding trim_zeros_def by (metis rev_append rev_replicate rev_rev_ident)
  then show ?thesis ..
qed

lemma read_digits_zeros: "read_digits 0 (replicate k CHR ''0'') = Some 0"
  by (induction k) (simp_all add: digit_value_def)

lemma trim_zeros_pad:
  assumes "0 < ns" and "ns < 10 ^ 9"
  shows "trim_zeros (pad 9 ns) \<noteq> []"
    and "read_digits 0 (trim_zeros (pad 9 ns)) \<noteq> None"
    and "take 9 (trim_zeros (pad 9 ns) @ replicate 9 CHR ''0'') = pad 9 ns"
proof -
  obtain k where k: "pad 9 ns = trim_zeros (pad 9 ns) @ replicate k CHR ''0''"
    using trim_zeros_split by blast
  have r: "read_digits 0 (pad 9 ns) = Some ns"
    using assms(2) by (rule read_digits_pad)
  show "trim_zeros (pad 9 ns) \<noteq> []"
  proof
    assume "trim_zeros (pad 9 ns) = []"
    with k have "pad 9 ns = replicate k CHR ''0''" by simp
    with r read_digits_zeros [of k] assms(1) show False by simp
  qed
  show "read_digits 0 (trim_zeros (pad 9 ns)) \<noteq> None"
    using r k by (metis option.distinct(1) option.simps(4) read_digits_append)
  have len: "length (trim_zeros (pad 9 ns)) + k = 9"
    using arg_cong [OF k, of length] by simp
  then have "take 9 (trim_zeros (pad 9 ns) @ replicate 9 CHR ''0'')
      = trim_zeros (pad 9 ns) @ replicate k CHR ''0''"
    by (simp add: min_def)
  with k show "take 9 (trim_zeros (pad 9 ns) @ replicate 9 CHR ''0'') = pad 9 ns" by simp
qed

lemma parse_fraction_text:
  assumes "ns < 10 ^ 9"
  shows "parse_fraction (fraction_text ns @ ''Z'') = Some ns"
proof (cases "ns = 0")
  case True
  then show ?thesis by (simp add: parse_fraction_def fraction_text_def)
next
  case False
  note tz = trim_zeros_pad [OF _ assms]
  obtain v where "read_digits 0 (trim_zeros (pad 9 ns)) = Some v"
    using tz(2) False by auto
  moreover have "1 \<le> length (trim_zeros (pad 9 ns))"
    using tz(1) False by (simp add: Suc_le_eq)
  ultimately show ?thesis
    using False tz(3) read_digits_pad [OF assms]
    by (simp add: parse_fraction_def fraction_text_def butlast_append Let_def)
qed

lemma parse_rfc3339_nano:
  assumes "valid_time t" and "json_year t"
  shows "parse_rfc3339 (rfc3339_nano t) = Some t"
proof -
  obtain y mo d h mi sec ns where t: "t = GoTime y mo d h mi sec ns"
    by (cases t)
  have b: "y < 10 ^ 4" "mo < 10 ^ 2" "d < 10 ^ 2" "h < 10 ^ 2" "mi < 10 ^ 2" "sec < 10 ^ 2"
    "ns < 10 ^ 9"
    using assms days_in_le [of mo y] by (auto simp: t valid_time_def json_year_def)
  have fin: "field 2 [] (pad 2 sec @ fraction_text ns @ ''Z'') = Some (sec, fraction_text ns @ ''Z'')"
    using field_pad [OF b(6), of "[]"] by simp
  have y4: "rfc3339_nano t = pad 4 y @ ''-'' @ pad 2 mo @ ''-'' @ pad 2 d @ ''T'' @ pad 2 h
      @ '':'' @ pad 2 mi @ '':'' @ pad 2 sec @ fraction_text ns @ ''Z''"
    using b(1) by (simp add: rfc3339_nano_def seconds_text_def year_text_def t)
  show ?thesis
    unfolding parse_rfc3339_def y4
    by (simp only: field_pad [OF b(1)] field_pad [OF b(2)] field_pad [OF b(3)]
        field_pad [OF b(4)] field_pad [OF b(5)] fin parse_fraction_text [OF b(7)]
        option.case prod.case Let_def)
      (use assms(1) t in simp)
qed

text \<open>Every character of a printed instant is a digit or one of the layout's separators.\<close>

lemma set_trim_zeros: "set (trim_zeros s) \<subseteq> set s"
  by (auto simp: trim_zeros_def dest: set_dropWhileD)

lemma set_decimal: "c \<in> set (decimal n) \<Longrightarrow> \<exists>k. c = digit k"
  by (induction n rule: decimal.induct) (subst (asm) (2) decimal.simps, auto split: if_splits)

lemma set_rfc3339_nano:
  "c \<in> set (rfc3339_nano t) \<Longrightarrow> (\<exists>k. c = digit k) \<or> c \<in> set ''-:.TZ''"
  using set_trim_zeros [of "pad 9 (t_nsec t)"]
  by (auto simp: rfc3339_nano_def seconds_text_def year_text_def fraction_text_def
      dest: set_pad set_decimal split: if_splits)

lemma bar_not_in_rfc3339_nano: "CHR ''|'' \<notin> set (rfc3339_nano t)"
proof -
  have "digit k \<noteq> CHR ''|''" for k by (rule digit_neq) simp
  then show ?thesis using set_rfc3339_nano [of "CHR ''|''" t] by fastforce
qed

end
