(* ===== verification/Go_Json.thy ===== *)
theory Go_Json
  imports Go_Time
begin

text \<open>
  JSON documents and the part of Go's \<open>encoding/json\<close> the services use on their events.

  A document is its value, not its text: the events pass through \<open>JSONB\<close> columns, which
  keep the value only (every key once), so the bytes a consumer reads are PostgreSQL's rendering
  of it. A Kafka message body is a \<open>wire\<close>: bytes that are no JSON text, or a document.
  Strings are valid UTF-8 (everything enters the system through JSON or protobuf, which admit
  nothing else), so \<open>json.Marshal\<close> keeps them as they are.

  Unmarshalling into a struct goes through the members in order; a member sets the field whose
  name it matches (case folded, as Go does), an unknown member is skipped, \<open>null\<close> leaves a
  field as it is, and a member of the wrong type makes the whole call fail (\<open>None\<close>).
\<close>

section \<open>Documents\<close>

datatype json = JNull | JBool bool | JInt int | JDec string | JStr string
  | JArr "json list" | JObj "(string \<times> json) list"

text \<open>\<open>JInt\<close>: a number literal that is an integer; \<open>JDec\<close>: any other number literal, by
  its text.\<close>

datatype wire = Malformed | Doc json

section \<open>Matching member names\<close>

text \<open>
  Go folds a name to the smallest character of each folding orbit: ASCII letters to upper case,
  and the two characters beyond ASCII that fold to ASCII letters (long s, Kelvin sign).
\<close>

definition upper :: "char \<Rightarrow> char" where
  "upper c = (if 97 \<le> (of_char c :: nat) \<and> (of_char c :: nat) \<le> 122
              then char_of ((of_char c :: nat) - 32) else c)"

fun fold_key :: "string \<Rightarrow> string" where
  "fold_key [] = []"
| "fold_key (c # cs) =
     (if c = CHR 0xC5 \<and> take 1 cs = [CHR 0xBF] then CHR ''S'' # fold_key (drop 1 cs)
      else if c = CHR 0xE2 \<and> take 2 cs = [CHR 0x84, CHR 0xAA] then CHR ''K'' # fold_key (drop 2 cs)
      else upper c # fold_key cs)"

section \<open>Unmarshalling\<close>

text \<open>A struct's fields: each name with the decoder that stores a member's value.\<close>

type_synonym 'r fields = "(string \<times> (json \<Rightarrow> 'r \<Rightarrow> 'r option)) list"

definition find_field :: "'r fields \<Rightarrow> string \<Rightarrow> (json \<Rightarrow> 'r \<Rightarrow> 'r option) option" where
  "find_field fs k = map_option snd (List.find (\<lambda>f. fold_key (fst f) = fold_key k) fs)"

fun decode_members :: "'r fields \<Rightarrow> (string \<times> json) list \<Rightarrow> 'r \<Rightarrow> 'r option" where
  "decode_members fs [] r = Some r"
| "decode_members fs ((k, v) # ms) r =
     (case find_field fs k of
        None \<Rightarrow> decode_members fs ms r
      | Some set_field \<Rightarrow>
          (case set_field v r of None \<Rightarrow> None | Some r' \<Rightarrow> decode_members fs ms r'))"

fun decode_struct :: "'r fields \<Rightarrow> 'r \<Rightarrow> json \<Rightarrow> 'r option" where
  "decode_struct fs zero (JObj ms) = decode_members fs ms zero"
| "decode_struct fs zero JNull = Some zero"
| "decode_struct fs zero _ = None"

text \<open>Values of the basic types; the first argument is what the field holds before.\<close>

fun decode_string :: "string \<Rightarrow> json \<Rightarrow> string option" where
  "decode_string old (JStr s) = Some s"
| "decode_string old JNull = Some old"
| "decode_string old _ = None"

fun decode_int :: "int64 \<Rightarrow> json \<Rightarrow> int64 option" where
  "decode_int old (JInt i) = (if int64_range i then Some (word_of_int i) else None)"
| "decode_int old JNull = Some old"
| "decode_int old _ = None"

fun decode_slice :: "(json \<Rightarrow> 'a option) \<Rightarrow> json \<Rightarrow> 'a list option" where
  "decode_slice elem (JArr js) = those (map elem js)"
| "decode_slice elem JNull = Some []"
| "decode_slice elem _ = None"

text \<open>\<open>json.Unmarshal(data, &v)\<close> with \<open>v\<close> zero: \<open>None\<close> is a non-nil error.\<close>

fun unmarshal :: "'r fields \<Rightarrow> 'r \<Rightarrow> wire \<Rightarrow> 'r option" where
  "unmarshal fs zero Malformed = None"
| "unmarshal fs zero (Doc j) = decode_struct fs zero j"

section \<open>Marshalling\<close>

text \<open>\<open>time.Time.MarshalJSON\<close>: an error outside the years 0 to 9999.\<close>

definition marshal_time :: "gotime \<Rightarrow> json option" where
  "marshal_time t = (if json_year t then Some (JStr (rfc3339_nano t)) else None)"

definition marshal_int :: "int64 \<Rightarrow> json" where
  "marshal_int w = JInt (sint w)"

lemma decode_int_marshal [simp]: "decode_int old (marshal_int w) = Some w"
  by (simp add: marshal_int_def sint_int64_range)

lemma those_map_Some: "those (map (\<lambda>x. Some (g x)) xs) = Some (map g xs)"
  by (induction xs) auto

lemma those_map_cong: "(\<And>x. x \<in> set xs \<Longrightarrow> f x = Some (g x)) \<Longrightarrow> those (map f xs) = Some (map g xs)"
  by (induction xs) auto

end
