(* ===== verification/Order_Domain.thy ===== *)
theory Order_Domain
  imports Go_Json
begin

text \<open>
  \<open>order-service/internal/domain/order.go\<close>: money, order lines, the order aggregate with
  its constructor and its status machine, and the events the service publishes.

  Amounts are \<open>int64\<close> and wrap. \<open>time.Now()\<close> is an argument. A version is an
  \<open>int\<close>: the code only writes 1 and successors, and \<open>order_inv\<close> in the theory of
  the store bounds it by 3, far inside the column's 32 bits.
\<close>

section \<open>Status\<close>

datatype OrderStatus = StatusCreated | StatusAwaitingStock | StatusConfirmed
  | StatusCancelled | StatusCompleted

fun status_text :: "OrderStatus \<Rightarrow> string" where
  "status_text StatusCreated = ''CREATED''"
| "status_text StatusAwaitingStock = ''AWAITING_STOCK''"
| "status_text StatusConfirmed = ''CONFIRMED''"
| "status_text StatusCancelled = ''CANCELLED''"
| "status_text StatusCompleted = ''COMPLETED''"

fun allowedTransactions :: "OrderStatus \<Rightarrow> OrderStatus list" where
  "allowedTransactions StatusCreated = [StatusAwaitingStock]"
| "allowedTransactions StatusAwaitingStock = [StatusConfirmed, StatusCancelled]"
| "allowedTransactions StatusConfirmed = [StatusCompleted]"
| "allowedTransactions StatusCancelled = []"
| "allowedTransactions StatusCompleted = []"

section \<open>Errors\<close>

datatype order_sentinel = ErrEmptyItems | ErrInvalidTransition | ErrOptimisticLock | ErrNoRows

type_synonym order_error = "order_sentinel go_error"

text \<open>The texts of the sentinels, in UTF-8; \<open>ErrNoRows\<close> is the driver's.\<close>

fun order_error_msg :: "order_sentinel \<Rightarrow> string" where
  "order_error_msg ErrEmptyItems = utf8 [208, 183, 208, 176, 208, 186, 208, 176, 208, 183, 32,
     208, 180, 208, 190, 208, 187, 208, 182, 208, 181, 208, 189, 32, 209, 129, 208, 190, 208, 180,
     208, 181, 209, 128, 208, 182, 208, 176, 209, 130, 209, 140, 32, 208, 186, 208, 176, 208, 186,
     32, 208, 188, 208, 184, 208, 189, 208, 184, 208, 188, 209, 131, 208, 188, 32, 49, 32, 209, 130,
     208, 190, 208, 178, 208, 176, 209, 128]"
| "order_error_msg ErrInvalidTransition = utf8 [208, 189, 208, 181, 208, 178, 208, 176, 208, 187,
     208, 184, 208, 180, 208, 189, 209, 139, 208, 185, 32, 208, 191, 208, 181, 209, 128, 208, 181,
     209, 133, 208, 190, 208, 180, 32, 209, 129, 209, 130, 208, 176, 209, 130, 209, 131, 209, 129,
     208, 176]"
| "order_error_msg ErrOptimisticLock = utf8 [208, 183, 208, 176, 208, 186, 208, 176, 208, 183, 32,
     208, 190, 208, 177, 209, 128, 208, 176, 208, 177, 208, 176, 209, 130, 209, 139, 208, 178, 208,
     176, 208, 181, 209, 130, 209, 129, 209, 143, 32, 208, 186, 208, 190, 208, 189, 208, 186, 209,
     131, 209, 128, 208, 181, 208, 189, 209, 130, 208, 189, 208, 190, 44, 32, 208, 191, 208, 190,
     208, 178, 209, 130, 208, 190, 209, 128]"
| "order_error_msg ErrNoRows = ''no rows in result set''"

section \<open>Data\<close>

record Money =
  Amount :: int64
  Currency :: string

record OrderItem =
  SKU :: string
  Name :: string
  Price :: Money
  Quantity :: int64

record Order =
  ID :: string
  CustomerID :: string
  Items :: "OrderItem list"
  TotalCost :: Money
  Status :: OrderStatus
  Version :: int
  CreatedAt :: gotime
  UpdatedAt :: gotime

definition NewMoney :: "int64 \<Rightarrow> string \<Rightarrow> Money" where
  "NewMoney amount currency = \<lparr>Amount = amount, Currency = currency\<rparr>"

definition Money_Add :: "Money \<Rightarrow> Money \<Rightarrow> Money" where
  "Money_Add m other = \<lparr>Amount = Amount m + Amount other, Currency = Currency m\<rparr>"

definition Subtotal :: "OrderItem \<Rightarrow> Money" where
  "Subtotal i = \<lparr>Amount = Amount (Price i) * Quantity i, Currency = Currency (Price i)\<rparr>"

section \<open>The aggregate's operations\<close>

text \<open>The loop of \<open>NewOrder\<close> over the items.\<close>

fun add_subtotals :: "OrderItem list \<Rightarrow> Money \<Rightarrow> Money" where
  "add_subtotals [] tot = tot"
| "add_subtotals (it # items) tot = add_subtotals items (Money_Add tot (Subtotal it))"

definition NewOrder :: "string \<Rightarrow> string \<Rightarrow> OrderItem list \<Rightarrow> gotime \<Rightarrow> order_error + Order" where
  "NewOrder oid customerID items now =
     (case items of
        [] \<Rightarrow> Inl (Sentinel ErrEmptyItems)
      | it0 # _ \<Rightarrow>
          let tot = add_subtotals items \<lparr>Amount = 0, Currency = Currency (Price it0)\<rparr> in
          Inr \<lparr>ID = oid, CustomerID = customerID, Items = items, TotalCost = tot,
               Status = StatusCreated, Version = 1, CreatedAt = now, UpdatedAt = now\<rparr>)"

text \<open>The loop of \<open>TransitionTo\<close> over the allowed successors.\<close>

fun transition_scan ::
  "OrderStatus list \<Rightarrow> OrderStatus \<Rightarrow> gotime \<Rightarrow> Order \<Rightarrow> order_error + Order" where
  "transition_scan [] newStatus now ord = Inl (Sentinel ErrInvalidTransition)"
| "transition_scan (s # allowed) newStatus now ord =
     (if s = newStatus then Inr (ord\<lparr>Status := newStatus, UpdatedAt := now\<rparr>)
      else transition_scan allowed newStatus now ord)"

definition TransitionTo :: "Order \<Rightarrow> OrderStatus \<Rightarrow> gotime \<Rightarrow> order_error + Order" where
  "TransitionTo ord newStatus now =
     transition_scan (allowedTransactions (Status ord)) newStatus now ord"

section \<open>Events\<close>

definition EventTypeOrderCreated :: string where
  "EventTypeOrderCreated = ''order.created''"

definition EventTypeOrderConfirmed :: string where
  "EventTypeOrderConfirmed = ''order.confirmed''"

definition EventTypeOrderCancelled :: string where
  "EventTypeOrderCancelled = ''order.cancelled''"

lemmas event_type_defs =
  EventTypeOrderCreated_def EventTypeOrderConfirmed_def EventTypeOrderCancelled_def

record OrderCreatedEvent =
  oce_OrderID :: string
  oce_CustomerID :: string
  oce_Items :: "OrderItem list"
  oce_TotalCost :: Money
  oce_CreatedAt :: gotime

record OrderCancelledEvent =
  oxe_OrderID :: string
  oxe_Reason :: string

record OrderConfirmedEvent =
  ofe_OrderID :: string

text \<open>\<open>json.Marshal\<close> by the struct tags.\<close>

definition marshal_Money :: "Money \<Rightarrow> json" where
  "marshal_Money m = JObj [(''amount'', marshal_int (Amount m)), (''currency'', JStr (Currency m))]"

definition marshal_OrderItem :: "OrderItem \<Rightarrow> json" where
  "marshal_OrderItem i = JObj [(''sku'', JStr (SKU i)), (''name'', JStr (Name i)),
     (''price'', marshal_Money (Price i)), (''quantity'', marshal_int (Quantity i))]"

definition marshal_OrderCreatedEvent :: "OrderCreatedEvent \<Rightarrow> json option" where
  "marshal_OrderCreatedEvent e =
     (case marshal_time (oce_CreatedAt e) of
        None \<Rightarrow> None
      | Some created \<Rightarrow>
          Some (JObj [(''order_id'', JStr (oce_OrderID e)), (''customer_id'', JStr (oce_CustomerID e)),
            (''items'', JArr (map marshal_OrderItem (oce_Items e))),
            (''total_cost'', marshal_Money (oce_TotalCost e)), (''created_at'', created)]))"

definition marshal_OrderCancelledEvent :: "OrderCancelledEvent \<Rightarrow> json" where
  "marshal_OrderCancelledEvent e =
     JObj [(''order_id'', JStr (oxe_OrderID e)), (''reason'', JStr (oxe_Reason e))]"

definition marshal_OrderConfirmedEvent :: "OrderConfirmedEvent \<Rightarrow> json" where
  "marshal_OrderConfirmedEvent e = JObj [(''order_id'', JStr (ofe_OrderID e))]"

section \<open>The total of an order\<close>

definition exact_total :: "OrderItem list \<Rightarrow> int" where
  "exact_total items = (\<Sum>i\<leftarrow>items. sint (Amount (Price i)) * sint (Quantity i))"

lemma add_subtotals_eq:
  "add_subtotals items tot
   = \<lparr>Amount = Amount tot + (\<Sum>i\<leftarrow>items. Amount (Price i) * Quantity i), Currency = Currency tot\<rparr>"
  by (induction items arbitrary: tot) (simp_all add: Money_Add_def Subtotal_def add.assoc)

lemma word_total_eq:
  "(\<Sum>i\<leftarrow>items. Amount (Price i) * Quantity i) = word_of_int (exact_total items)"
  by (induction items) (simp_all add: exact_total_def)

lemma NewOrder_Nil: "NewOrder oid cust [] now = Inl (Sentinel ErrEmptyItems)"
  by (simp add: NewOrder_def)

lemma NewOrder_Cons:
  "NewOrder oid cust (it # items) now
   = Inr \<lparr>ID = oid, CustomerID = cust, Items = it # items,
       TotalCost = \<lparr>Amount = word_of_int (exact_total (it # items)), Currency = Currency (Price it)\<rparr>,
       Status = StatusCreated, Version = 1, CreatedAt = now, UpdatedAt = now\<rparr>"
  by (simp add: NewOrder_def add_subtotals_eq word_total_eq [symmetric] del: add_subtotals.simps)

lemma NewOrder_fields:
  assumes "NewOrder oid cust items now = Inr ord"
  shows "ID ord = oid" "CustomerID ord = cust" "Items ord = items" "Status ord = StatusCreated"
    "Version ord = 1" "CreatedAt ord = now" "UpdatedAt ord = now" "items \<noteq> []"
  using assms by (cases items; simp add: NewOrder_Nil NewOrder_Cons; auto)+

lemma signed_wrap: "sint (word_of_int i :: int64) = (i + 2 ^ 63) mod 2 ^ 64 - 2 ^ 63"
  by (simp add: sint_sbintrunc' signed_take_bit_eq_take_bit_shift take_bit_eq_mod)

section \<open>The status machine\<close>

lemma transition_scan_eq:
  "transition_scan allowed new now ord
   = (if new \<in> set allowed then Inr (ord\<lparr>Status := new, UpdatedAt := now\<rparr>)
      else Inl (Sentinel ErrInvalidTransition))"
  by (induction allowed) auto

lemma TransitionTo_eq [go_simps]:
  "TransitionTo ord new now
   = (if new \<in> set (allowedTransactions (Status ord))
      then Inr (ord\<lparr>Status := new, UpdatedAt := now\<rparr>)
      else Inl (Sentinel ErrInvalidTransition))"
  by (simp add: TransitionTo_def transition_scan_eq)

text \<open>How many transitions an order still has before it, and the version it has then.\<close>

fun steps_left :: "OrderStatus \<Rightarrow> nat" where
  "steps_left StatusCreated = 3"
| "steps_left StatusAwaitingStock = 2"
| "steps_left StatusConfirmed = 1"
| "steps_left StatusCancelled = 0"
| "steps_left StatusCompleted = 0"

lemma steps_left_decrease: "t \<in> set (allowedTransactions s) \<Longrightarrow> steps_left t < steps_left s"
  by (cases s) auto

text \<open>A sequence of transitions, up to the first that is refused.\<close>

fun transitions :: "(OrderStatus \<times> gotime) list \<Rightarrow> Order \<Rightarrow> order_error + Order" where
  "transitions [] ord = Inr ord"
| "transitions ((new, now) # rest) ord =
     (case TransitionTo ord new now of Inl e \<Rightarrow> Inl e | Inr ord' \<Rightarrow> transitions rest ord')"

lemma transitions_steps_left:
  "transitions ss ord = Inr ord' \<Longrightarrow> length ss + steps_left (Status ord') \<le> steps_left (Status ord)"
proof (induction ss arbitrary: ord)
  case (Cons s ss)
  then show ?case
    by (cases s) (fastforce simp: go_simps dest: steps_left_decrease split: if_splits)
qed simp

section \<open>Guarantees of the domain\<close>

text \<open>
  Property C34 (bounds). The total of a new order is the sum of price times quantity over its
  lines, wrapped to 64 bits: exact whenever that sum is in the range of \<open>int64\<close> (whatever the
  partial sums do), off by a multiple of \<open>2 ^ 64\<close> otherwise. It is in the currency of the
  first line; those of the other lines are not looked at.
\<close>

theorem NewOrder_total:
  assumes "NewOrder oid cust items now = Inr ord"
  shows "sint (Amount (TotalCost ord)) = (exact_total items + 2 ^ 63) mod 2 ^ 64 - 2 ^ 63
    \<and> (int64_range (exact_total items) \<longleftrightarrow> sint (Amount (TotalCost ord)) = exact_total items)
    \<and> Currency (TotalCost ord) = Currency (Price (hd items))"
proof -
  obtain it rest where items: "items = it # rest" using NewOrder_fields(8) [OF assms] by (cases items) auto
  have t: "Amount (TotalCost ord) = word_of_int (exact_total items)"
    "Currency (TotalCost ord) = Currency (Price (hd items))"
    using assms by (auto simp: items NewOrder_Cons)
  have "int64_range (exact_total items)" if "sint (Amount (TotalCost ord)) = exact_total items"
    using that sint_int64_range [of "Amount (TotalCost ord)"] by simp
  moreover have "sint (Amount (TotalCost ord)) = (exact_total items + 2 ^ 63) mod 2 ^ 64 - 2 ^ 63"
    unfolding t(1) by (rule signed_wrap)
  moreover have "sint (Amount (TotalCost ord)) = exact_total items" if "int64_range (exact_total items)"
    unfolding t(1) using that by (rule sint_of_int_in_range)
  ultimately show ?thesis using t(2) by blast
qed

theorem NewOrder_total_witness:
  "\<exists>ord. NewOrder ''o1'' ''c1''
      [\<lparr>SKU = ''a'', Name = ''a'', Price = \<lparr>Amount = 5, Currency = ''USD''\<rparr>, Quantity = 2\<rparr>,
       \<lparr>SKU = ''b'', Name = ''b'', Price = \<lparr>Amount = 7, Currency = ''EUR''\<rparr>, Quantity = 3\<rparr>]
      (GoTime 2024 1 1 0 0 0 0) = Inr ord
    \<and> sint (Amount (TotalCost ord)) = 31 \<and> Currency (TotalCost ord) = ''USD''"
proof -
  let ?items = "[\<lparr>SKU = ''a'', Name = ''a'', Price = \<lparr>Amount = 5, Currency = ''USD''\<rparr>, Quantity = 2\<rparr>,
       \<lparr>SKU = ''b'', Name = ''b'', Price = \<lparr>Amount = 7, Currency = ''EUR''\<rparr>, Quantity = 3\<rparr>]"
  obtain ord where n: "NewOrder ''o1'' ''c1'' ?items (GoTime 2024 1 1 0 0 0 0) = Inr ord"
    using NewOrder_Cons by blast
  have "exact_total ?items = 31" by (simp add: exact_total_def)
  with NewOrder_total [OF n] n show ?thesis by (simp add: int64_range_def)
qed

text \<open>
  The wrap-around is reached by lines that pass the validation of the
  requests (a positive price and a positive quantity): one line of two pieces is enough to make
  an order's total negative.
\<close>

theorem NewOrder_negative_total:
  "\<exists>it ord. NewOrder oid cust [it] now = Inr ord
    \<and> 0 < sint (Amount (Price it)) \<and> 0 < sint (Quantity it) \<and> sint (Amount (TotalCost ord)) < 0"
proof -
  let ?it = "\<lparr>SKU = ''a'', Name = ''a'', Price = \<lparr>Amount = 5000000000000000000, Currency = ''USD''\<rparr>,
    Quantity = 2\<rparr>"
  have "sint (word_of_int 10000000000000000000 :: int64) < 0" by (simp add: signed_wrap)
  moreover have "sint (5000000000000000000 :: int64) = 5000000000000000000"
    using sint_of_int_in_range [of 5000000000000000000] by (simp add: int64_range_def)
  ultimately show ?thesis
    by (intro exI [of _ ?it] exI) (auto simp: NewOrder_Cons exact_total_def)
qed

text \<open>
  The status machine has no cycle: a sequence of transitions that
  all succeed has at most three of them, and fewer the further the order is.
\<close>

theorem transitions_bounded:
  assumes "transitions ss ord = Inr ord'"
  shows "length ss + steps_left (Status ord') \<le> steps_left (Status ord) \<and> length ss \<le> 3"
proof -
  have "steps_left (Status ord) \<le> 3" by (cases "Status ord") auto
  with transitions_steps_left [OF assms] show ?thesis by simp
qed

theorem transitions_bounded_witness:
  "\<exists>ord ord' ss. transitions ss ord = Inr ord' \<and> length ss = 3
    \<and> length ss + steps_left (Status ord') \<le> steps_left (Status ord)"
proof -
  let ?t = "GoTime 2024 1 1 0 0 0 0"
  let ?ord = "\<lparr>ID = ''o1'', CustomerID = ''c1'', Items = [], TotalCost = \<lparr>Amount = 0, Currency = ''USD''\<rparr>,
    Status = StatusCreated, Version = 1, CreatedAt = ?t, UpdatedAt = ?t\<rparr>"
  let ?ss = "[(StatusAwaitingStock, ?t), (StatusConfirmed, ?t), (StatusCompleted, ?t)]"
  have "transitions ?ss ?ord = Inr (?ord\<lparr>Status := StatusCompleted\<rparr>)" by (simp add: go_simps)
  from transitions_bounded [OF this] this show ?thesis
    by (intro exI [of _ ?ord] exI [of _ "?ord\<lparr>Status := StatusCompleted\<rparr>"] exI [of _ ?ss]) simp
qed

end
