(* ===== verification/Order_Cursor.thy ===== *)
theory Order_Cursor
  imports Go_Base64 Order_Domain
begin

text \<open>
  The pagination cursor of order-service: \<open>encodeCursor\<close> and \<open>decodeCursor\<close> of
  \<open>internal/repository/postgres/order_repo.go\<close>.

  How an instant is printed and parsed is the pair of arguments \<open>fmt\<close>, \<open>parse\<close>
  (\<open>Format\<close> and \<open>time.Parse\<close> with RFC 3339 and nanoseconds; the printed zone is that of
  the process). The locale \<open>time_text\<close> says what the cursor needs of them, and is
  interpreted on the UTC texts of the theory of time.
\<close>

definition msg_cursor_format :: string where
  "msg_cursor_format = utf8 [208, 189, 208, 181, 208, 178, 208, 176, 208, 187, 208, 184, 208, 180,
     208, 189, 209, 139, 208, 185, 32, 209, 132, 208, 190, 209, 128, 208, 188, 208, 176, 209, 130,
     32, 208, 186, 209, 131, 209, 128, 209, 129, 208, 190, 209, 128, 208, 176]"

text \<open>\<open>strings.SplitN(s, "|", 2)\<close>.\<close>

fun split_bar :: "string \<Rightarrow> string list" where
  "split_bar [] = [[]]"
| "split_bar (c # cs) =
     (if c = CHR ''|'' then [[], cs]
      else (case split_bar cs of [] \<Rightarrow> [[c]] | p # ps \<Rightarrow> (c # p) # ps))"

definition encodeCursor :: "(gotime \<Rightarrow> string) \<Rightarrow> gotime \<Rightarrow> string \<Rightarrow> string" where
  "encodeCursor fmt createdAt oid = encode64 (fmt createdAt @ ''|'' @ oid)"

definition decodeCursor :: "(string \<Rightarrow> gotime option) \<Rightarrow> string \<Rightarrow> order_error + gotime \<times> string" where
  "decodeCursor parse cursor =
     (case decode64 cursor of
        None \<Rightarrow> Inl (Opaque ''illegal base64 data'')
      | Some raw \<Rightarrow>
          (let parts = split_bar raw in
           if length parts \<noteq> 2 then Inl (Opaque msg_cursor_format)
           else (case parse (parts ! 0) of
                   None \<Rightarrow> Inl (Opaque ''parsing time'')
                 | Some t \<Rightarrow> Inr (t, parts ! 1))))"

lemma split_bar_first:
  "CHR ''|'' \<notin> set xs \<Longrightarrow> split_bar (xs @ CHR ''|'' # ys) = [xs, ys]"
  by (induction xs) auto

lemma split_bar_nonempty: "split_bar s \<noteq> []"
  by (cases s) (auto split: list.splits)

lemma encodeCursor_nonempty [simp]: "encodeCursor fmt t oid \<noteq> []"
  by (simp add: encodeCursor_def)

section \<open>What the cursor needs of the time texts\<close>

locale time_text =
  fixes fmt :: "gotime \<Rightarrow> string"
    and parse :: "string \<Rightarrow> gotime option"
    and printable :: "gotime \<Rightarrow> bool"
  assumes parse_fmt: "printable t \<Longrightarrow> parse (fmt t) = Some t"
    and no_bar: "CHR ''|'' \<notin> set (fmt t)"
begin

lemma decode_encode: "printable t \<Longrightarrow> decodeCursor parse (encodeCursor fmt t oid) = Inr (t, oid)"
  by (simp add: decodeCursor_def encodeCursor_def decode64_encode64 split_bar_first no_bar parse_fmt)

lemma encode_inject:
  assumes "printable t" and "printable u"
  shows "encodeCursor fmt t i = encodeCursor fmt u j \<longleftrightarrow> t = u \<and> i = j"
  by (metis assms decode_encode prod.inject sum.inject(2))

end

text \<open>An instant the database returns: a calendar date of a four-digit year.\<close>

definition cursor_time :: "gotime \<Rightarrow> bool" where
  "cursor_time t \<longleftrightarrow> valid_time t \<and> json_year t"

interpretation utc: time_text rfc3339_nano parse_rfc3339 cursor_time
  by unfold_locales (auto simp: cursor_time_def parse_rfc3339_nano bar_not_in_rfc3339_nano)

text \<open>
  A cursor built from an order's creation time and id decodes to
  exactly that time and that id, whatever characters the id contains (a bar included), for every
  instant with a four-digit year: base64 and the split at the first bar lose nothing.
\<close>

theorem cursor_roundtrip:
  assumes "valid_time t" and "json_year t"
  shows "decodeCursor parse_rfc3339 (encodeCursor rfc3339_nano t oid) = Inr (t, oid)"
  using assms by (intro utc.decode_encode) (simp add: cursor_time_def)

theorem cursor_roundtrip_witness:
  "decodeCursor parse_rfc3339 (encodeCursor rfc3339_nano (GoTime 2024 2 29 12 30 5 120000000) ''a|b'')
   = Inr (GoTime 2024 2 29 12 30 5 120000000, ''a|b'')"
  by (rule cursor_roundtrip) (simp_all add: valid_time_def days_in_def leap_year_def json_year_def)

end
