(* ===== verification/Outbox_Worker.thy ===== *)
theory Outbox_Worker
  imports Go_Json
begin

text \<open>
  The transactional outbox and its worker, which order-service and inventory-service hold in the
  same form (\<open>internal/outbox/worker.go\<close>, \<open>internal/outbox/publisher.go\<close>, the table
  \<open>outbox\<close> of both \<open>migrations/000002_outbox.up.sql\<close>).

  \<^item> \<open>fetch_pending\<close>, \<open>mark_sent\<close>, \<open>Publish\<close>, \<open>publish_loop\<close>,
    \<open>process_batch\<close>: one tick of the worker. What the loop's body does after a successful
    \<open>Publish\<close> differs between the services and is the argument \<open>body\<close>.
  \<^item> The locale \<open>outbox_worker\<close> is the contract of that body (it marks the record and
    leaves the rest of the outbox alone); its lemmas show that a tick is all or nothing in the
    database, that nothing is marked \<open>SENT\<close> which was not published (at least once), that
    records go out oldest first, and that ticks without failures drain the table.

  Kafka is a parameter: \<open>publish_result\<close> says for each write whether it was acknowledged,
  not written, or written with the acknowledgement lost.
\<close>

section \<open>The table\<close>

datatype outbox_status = PENDING | SENT

record outbox_row =
  ob_id :: string
  ob_aggregate :: string
  ob_type :: string
  ob_payload :: json
  ob_status :: outbox_status
  ob_created :: gotime
  ob_sent :: "gotime option"

record OutboxRecord =
  rec_ID :: string
  rec_AggregateID :: string
  rec_EventType :: string
  rec_Payload :: json

definition outbox_record :: "outbox_row \<Rightarrow> OutboxRecord" where
  "outbox_record r = \<lparr>rec_ID = ob_id r, rec_AggregateID = ob_aggregate r,
     rec_EventType = ob_type r, rec_Payload = ob_payload r\<rparr>"

text \<open>\<open>INSERT INTO outbox\<close>: \<open>rid\<close> is the value of \<open>gen_random_uuid()\<close>.\<close>

definition new_outbox_row :: "string \<Rightarrow> string \<Rightarrow> string \<Rightarrow> json \<Rightarrow> gotime \<Rightarrow> outbox_row" where
  "new_outbox_row rid aggregate type payload now =
     \<lparr>ob_id = rid, ob_aggregate = aggregate, ob_type = type, ob_payload = payload,
      ob_status = PENDING, ob_created = now, ob_sent = None\<rparr>"

definition pending :: "outbox_row list \<Rightarrow> outbox_row list" where
  "pending t = filter (\<lambda>r. ob_status r = PENDING) t"

text \<open>\<open>rows.Next\<close> and \<open>rows.Scan\<close> over the rows a stream delivers.\<close>

fun scan_rows :: "(nat \<Rightarrow> string option) \<Rightarrow> nat \<Rightarrow> 'r list \<Rightarrow> 's go_error + 'r list" where
  "scan_rows scan k [] = Inr []"
| "scan_rows scan k (r # rs) =
     (case scan k of
        Some m \<Rightarrow> Inl (Opaque m)
      | None \<Rightarrow> (case scan_rows scan (Suc k) rs of Inl e \<Rightarrow> Inl e | Inr xs \<Rightarrow> Inr (r # xs)))"

text \<open>
  The query of \<open>fetchPendingTx\<close>: pending rows that no other transaction has locked, oldest
  first, at most \<open>batch\<close> of them. \<open>rows.Err()\<close> is not consulted, so a stream that
  breaks off looks like a shorter result.
\<close>

definition pending_batch :: "(string \<Rightarrow> bool) \<Rightarrow> nat \<Rightarrow> outbox_row list \<Rightarrow> outbox_row list" where
  "pending_batch locked batch t =
     take batch (sort_key ob_created (filter (\<lambda>r. \<not> locked (ob_id r)) (pending t)))"

definition fetch_pending ::
  "db_faults \<Rightarrow> (string \<Rightarrow> bool) \<Rightarrow> nat \<Rightarrow> outbox_row list \<Rightarrow> 's go_error + OutboxRecord list" where
  "fetch_pending f locked batch t =
     (case f_exec f 0 of
        Some m \<Rightarrow> Inl (Opaque m)
      | None \<Rightarrow>
          (case scan_rows (f_scan f) 0 (delivered (f_rows f) (pending_batch locked batch t)) of
             Inl e \<Rightarrow> Inl e
           | Inr rows \<Rightarrow> Inr (map outbox_record rows)))"

definition mark_sent :: "gotime \<Rightarrow> string \<Rightarrow> outbox_row list \<Rightarrow> outbox_row list" where
  "mark_sent now rid t =
     update_where (\<lambda>r. ob_id r = rid) (\<lambda>r. r\<lparr>ob_status := SENT, ob_sent := Some now\<rparr>) t"

section \<open>The publisher\<close>

record message =
  msg_topic :: string
  msg_key :: string
  msg_value :: wire

datatype publish_result = Acked | NotWritten string | WrittenNoAck string

definition Publish ::
  "publish_result \<Rightarrow> string \<Rightarrow> string \<Rightarrow> json \<Rightarrow> message list \<Rightarrow> 's go_error option \<times> message list" where
  "Publish r key topic payload log =
     (let msg = \<lparr>msg_topic = topic, msg_key = key, msg_value = Doc payload\<rparr> in
      case r of
        Acked \<Rightarrow> (None, log @ [msg])
      | NotWritten m \<Rightarrow> (Some (Wrapf ''publish message to kafka: '' (Opaque m) ''''), log)
      | WrittenNoAck m \<Rightarrow> (Some (Wrapf ''publish message to kafka: '' (Opaque m) ''''), log @ [msg]))"

definition row_message :: "outbox_row \<Rightarrow> message" where
  "row_message r = \<lparr>msg_topic = ob_type r, msg_key = ob_aggregate r, msg_value = Doc (ob_payload r)\<rparr>"

section \<open>One tick of the worker\<close>

text \<open>
  The loop over the fetched records. The transaction \<open>tx\<close> is the database as the
  transaction sees it; the log of Kafka is written at once, whatever becomes of the transaction.
\<close>

fun publish_loop ::
  "(nat \<Rightarrow> publish_result) \<Rightarrow> (nat \<Rightarrow> OutboxRecord \<Rightarrow> 'tx \<Rightarrow> 's go_error + 'tx) \<Rightarrow> nat
   \<Rightarrow> OutboxRecord list \<Rightarrow> 'tx \<Rightarrow> message list \<Rightarrow> ('s go_error + 'tx) \<times> message list" where
  "publish_loop pub body k [] tx log = (Inr tx, log)"
| "publish_loop pub body k (rec # recs) tx log =
     (case Publish (pub k) (rec_AggregateID rec) (rec_EventType rec) (rec_Payload rec) log of
        (Some e, log') \<Rightarrow> (Inl e, log')
      | (None, log') \<Rightarrow>
          (case body k rec tx of
             Inl e \<Rightarrow> (Inl e, log')
           | Inr tx' \<Rightarrow> publish_loop pub body (Suc k) recs tx' log'))"

definition process_batch ::
  "db_faults \<Rightarrow> (string \<Rightarrow> bool) \<Rightarrow> (nat \<Rightarrow> publish_result) \<Rightarrow> nat \<Rightarrow> ('db \<Rightarrow> outbox_row list)
   \<Rightarrow> (nat \<Rightarrow> OutboxRecord \<Rightarrow> 'db \<Rightarrow> 's go_error + 'db) \<Rightarrow> 'db \<Rightarrow> message list
   \<Rightarrow> 's go_error option \<times> 'db \<times> message list" where
  "process_batch f locked pub batch outbox_of body db log =
     (case f_begin f of
        Some m \<Rightarrow> (Some (Opaque m), db, log)
      | None \<Rightarrow>
          (case fetch_pending f locked batch (outbox_of db) of
             Inl e \<Rightarrow> (Some e, db, log)
           | Inr recs \<Rightarrow>
               (case publish_loop pub body 0 recs db log of
                  (Inl e, log') \<Rightarrow> (Some e, db, log')
                | (Inr tx, log') \<Rightarrow>
                    (case commit (f_commit f) db tx of (r, db') \<Rightarrow> (r, db', log')))))"

text \<open>
  \<open>Run\<close>: what the \<open>select\<close> receives, in order; a tick brings its surroundings with it. The
  error of a tick is logged and the loop goes on.
\<close>

datatype 'e worker_event = CtxDone | Tick 'e

fun run_worker :: "('e \<Rightarrow> 'st \<Rightarrow> 's go_error option \<times> 'st) \<Rightarrow> 'e worker_event list \<Rightarrow> 'st \<Rightarrow> 'st" where
  "run_worker tick [] st = st"
| "run_worker tick (CtxDone # evs) st = st"
| "run_worker tick (Tick e # evs) st = run_worker tick evs (snd (tick e st))"

record tick_env =
  te_faults :: db_faults
  te_metric :: "string option"
  te_locked :: "string \<Rightarrow> bool"
  te_publish :: "nat \<Rightarrow> publish_result"
  te_now :: "nat \<Rightarrow> gotime"

definition quiet_tick :: "(nat \<Rightarrow> gotime) \<Rightarrow> tick_env" where
  "quiet_tick tm = \<lparr>te_faults = no_faults, te_metric = None, te_locked = (\<lambda>_. False),
     te_publish = (\<lambda>_. Acked), te_now = tm\<rparr>"

lemma run_worker_inv:
  assumes "\<And>e st. P st \<Longrightarrow> P (snd (tick e st))"
  shows "P st \<Longrightarrow> P (run_worker tick evs st)"
  using assms by (induction tick evs st rule: run_worker.induct) auto

lemma run_worker_ticks:
  "run_worker tick (map Tick es @ evs) st = run_worker tick evs (run_worker tick (map Tick es) st)"
  by (induction es arbitrary: st) auto

section \<open>Lemmas on the table and the query\<close>

lemma scan_rows_no_fault [simp]: "scan_rows (\<lambda>_. None) k rs = Inr rs"
  by (induction rs arbitrary: k) auto

lemma scan_rows_Inr: "scan_rows scan k rs = Inr xs \<Longrightarrow> xs = rs"
  by (induction rs arbitrary: k xs) (auto split: option.splits sum.splits)

lemma scan_rows_Inl: "scan_rows scan k rs = Inl e \<Longrightarrow> \<exists>m. e = Opaque m"
  by (induction rs arbitrary: k) (auto split: option.splits sum.splits)

lemma ob_id_mark_sent [simp]: "map ob_id (mark_sent now rid t) = map ob_id t"
  unfolding mark_sent_def by (rule map_key_update_where) simp

lemma row_message_mark_sent [simp]:
  "map row_message (mark_sent now rid t) = map row_message t"
  unfolding mark_sent_def by (rule map_key_update_where) (simp add: row_message_def)

lemma set_pending_batch:
  "r \<in> set (pending_batch locked batch t) \<Longrightarrow> r \<in> set t \<and> ob_status r = PENDING"
  by (auto simp: pending_batch_def pending_def dest: in_set_takeD)

lemma length_pending_mark_sent:
  assumes "distinct (map ob_id t)" and "r \<in> set t" and "ob_status r = PENDING"
  shows "length (pending (mark_sent now (ob_id r) t)) = length (pending t) - 1
    \<and> 0 < length (pending t)"
  using assms
proof (induction t)
  case (Cons x t)
  show ?case
  proof (cases "ob_id x = ob_id r")
    case True
    with Cons.prems have "x = r" by auto
    moreover have "mark_sent now (ob_id r) t = t"
      unfolding mark_sent_def
      by (rule update_where_id) (use True Cons.prems(1) in \<open>auto simp: rev_image_eqI\<close>)
    ultimately show ?thesis
      using Cons.prems(3) by (simp add: mark_sent_def update_where_Cons pending_def)
  next
    case False
    with Cons.prems have "r \<in> set t" by auto
    with Cons False show ?thesis
      by (auto simp: mark_sent_def update_where_Cons pending_def)
  qed
qed simp

text \<open>Marking the records \<open>ids\<close>, in turn, at the times the worker reads.\<close>

fun mark_all :: "(nat \<Rightarrow> gotime) \<Rightarrow> nat \<Rightarrow> string list \<Rightarrow> outbox_row list \<Rightarrow> outbox_row list" where
  "mark_all now k [] t = t"
| "mark_all now k (rid # ids) t = mark_all now (Suc k) ids (mark_sent (now k) rid t)"

lemma ob_id_mark_all [simp]: "map ob_id (mark_all now k ids t) = map ob_id t"
  by (induction ids arbitrary: k t) auto

lemma mark_all_row:
  "r \<in> set (mark_all now k ids t) \<Longrightarrow>
   \<exists>r0 \<in> set t. ob_id r = ob_id r0 \<and> row_message r = row_message r0 \<and> ob_created r = ob_created r0
     \<and> ob_status r = (if ob_id r0 \<in> set ids then SENT else ob_status r0)"
proof (induction ids arbitrary: k t)
  case (Cons rid ids)
  then obtain r1 where r1: "r1 \<in> set (mark_sent (now k) rid t)" "ob_id r = ob_id r1"
    "row_message r = row_message r1" "ob_created r = ob_created r1"
    "ob_status r = (if ob_id r1 \<in> set ids then SENT else ob_status r1)"
    by auto
  from r1(1) obtain r0 where r0: "r0 \<in> set t"
    "r1 = (if ob_id r0 = rid then r0\<lparr>ob_status := SENT, ob_sent := Some (now k)\<rparr> else r0)"
    by (auto simp: mark_sent_def update_where_def)
  then have "ob_id r = ob_id r0 \<and> row_message r = row_message r0 \<and> ob_created r = ob_created r0
     \<and> ob_status r = (if ob_id r0 \<in> set (rid # ids) then SENT else ob_status r0)"
    using r1(2-5) by (auto simp: row_message_def split: if_splits)
  with r0(1) show ?case by blast
qed auto

lemma length_pending_mark_all:
  assumes "distinct (map ob_id t)" and "distinct ids"
    and "\<And>rid. rid \<in> set ids \<Longrightarrow> \<exists>r \<in> set t. ob_id r = rid \<and> ob_status r = PENDING"
  shows "length (pending (mark_all now k ids t)) = length (pending t) - length ids"
  using assms
proof (induction ids arbitrary: k t)
  case (Cons rid ids)
  obtain r where r: "r \<in> set t" "ob_id r = rid" "ob_status r = PENDING"
    using Cons.prems(3) by auto
  let ?t = "mark_sent (now k) rid t"
  have "\<exists>r' \<in> set ?t. ob_id r' = rid' \<and> ob_status r' = PENDING" if "rid' \<in> set ids" for rid'
  proof -
    from that Cons.prems(2,3) obtain r' where "r' \<in> set t" "ob_id r' = rid'" "ob_status r' = PENDING"
      and "rid' \<noteq> rid" by auto
    then show ?thesis by (force simp: mark_sent_def update_where_def)
  qed
  then have "length (pending (mark_all now (Suc k) ids ?t)) = length (pending ?t) - length ids"
    using Cons.prems(1,2) by (intro Cons.IH) auto
  then show ?case
    using length_pending_mark_sent [OF Cons.prems(1) r(1) r(3)] r(2) by simp
qed simp

lemma pending_mark_all_le: "length (pending (mark_all now k ids t)) \<le> length (pending t)"
proof (induction ids arbitrary: k t)
  case (Cons rid ids)
  have "length (pending (mark_sent now rid t)) \<le> length (pending t)" for now
    by (induction t) (auto simp: mark_sent_def update_where_Cons pending_def)
  with Cons.IH show ?case by (fastforce intro: order_trans)
qed simp

lemma distinct_pending_batch:
  assumes "distinct (map ob_id t)"
  shows "distinct (map ob_id (pending_batch locked batch t))"
proof -
  have "distinct (map ob_id (sort_key ob_created (filter (\<lambda>r. \<not> locked (ob_id r)) (pending t))))"
    using assms by (auto simp: distinct_map pending_def inj_on_def)
  then show ?thesis by (simp add: pending_batch_def take_map [symmetric])
qed

section \<open>What a worker guarantees\<close>

text \<open>At least once: nothing is marked as sent that was not written to Kafka.\<close>

definition sent_published :: "outbox_row list \<Rightarrow> message list \<Rightarrow> bool" where
  "sent_published t log \<longleftrightarrow> (\<forall>r \<in> set t. ob_status r = SENT \<longrightarrow> row_message r \<in> set log)"

lemma Publish_None: "Publish r key topic payload log = (None, log') \<Longrightarrow>
    log' = log @ [\<lparr>msg_topic = topic, msg_key = key, msg_value = Doc payload\<rparr>]"
  by (cases r) (auto simp: Publish_def Let_def)

lemma Publish_extends: "Publish r key topic payload log = (e, log') \<Longrightarrow> \<exists>new. log' = log @ new"
  by (cases r) (auto simp: Publish_def Let_def)

lemma record_message [simp]:
  "\<lparr>msg_topic = rec_EventType (outbox_record r), msg_key = rec_AggregateID (outbox_record r),
    msg_value = Doc (rec_Payload (outbox_record r))\<rparr> = row_message r"
  "rec_ID (outbox_record r) = ob_id r"
  by (simp_all add: outbox_record_def row_message_def)

locale outbox_worker =
  fixes outbox_of :: "'db \<Rightarrow> outbox_row list"
    and now :: "nat \<Rightarrow> gotime"
    and body :: "nat \<Rightarrow> OutboxRecord \<Rightarrow> 'db \<Rightarrow> 's go_error + 'db"
  assumes body_marks:
    "body k rec tx = Inr tx' \<Longrightarrow> outbox_of tx' = mark_sent (now k) (rec_ID rec) (outbox_of tx)"
begin

lemma loop_ok:
  assumes "publish_loop pub body k (map outbox_record rs) tx log = (Inr tx', log')"
  shows "log' = log @ map row_message rs \<and> outbox_of tx' = mark_all now k (map ob_id rs) (outbox_of tx)"
  using assms
proof (induction rs arbitrary: k tx log)
  case (Cons r rs)
  from Cons.prems obtain tx1 log1 where
    "Publish (pub k) (rec_AggregateID (outbox_record r)) (rec_EventType (outbox_record r))
       (rec_Payload (outbox_record r)) log = (None :: 's go_error option, log1)"
    and b: "body k (outbox_record r) tx = Inr tx1"
    and rest: "publish_loop pub body (Suc k) (map outbox_record rs) tx1 log1 = (Inr tx', log')"
    by (auto split: prod.splits option.splits sum.splits)
  then have "log1 = log @ [row_message r]" by (auto dest: Publish_None)
  with Cons.IH [OF rest] body_marks [OF b] show ?case by simp
qed simp

lemma loop_extends:
  "publish_loop pub body k recs tx log = (res, log') \<Longrightarrow> \<exists>new. log' = log @ new"
proof (induction recs arbitrary: k tx log)
  case (Cons rec recs)
  then show ?case
    by (fastforce split: prod.splits option.splits sum.splits dest: Publish_extends)
qed simp

text \<open>Whatever a tick writes to Kafka is the message of some row.\<close>

lemma loop_log:
  "publish_loop pub body k (map outbox_record rs) tx log = (res, log') \<Longrightarrow>
   set log' \<subseteq> set log \<union> row_message ` set rs"
proof (induction rs arbitrary: k tx log)
  case (Cons r rs)
  obtain p log1 where pub: "Publish (pub k) (rec_AggregateID (outbox_record r)) (rec_EventType (outbox_record r))
      (rec_Payload (outbox_record r)) log = (p :: 's go_error option, log1)" by fastforce
  have log1: "set log1 \<subseteq> insert (row_message r) (set log)"
    using pub by (cases "pub k") (auto simp: Publish_def Let_def)
  consider "log' = log1" | tx1 where "publish_loop pub body (Suc k) (map outbox_record rs) tx1 log1 = (res, log')"
    using Cons.prems pub by (cases p; cases "body k (outbox_record r) tx") auto
  then show ?case
  proof cases
    case 2
    from Cons.IH [OF this] log1 show ?thesis by auto
  qed (use log1 in auto)
qed simp

lemma tick_log:
  assumes "process_batch f locked pub batch outbox_of body db log = (res, db', log')"
  shows "set log' \<subseteq> set log \<union> row_message ` set (outbox_of db)"
proof -
  consider "log' = log" | recs lres where
    "(fetch_pending f locked batch (outbox_of db) :: 's go_error + OutboxRecord list) = Inr recs"
    "publish_loop pub body 0 recs db log = (lres, log')"
    using assms by (auto simp: process_batch_def split: option.splits sum.splits prod.splits)
  then show ?thesis
  proof cases
    case 2
    then obtain rs where rs: "recs = map outbox_record rs"
      "rs = delivered (f_rows f) (pending_batch locked batch (outbox_of db))"
      by (auto simp: fetch_pending_def split: option.splits sum.splits dest: scan_rows_Inr)
    have "set rs \<subseteq> set (outbox_of db)"
      unfolding rs(2) using set_delivered set_pending_batch by fastforce
    with loop_log [OF 2(2) [unfolded rs(1)]] show ?thesis by blast
  qed simp
qed

text \<open>The two ways a tick can leave the database: untouched, or with one batch sent.\<close>

lemma tick_cases:
  assumes "process_batch f locked pub batch outbox_of body db log = (res, db', log')"
  obtains (unchanged) new where "db' = db" "log' = log @ new" "res \<noteq> None"
  | (sent) rs where "rs = delivered (f_rows f) (pending_batch locked batch (outbox_of db))"
      "publish_loop pub body 0 (map outbox_record rs) db log = (Inr db', log')"
      "log' = log @ map row_message rs"
      "outbox_of db' = mark_all now 0 (map ob_id rs) (outbox_of db)"
proof -
  consider (early) "db' = db" "log' = log" "res \<noteq> None"
    | (loop) recs lres where
        "(fetch_pending f locked batch (outbox_of db) :: 's go_error + OutboxRecord list) = Inr recs"
        "publish_loop pub body 0 recs db log = (lres, log')"
        "case lres of Inl e \<Rightarrow> res = Some e \<and> db' = db | Inr tx \<Rightarrow> commit (f_commit f) db tx = (res, db')"
  proof (cases "f_begin f")
    case begun: None
    show thesis
    proof (cases "fetch_pending f locked batch (outbox_of db) :: 's go_error + OutboxRecord list")
      case (Inl e)
      with begun assms have "db' = db \<and> log' = log \<and> res = Some e" by (simp add: process_batch_def)
      with that(1) show thesis by simp
    next
      case (Inr recs)
      obtain lres log1 where l: "publish_loop pub body 0 recs db log = (lres, log1)" by fastforce
      show thesis
        by (rule that(2) [OF Inr, of lres])
          (use begun Inr l assms in \<open>auto simp: process_batch_def split: sum.splits prod.splits\<close>)
    qed
  qed (use assms that(1) in \<open>auto simp: process_batch_def\<close>)
  then show thesis
  proof cases
    case early
    then show thesis using unchanged [of "[]"] by simp
  next
    case loop
    obtain rs where rs: "recs = map outbox_record rs"
      "rs = delivered (f_rows f) (pending_batch locked batch (outbox_of db))"
      using loop(1) by (auto simp: fetch_pending_def split: option.splits sum.splits dest: scan_rows_Inr)
    obtain new where new: "log' = log @ new" using loop_extends [OF loop(2)] by blast
    show thesis
    proof (cases lres)
      case (Inl e)
      with loop(3) new unchanged show thesis by simp
    next
      case (Inr tx)
      with loop(3) have c: "commit (f_commit f) db tx = (res, db')" by simp
      show thesis
      proof (cases "db' = tx")
        case True
        with loop(2) rs Inr loop_ok [of pub 0 rs db log tx log'] show thesis
          by (intro sent) auto
      next
        case False
        with c commit_atomic [OF c] commit_None [of "f_commit f" db tx db'] have "db' = db" "res \<noteq> None"
          by (cases res; auto)+
        with new unchanged show thesis by simp
      qed
    qed
  qed
qed

lemma tick_sent_published:
  assumes "process_batch f locked pub batch outbox_of body db log = (res, db', log')"
    and "sent_published (outbox_of db) log"
    and "distinct (map ob_id (outbox_of db))"
  shows "sent_published (outbox_of db') log'"
  using assms(1)
proof (cases rule: tick_cases)
  case (unchanged new)
  with assms(2) show ?thesis by (auto simp: sent_published_def)
next
  case (sent rs)
  show ?thesis
    unfolding sent_published_def
  proof (intro ballI impI)
    fix r assume "r \<in> set (outbox_of db')" and sent_r: "ob_status r = SENT"
    then obtain r0 where r0: "r0 \<in> set (outbox_of db)" "ob_id r = ob_id r0"
      "row_message r = row_message r0"
      "ob_status r = (if ob_id r0 \<in> ob_id ` set rs then SENT else ob_status r0)"
      using sent(4) by (auto dest: mark_all_row)
    show "row_message r \<in> set log'"
    proof (cases "ob_id r0 \<in> ob_id ` set rs")
      case True
      then obtain r1 where r1: "r1 \<in> set rs" "ob_id r1 = ob_id r0" by auto
      then have "r1 \<in> set (outbox_of db)"
        using sent(1) set_delivered [THEN subsetD] set_pending_batch by fastforce
      with r0(1) r1 assms(3) have "r1 = r0" by (auto simp: distinct_map dest: inj_onD)
      with r1(1) r0(3) sent(3) show ?thesis by simp
    next
      case False
      with r0 sent_r assms(2) sent(3) show ?thesis by (simp add: sent_published_def)
    qed
  qed
qed

lemma tick_ids:
  assumes "process_batch f locked pub batch outbox_of body db log = (res, db', log')"
  shows "map ob_id (outbox_of db') = map ob_id (outbox_of db)"
  using assms by (cases rule: tick_cases) auto

lemma tick_pending_le:
  assumes "process_batch f locked pub batch outbox_of body db log = (res, db', log')"
  shows "length (pending (outbox_of db')) \<le> length (pending (outbox_of db))"
  using assms by (cases rule: tick_cases) (auto simp: pending_mark_all_le)

text \<open>A tick changes no row but its status and its time.\<close>

lemma tick_rows:
  assumes "process_batch f locked pub batch outbox_of body db log = (res, db', log')"
  shows "map row_message (outbox_of db') = map row_message (outbox_of db)"
proof -
  have "map row_message (mark_all now k ids t) = map row_message t" for k ids t
    by (induction ids arbitrary: k t) auto
  with assms show ?thesis by (cases rule: tick_cases) auto
qed

lemma tick_log_sound:
  assumes "process_batch f locked pub batch outbox_of body db log = (res, db', log')"
    and "set log \<subseteq> row_message ` set (outbox_of db)"
  shows "set log' \<subseteq> row_message ` set (outbox_of db')"
proof -
  have "row_message ` set (outbox_of db') = row_message ` set (outbox_of db)"
    using tick_rows [OF assms(1)] by (metis set_map)
  with tick_log [OF assms(1)] assms(2) show ?thesis by blast
qed

lemma tick_error_atomic:
  assumes "process_batch f locked pub batch outbox_of body db log = (Some e, db', log')"
    and "\<forall>m. f_commit f \<noteq> CommitUnknown m"
  shows "db' = db"
  using assms
  by (cases "f_commit f")
    (auto simp: process_batch_def split: option.splits sum.splits prod.splits)

end

text \<open>
  A body that cannot fail: with it, a tick without failures sends exactly one batch, and repeated
  ticks drain the table.
\<close>

locale reliable_outbox_worker = outbox_worker +
  assumes body_succeeds: "\<exists>tx'. body k rec tx = Inr tx'"
begin

lemma loop_acked:
  assumes "\<forall>k. pub k = Acked"
  shows "\<exists>tx' log'. publish_loop pub body k recs tx log = (Inr tx', log')"
proof (induction recs arbitrary: k tx log)
  case (Cons rec recs)
  obtain tx1 where "body k rec tx = Inr tx1" using body_succeeds by blast
  with assms Cons.IH show ?case by (simp add: Publish_def)
qed simp

lemma tick_no_faults:
  assumes "\<forall>k. pub k = Acked"
  shows "\<exists>db'. process_batch no_faults locked pub batch outbox_of body db log
      = (None, db', log @ map row_message (pending_batch locked batch (outbox_of db)))
    \<and> outbox_of db' = mark_all now 0 (map ob_id (pending_batch locked batch (outbox_of db))) (outbox_of db)"
proof -
  let ?rs = "pending_batch locked batch (outbox_of db)"
  obtain tx' log' where l: "publish_loop pub body 0 (map outbox_record ?rs) db log = (Inr tx', log')"
    using loop_acked [OF assms] by blast
  show ?thesis
    using loop_ok [OF l] l by (simp add: process_batch_def fetch_pending_def)
qed

lemma tick_drains:
  assumes "\<forall>k. pub k = Acked" and "distinct (map ob_id (outbox_of db))"
    and "process_batch no_faults (\<lambda>_. False) pub batch outbox_of body db log = (res, db', log')"
  shows "length (pending (outbox_of db')) = length (pending (outbox_of db)) - batch"
proof -
  let ?rs = "pending_batch (\<lambda>_. False) batch (outbox_of db)"
  obtain db1 where db1: "(res, db', log') = (None, db1, log @ map row_message ?rs)"
    "outbox_of db1 = mark_all now 0 (map ob_id ?rs) (outbox_of db)"
    using tick_no_faults [OF assms(1), of "\<lambda>_. False" batch db log] assms(3) by metis
  have "length (pending (mark_all now 0 (map ob_id ?rs) (outbox_of db)))
      = length (pending (outbox_of db)) - length (map ob_id ?rs)"
    by (rule length_pending_mark_all)
      (use assms(2) distinct_pending_batch in \<open>auto dest: set_pending_batch\<close>)
  then show ?thesis
    using db1 by (simp add: pending_batch_def)
qed

end

end
