(* ===== verification/Order_Store.thy ===== *)
theory Order_Store
  imports Order_Cursor Outbox_Worker
begin

text \<open>
  The database of order-service and the operations on it:
  \<open>internal/repository/postgres/order_repo.go\<close> over the tables of
  \<open>migrations/000001_init.up.sql\<close> and \<open>000002_outbox.up.sql\<close>, and the statements the
  outbox worker of \<open>internal/outbox/worker.go\<close> runs on the same tables.

  Ids are canonical UUID texts (as \<open>uuid.NewString\<close> and the request validation produce
  them), so that equality and order of \<open>UUID\<close> columns are those of the texts. Of what the
  columns reject, the primary key of \<open>orders\<close> and the 32 bits of \<open>quantity\<close> are modelled; a text
  longer than its column is one of the ways a statement can fail in \<open>db_faults\<close>.
\<close>

section \<open>Error texts (UTF-8)\<close>

definition msg_not_found :: string where
  "msg_not_found = utf8 [208, 151, 208, 176, 208, 186, 208, 176, 208, 183, 32, 208, 189, 208, 181, 32, 208, 189,
     208, 176, 208, 185, 208, 180, 208, 181, 208, 189, 58, 32]"

definition msg_scan_order :: string where
  "msg_scan_order = utf8 [208, 161, 208, 186, 208, 176, 208, 189, 208, 184, 209, 128, 208, 190, 208, 178, 208,
     176, 208, 189, 208, 184, 208, 181, 32, 208, 183, 208, 176, 208, 186, 208, 176, 208, 183,
     208, 176, 58, 32]"

definition msg_query_items :: string where
  "msg_query_items = utf8 [208, 151, 208, 176, 208, 191, 209, 128, 208, 190, 209, 129, 32, 208, 189, 208, 176, 32,
     209, 130, 208, 190, 208, 178, 208, 176, 209, 128, 209, 139, 32, 208, 184, 208, 183, 32,
     208, 183, 208, 176, 208, 186, 208, 176, 208, 183, 208, 176, 58, 32]"

definition msg_scan_items :: string where
  "msg_scan_items = utf8 [208, 161, 208, 186, 208, 176, 208, 189, 208, 184, 209, 128, 208, 190, 208, 178, 208,
     176, 208, 189, 208, 184, 208, 181, 32, 209, 130, 208, 190, 208, 178, 208, 176, 209, 128,
     208, 190, 208, 178, 58, 32]"

definition msg_decode_cursor :: string where
  "msg_decode_cursor = utf8 [208, 148, 208, 181, 208, 186, 208, 190, 208, 180, 208, 184, 209, 128, 208, 190, 208,
     178, 208, 176, 208, 189, 208, 184, 208, 181, 32, 208, 186, 209, 131, 209, 128, 209, 129,
     208, 190, 209, 128, 208, 176, 58, 32]"

definition msg_query_orders :: string where
  "msg_query_orders = utf8 [208, 151, 208, 176, 208, 191, 209, 128, 208, 190, 209, 129, 32, 208, 183, 208, 176, 208,
     186, 208, 176, 208, 183, 208, 190, 208, 178, 58, 32]"

section \<open>Tables\<close>

record order_row =
  or_id :: string
  or_customer_id :: string
  or_total_amount :: int64
  or_currency :: string
  or_status :: OrderStatus
  or_version :: int
  or_created_at :: gotime
  or_updated_at :: gotime

record item_row =
  ir_order_id :: string
  ir_sku :: string
  ir_name :: string
  ir_price :: int64
  ir_currency :: string
  ir_quantity :: int64

record order_db =
  orders :: "order_row list"
  order_items :: "item_row list"
  order_outbox :: "outbox_row list"

definition empty_order_db :: order_db where
  "empty_order_db = \<lparr>orders = [], order_items = [], order_outbox = []\<rparr>"

text \<open>A \<open>TIMESTAMPTZ\<close> column keeps microseconds; the driver cuts off the rest.\<close>

definition timestamptz :: "gotime \<Rightarrow> gotime" where
  "timestamptz t = GoTime (t_year t) (t_month t) (t_day t) (t_hour t) (t_min t) (t_sec t)
     (t_nsec t div 1000 * 1000)"

definition order_to_row :: "Order \<Rightarrow> order_row" where
  "order_to_row ord = \<lparr>or_id = ID ord, or_customer_id = CustomerID ord,
     or_total_amount = Amount (TotalCost ord), or_currency = Currency (TotalCost ord),
     or_status = Status ord, or_version = Version ord,
     or_created_at = timestamptz (CreatedAt ord), or_updated_at = timestamptz (UpdatedAt ord)\<rparr>"

definition item_to_row :: "string \<Rightarrow> OrderItem \<Rightarrow> item_row" where
  "item_to_row oid item = \<lparr>ir_order_id = oid, ir_sku = SKU item, ir_name = Name item,
     ir_price = Amount (Price item), ir_currency = Currency (Price item),
     ir_quantity = Quantity item\<rparr>"

definition row_to_item :: "item_row \<Rightarrow> OrderItem" where
  "row_to_item r = \<lparr>SKU = ir_sku r, Name = ir_name r,
     Price = \<lparr>Amount = ir_price r, Currency = ir_currency r\<rparr>, Quantity = ir_quantity r\<rparr>"

text \<open>The scan of an order row; \<open>Items\<close> are what the caller appends.\<close>

definition row_to_order :: "order_row \<Rightarrow> OrderItem list \<Rightarrow> Order" where
  "row_to_order r items = \<lparr>ID = or_id r, CustomerID = or_customer_id r, Items = items,
     TotalCost = \<lparr>Amount = or_total_amount r, Currency = or_currency r\<rparr>, Status = or_status r,
     Version = or_version r, CreatedAt = or_created_at r, UpdatedAt = or_updated_at r\<rparr>"

section \<open>Statements\<close>

definition exec_insert_order :: "db_faults \<Rightarrow> nat \<Rightarrow> Order \<Rightarrow> order_db \<Rightarrow> order_error + order_db" where
  "exec_insert_order f k ord tx =
     (case f_exec f k of
        Some m \<Rightarrow> Inl (Opaque m)
      | None \<Rightarrow>
          if has_key or_id (ID ord) (orders tx)
          then Inl (Opaque ''duplicate key value violates unique constraint'')
          else Inr (tx\<lparr>orders := orders tx @ [order_to_row ord]\<rparr>))"

text \<open>
  The batch of item inserts; \<open>br.Exec\<close> in turn for each item. The column \<open>quantity\<close> is \<open>INT\<close>:
  a Go \<open>int\<close> beyond 32 bits is refused.
\<close>

fun exec_insert_items ::
  "db_faults \<Rightarrow> nat \<Rightarrow> string \<Rightarrow> OrderItem list \<Rightarrow> order_db \<Rightarrow> order_error + order_db" where
  "exec_insert_items f k oid [] tx = Inr tx"
| "exec_insert_items f k oid (item # items) tx =
     (case f_exec f k of
        Some m \<Rightarrow> Inl (Opaque m)
      | None \<Rightarrow>
          if int4_range (sint (Quantity item))
          then exec_insert_items f (Suc k) oid items
                 (tx\<lparr>order_items := order_items tx @ [item_to_row oid item]\<rparr>)
          else Inl (Opaque ''quantity is out of range for type integer''))"

definition exec_insert_outbox ::
  "db_faults \<Rightarrow> nat \<Rightarrow> string \<Rightarrow> string \<Rightarrow> string \<Rightarrow> json \<Rightarrow> gotime \<Rightarrow> order_db \<Rightarrow> order_error + order_db" where
  "exec_insert_outbox f k rid aggregate type payload now tx =
     (case f_exec f k of
        Some m \<Rightarrow> Inl (Opaque m)
      | None \<Rightarrow>
          Inr (tx\<lparr>order_outbox := order_outbox tx @ [new_outbox_row rid aggregate type payload now]\<rparr>))"

section \<open>The repository\<close>

text \<open>
  \<open>rid\<close> is the id the database generates for the outbox row, \<open>now\<close> what
  \<open>time.Now().UTC()\<close> reads. The deferred rollback of every early return leaves \<open>db\<close>.
\<close>

definition SaveWithEvent ::
  "db_faults \<Rightarrow> string \<Rightarrow> gotime \<Rightarrow> Order \<Rightarrow> string \<Rightarrow> json \<Rightarrow> order_db \<Rightarrow> order_error option \<times> order_db" where
  "SaveWithEvent f rid now ord eventType payload db =
     (case f_begin f of
        Some m \<Rightarrow> (Some (Wrapf ''begin tx: '' (Opaque m) ''''), db)
      | None \<Rightarrow>
     (case exec_insert_order f 0 ord db of
        Inl e \<Rightarrow> (Some (Wrapf ''insert order: '' e ''''), db)
      | Inr tx1 \<Rightarrow>
     (case exec_insert_items f 1 (ID ord) (Items ord) tx1 of
        Inl e \<Rightarrow> (Some (Wrapf ''insert order item: '' e ''''), db)
      | Inr tx2 \<Rightarrow>
     (case f_close f of
        Some m \<Rightarrow> (Some (Wrapf ''close batch: '' (Opaque m) ''''), db)
      | None \<Rightarrow>
     (case exec_insert_outbox f (1 + length (Items ord)) rid (ID ord) eventType payload now tx2 of
        Inl e \<Rightarrow> (Some (Wrapf ''insert outbox event: '' e ''''), db)
      | Inr tx3 \<Rightarrow>
     (case commit (f_commit f) db tx3 of
        (Some e, db') \<Rightarrow> (Some (Wrapf ''commit tx: '' e ''''), db')
      | (None, db') \<Rightarrow> (None, db')))))))"

definition items_of :: "string \<Rightarrow> order_db \<Rightarrow> item_row list" where
  "items_of oid db = filter (\<lambda>r. ir_order_id r = oid) (order_items db)"

text \<open>
  The items come in no particular order (the query has no \<open>ORDER BY\<close>); the model lists them as
  they were inserted, and the theorems speak of their multiset.
\<close>

definition GetByID :: "db_faults \<Rightarrow> string \<Rightarrow> order_db \<Rightarrow> order_error + Order" where
  "GetByID f oid db =
     (case f_exec f 0 of
        Some m \<Rightarrow> Inl (Wrapf msg_scan_order (Opaque m) '''')
      | None \<Rightarrow>
     (case find_row or_id oid (orders db) of
        None \<Rightarrow> Inl (Wrapf msg_not_found (Sentinel ErrNoRows) '''')
      | Some row \<Rightarrow>
     (case f_exec f 1 of
        Some m \<Rightarrow> Inl (Wrapf msg_query_items (Opaque m) '''')
      | None \<Rightarrow>
     (case scan_rows (f_scan f) 0 (delivered (f_rows f) (items_of oid db)) of
        Inl e \<Rightarrow> Inl (Wrapf msg_scan_items e '''')
      | Inr rows \<Rightarrow> Inr (row_to_order row (map row_to_item rows))))))"

text \<open>The row the optimistic lock selects, and what the update makes of it.\<close>

definition locked_row :: "Order \<Rightarrow> order_row \<Rightarrow> bool" where
  "locked_row ord r \<longleftrightarrow> or_id r = ID ord \<and> or_version r = Version ord"

definition set_status :: "OrderStatus \<Rightarrow> gotime \<Rightarrow> order_row \<Rightarrow> order_row" where
  "set_status st now r = r\<lparr>or_status := st, or_version := or_version r + 1, or_updated_at := timestamptz now\<rparr>"

definition UpdateStatusWithEvent ::
  "db_faults \<Rightarrow> string \<Rightarrow> (nat \<Rightarrow> gotime) \<Rightarrow> Order \<Rightarrow> string \<Rightarrow> json \<Rightarrow> order_db
   \<Rightarrow> order_error option \<times> order_db" where
  "UpdateStatusWithEvent f rid now ord eventType payload db =
     (case f_begin f of
        Some m \<Rightarrow> (Some (Wrapf ''begin tx: '' (Opaque m) ''''), db)
      | None \<Rightarrow>
     (case f_exec f 0 of
        Some m \<Rightarrow> (Some (Wrapf ''update order status: '' (Opaque m) ''''), db)
      | None \<Rightarrow>
     (if rows_affected (locked_row ord) (orders db) = 0
      then (Some (Sentinel ErrOptimisticLock), db)
      else
     (let tx1 = db\<lparr>orders := update_where (locked_row ord) (set_status (Status ord) (now 0)) (orders db)\<rparr> in
      case exec_insert_outbox f 1 rid (ID ord) eventType payload (now 1) tx1 of
        Inl e \<Rightarrow> (Some (Wrapf ''insert outbox event: '' e ''''), db)
      | Inr tx2 \<Rightarrow> commit (f_commit f) db tx2))))"

section \<open>Pagination\<close>

definition page_key :: "order_row \<Rightarrow> gotime \<times> string" where
  "page_key r = (or_created_at r, or_id r)"

text \<open>\<open>ORDER BY created_at DESC, id DESC\<close>.\<close>

definition newest_first :: "order_row list \<Rightarrow> order_row list" where
  "newest_first rs = rev (sort_key page_key rs)"

definition customer_rows :: "string \<Rightarrow> order_db \<Rightarrow> order_row list" where
  "customer_rows cust db = filter (\<lambda>r. or_customer_id r = cust) (orders db)"

text \<open>
  The two queries of \<open>ListByCustomer\<close>, with \<open>after\<close> the decoded cursor. A negative
  \<open>LIMIT\<close> is refused by the database.
\<close>

definition select_page ::
  "db_faults \<Rightarrow> string \<Rightarrow> (gotime \<times> string) option \<Rightarrow> int \<Rightarrow> order_db \<Rightarrow> order_error + order_row list" where
  "select_page f cust after limit db =
     (case f_exec f 0 of
        Some m \<Rightarrow> Inl (Opaque m)
      | None \<Rightarrow>
          if limit < 0 then Inl (Opaque ''LIMIT must not be negative'')
          else Inr (take (nat limit) (newest_first
                 (filter (\<lambda>r. case after of None \<Rightarrow> True | Some k \<Rightarrow> page_key r < k)
                   (customer_rows cust db)))))"

definition ListByCustomer ::
  "(gotime \<Rightarrow> string) \<Rightarrow> (string \<Rightarrow> gotime option) \<Rightarrow> db_faults \<Rightarrow> string \<Rightarrow> string \<Rightarrow> int \<Rightarrow> order_db
   \<Rightarrow> (order_error + Order list \<times> string) call" where
  "ListByCustomer fmt parse f cust cursor limit db =
     (case (if cursor = [] then Inr None
            else (case decodeCursor parse cursor of
                    Inl e \<Rightarrow> Inl (Wrapf msg_decode_cursor e '''')
                  | Inr k \<Rightarrow> Inr (Some k))) of
        Inl e \<Rightarrow> Returns (Inl e)
      | Inr after \<Rightarrow>
     (case select_page f cust after limit db of
        Inl e \<Rightarrow> Returns (Inl (Wrapf msg_query_orders e ''''))
      | Inr rows \<Rightarrow>
     (case scan_rows (f_scan f) 0 (delivered (f_rows f) rows) of
        Inl e \<Rightarrow> Returns (Inl (Wrapf ''scan order: '' e ''''))
      | Inr got \<Rightarrow>
          (let page = map (\<lambda>r. row_to_order r []) got in
           if int (length page) = limit
           then (if page = [] then Panics
                 else Returns (Inr (page, encodeCursor fmt (CreatedAt (last page)) (ID (last page)))))
           else Returns (Inr (page, []))))))"

section \<open>The worker's statements\<close>

text \<open>\<open>transitionToAwaitingStockTx\<close>; statement \<open>k\<close> of the transaction.\<close>

definition transitionToAwaitingStockTx ::
  "db_faults \<Rightarrow> nat \<Rightarrow> gotime \<Rightarrow> string \<Rightarrow> order_db \<Rightarrow> order_error + order_db" where
  "transitionToAwaitingStockTx f k now oid tx =
     (case f_exec f k of
        Some m \<Rightarrow> Inl (Opaque m)
      | None \<Rightarrow>
          Inr (tx\<lparr>orders := update_where (\<lambda>r. or_id r = oid \<and> or_status r = StatusCreated)
                  (set_status StatusAwaitingStock now) (orders tx)\<rparr>))"

definition markSentTx :: "db_faults \<Rightarrow> nat \<Rightarrow> gotime \<Rightarrow> string \<Rightarrow> order_db \<Rightarrow> order_error + order_db" where
  "markSentTx f k now rid tx =
     (case f_exec f k of
        Some m \<Rightarrow> Inl (Opaque m)
      | None \<Rightarrow> Inr (tx\<lparr>order_outbox := mark_sent now rid (order_outbox tx)\<rparr>))"

text \<open>What the loop of \<open>processBatch\<close> does with a record once it is published.\<close>

definition order_worker_body ::
  "db_faults \<Rightarrow> (nat \<Rightarrow> gotime) \<Rightarrow> nat \<Rightarrow> OutboxRecord \<Rightarrow> order_db \<Rightarrow> order_error + order_db" where
  "order_worker_body f now k rec tx =
     (case markSentTx f (1 + 2 * k) (now k) (rec_ID rec) tx of
        Inl e \<Rightarrow> Inl e
      | Inr tx1 \<Rightarrow>
          if rec_EventType rec = EventTypeOrderCreated
          then transitionToAwaitingStockTx f (2 + 2 * k) (now k) (rec_AggregateID rec) tx1
          else Inr tx1)"

text \<open>\<open>updateBacklogMetric\<close>: the gauge after the query, unchanged when the query fails.\<close>

definition updateBacklogMetric :: "string option \<Rightarrow> order_db \<Rightarrow> nat \<Rightarrow> nat" where
  "updateBacklogMetric query_fails db gauge =
     (case query_fails of Some _ \<Rightarrow> gauge | None \<Rightarrow> length (pending (order_outbox db)))"

text \<open>
  \<open>processBatch\<close>: the tick of the generic worker with this body, and the metric after a
  successful commit. \<open>locked\<close>: the rows other workers hold; \<open>fq\<close>: whether the query
  of the metric fails.
\<close>

definition order_processBatch ::
  "db_faults \<Rightarrow> string option \<Rightarrow> (string \<Rightarrow> bool) \<Rightarrow> (nat \<Rightarrow> publish_result) \<Rightarrow> (nat \<Rightarrow> gotime) \<Rightarrow> nat
   \<Rightarrow> order_db \<Rightarrow> message list \<Rightarrow> nat \<Rightarrow> order_error option \<times> order_db \<times> message list \<times> nat" where
  "order_processBatch f fq locked pub now batch db log gauge =
     (case process_batch f locked pub batch order_outbox (order_worker_body f now) db log of
        (Some e, db', log') \<Rightarrow> (Some e, db', log', gauge)
      | (None, db', log') \<Rightarrow> (None, db', log', updateBacklogMetric fq db' gauge))"

section \<open>What the writes do\<close>

definition saved :: "string \<Rightarrow> gotime \<Rightarrow> Order \<Rightarrow> string \<Rightarrow> json \<Rightarrow> order_db \<Rightarrow> order_db" where
  "saved rid now ord eventType payload db =
     \<lparr>orders = orders db @ [order_to_row ord],
      order_items = order_items db @ map (item_to_row (ID ord)) (Items ord),
      order_outbox = order_outbox db @ [new_outbox_row rid (ID ord) eventType payload now]\<rparr>"

definition status_updated ::
  "string \<Rightarrow> (nat \<Rightarrow> gotime) \<Rightarrow> Order \<Rightarrow> string \<Rightarrow> json \<Rightarrow> order_db \<Rightarrow> order_db" where
  "status_updated rid now ord eventType payload db =
     db\<lparr>orders := update_where (locked_row ord) (set_status (Status ord) (now 0)) (orders db),
        order_outbox := order_outbox db @ [new_outbox_row rid (ID ord) eventType payload (now 1)]\<rparr>"

text \<open>The quantities a table of items can hold.\<close>

definition int4_quantities :: "OrderItem list \<Rightarrow> bool" where
  "int4_quantities items \<longleftrightarrow> list_all (\<lambda>it. int4_range (sint (Quantity it))) items"

lemma int4_quantities_simps [simp]:
  "int4_quantities []" "int4_quantities (it # items) \<longleftrightarrow> int4_range (sint (Quantity it)) \<and> int4_quantities items"
  by (simp_all add: int4_quantities_def)

lemma exec_insert_items_Inr:
  "exec_insert_items f k oid items tx = Inr tx' \<Longrightarrow>
   tx' = tx\<lparr>order_items := order_items tx @ map (item_to_row oid) items\<rparr> \<and> int4_quantities items"
  by (induction items arbitrary: k tx) (fastforce split: option.splits if_splits)+

lemma exec_insert_items_no_faults [simp]:
  "int4_quantities items \<Longrightarrow> exec_insert_items no_faults k oid items tx
   = Inr (tx\<lparr>order_items := order_items tx @ map (item_to_row oid) items\<rparr>)"
  by (induction items arbitrary: k tx) auto

lemma SaveWithEvent_cases:
  assumes "SaveWithEvent f rid now ord eventType payload db = (r, db')"
  obtains (rolled_back) "db' = db" "r \<noteq> None"
  | (saved) "db' = saved rid now ord eventType payload db" "\<not> has_key or_id (ID ord) (orders db)"
      "int4_quantities (Items ord)"
  using assms
  by (cases "f_commit f")
    (auto simp: SaveWithEvent_def exec_insert_order_def exec_insert_outbox_def saved_def
      dest!: exec_insert_items_Inr split: option.splits sum.splits if_splits)

lemma SaveWithEvent_None:
  assumes "SaveWithEvent f rid now ord eventType payload db = (None, db')"
  shows "db' = saved rid now ord eventType payload db \<and> \<not> has_key or_id (ID ord) (orders db)
    \<and> int4_quantities (Items ord)"
  using SaveWithEvent_cases [OF assms] by auto

lemma exec_insert_items_Inl:
  "exec_insert_items f k oid items tx = Inl e \<Longrightarrow> \<exists>m. e = Opaque m"
  by (induction items arbitrary: k tx) (auto split: option.splits if_splits)

lemma SaveWithEvent_Some:
  assumes "SaveWithEvent f rid now ord eventType payload db = (Some e, db')"
  shows "\<not> errors_is e s \<and> (db' = db
    \<or> (\<exists>m. f_commit f = CommitUnknown m) \<and> db' = saved rid now ord eventType payload db)"
  using assms
  by (cases "f_commit f")
    (auto simp: SaveWithEvent_def saved_def exec_insert_order_def exec_insert_outbox_def
      dest!: exec_insert_items_Inr exec_insert_items_Inl split: option.splits sum.splits if_splits)

lemma SaveWithEvent_no_faults:
  "int4_quantities (Items ord) \<Longrightarrow> SaveWithEvent no_faults rid now ord eventType payload db =
     (if has_key or_id (ID ord) (orders db)
      then (Some (Wrapf ''insert order: '' (Opaque ''duplicate key value violates unique constraint'') ''''), db)
      else (None, saved rid now ord eventType payload db))"
  by (simp add: SaveWithEvent_def exec_insert_order_def exec_insert_outbox_def saved_def)

lemma UpdateStatusWithEvent_cases:
  assumes "UpdateStatusWithEvent f rid now ord eventType payload db = (r, db')"
  obtains (rolled_back) "db' = db" "r \<noteq> None"
  | (updated) "db' = status_updated rid now ord eventType payload db"
      "rows_affected (locked_row ord) (orders db) \<noteq> 0"
  using assms
  by (cases "f_commit f")
    (auto simp: UpdateStatusWithEvent_def exec_insert_outbox_def status_updated_def Let_def
      split: option.splits sum.splits if_splits)

lemma UpdateStatusWithEvent_conflict:
  assumes "UpdateStatusWithEvent f rid now ord eventType payload db = (Some e, db')"
    and "errors_is e ErrOptimisticLock"
  shows "db' = db \<and> rows_affected (locked_row ord) (orders db) = 0"
  using assms
  by (cases "f_commit f")
    (auto simp: UpdateStatusWithEvent_def exec_insert_outbox_def Let_def
      split: option.splits sum.splits if_splits)

lemma UpdateStatusWithEvent_no_faults:
  "UpdateStatusWithEvent no_faults rid now ord eventType payload db =
     (if rows_affected (locked_row ord) (orders db) = 0
      then (Some (Sentinel ErrOptimisticLock), db)
      else (None, status_updated rid now ord eventType payload db))"
  by (simp add: UpdateStatusWithEvent_def exec_insert_outbox_def status_updated_def)

lemma row_to_item_to_row [simp]: "row_to_item (item_to_row oid item) = item"
  by (simp add: row_to_item_def item_to_row_def)

lemma row_to_order_to_row [simp]: "row_to_order (order_to_row ord) items
  = ord\<lparr>Items := items, CreatedAt := timestamptz (CreatedAt ord), UpdatedAt := timestamptz (UpdatedAt ord)\<rparr>"
  by (simp add: row_to_order_def order_to_row_def)

lemma GetByID_Inr:
  assumes "GetByID f oid db = Inr ord"
  obtains row where "find_row or_id oid (orders db) = Some row"
    "ord = row_to_order row (map row_to_item (delivered (f_rows f) (items_of oid db)))"
  using assms
  by (auto simp: GetByID_def split: option.splits sum.splits dest: scan_rows_Inr)

lemma GetByID_Inl:
  assumes "GetByID f oid db = Inl e"
  shows "\<not> errors_is e ErrOptimisticLock" "\<not> errors_is e ErrInvalidTransition" "\<not> errors_is e ErrEmptyItems"
  using assms
  by (auto simp: GetByID_def split: option.splits sum.splits dest: scan_rows_Inl)

lemma GetByID_no_faults:
  "GetByID no_faults oid db =
     (case find_row or_id oid (orders db) of
        None \<Rightarrow> Inl (Wrapf msg_not_found (Sentinel ErrNoRows) '''')
      | Some row \<Rightarrow> Inr (row_to_order row (map row_to_item (items_of oid db))))"
  by (simp add: GetByID_def split: option.splits)

end
