(* ===== verification/Order_UseCase.thy ===== *)
theory Order_UseCase
  imports Order_Store
begin

text \<open>
  \<open>order-service/internal/usecase/order_usecase.go\<close> over the interface of
  \<open>internal/ports/repository.go\<close>.

  The operations take the repository's methods as arguments, as \<open>orderUseCase\<close> holds a
  \<open>ports.OrderRepository\<close>. The retry loop of \<open>UpdateOrderStatus\<close> is written with
  what other transactions do to the database before each read and between each read and its
  write (\<open>at_before\<close>, \<open>at_between\<close>), so a theorem that quantifies over them covers
  every interleaving.

  The locale \<open>order_repository\<close> states what a repository promises: all or nothing in the
  state and the event, and an optimistic lock that lets a write through only at the version it
  read. The use case's guarantees are proved inside it and obtained for PostgreSQL's repository by
  interpretation.
\<close>

section \<open>Definitions\<close>

definition msg_get_order :: string where
  "msg_get_order = utf8 [208, 159, 208, 190, 208, 187, 209, 131, 209, 135, 208, 181, 208, 189, 208, 184, 208,
     181, 32, 208, 184, 208, 189, 209, 132, 208, 190, 32, 208, 190, 32, 208, 183, 208, 176,
     208, 186, 208, 176, 208, 183, 208, 181, 58, 32]"

definition msg_list_orders :: string where
  "msg_list_orders = utf8 [208, 159, 208, 190, 208, 187, 209, 131, 209, 135, 208, 181, 208, 189, 208, 184, 208,
     181, 32, 209, 129, 208, 191, 208, 184, 209, 129, 208, 186, 208, 176, 32, 208, 183, 208,
     176, 208, 186, 208, 176, 208, 183, 208, 190, 208, 178, 58, 32]"

record CreateOrderInput =
  in_CustomerID :: string
  in_Items :: "OrderItem list"

definition created_event :: "Order \<Rightarrow> OrderCreatedEvent" where
  "created_event ord = \<lparr>oce_OrderID = ID ord, oce_CustomerID = CustomerID ord, oce_Items = Items ord,
     oce_TotalCost = TotalCost ord, oce_CreatedAt = CreatedAt ord\<rparr>"

text \<open>
  \<open>uid\<close> is what \<open>uuid.NewString\<close> returns, \<open>now\<close> what the constructor reads from
  the clock; the counter is \<open>metrics.OrdersCreatedTotal\<close>.
\<close>

definition CreateOrder ::
  "(Order \<Rightarrow> string \<Rightarrow> json \<Rightarrow> 'db \<Rightarrow> order_error option \<times> 'db) \<Rightarrow> string \<Rightarrow> gotime \<Rightarrow> CreateOrderInput
   \<Rightarrow> 'db \<Rightarrow> nat \<Rightarrow> (order_error + Order) \<times> 'db \<times> nat" where
  "CreateOrder save uid now input db created_total =
     (case NewOrder uid (in_CustomerID input) (in_Items input) now of
        Inl e \<Rightarrow> (Inl (Wrapf ''create order: '' e ''''), db, created_total)
      | Inr ord \<Rightarrow>
     (case marshal_OrderCreatedEvent (created_event ord) of
        None \<Rightarrow> (Inl (Wrapf ''marshal order created event: '' (Opaque ''json: error calling MarshalJSON'') ''''),
                 db, created_total)
      | Some payload \<Rightarrow>
     (case save ord EventTypeOrderCreated payload db of
        (Some e, db') \<Rightarrow> (Inl (Wrapf ''save order: '' e ''''), db', created_total)
      | (None, db') \<Rightarrow> (Inr ord, db', Suc created_total))))"

definition GetOrder :: "(string \<Rightarrow> 'db \<Rightarrow> order_error + Order) \<Rightarrow> string \<Rightarrow> 'db \<Rightarrow> order_error + Order" where
  "GetOrder get oid db =
     (case get oid db of Inl e \<Rightarrow> Inl (Wrapf msg_get_order e '''') | Inr ord \<Rightarrow> Inr ord)"

definition ListOrders ::
  "(string \<Rightarrow> string \<Rightarrow> int \<Rightarrow> 'db \<Rightarrow> (order_error + Order list \<times> string) call)
   \<Rightarrow> string \<Rightarrow> string \<Rightarrow> int \<Rightarrow> 'db \<Rightarrow> (order_error + Order list \<times> string) call" where
  "ListOrders list_by cust cursor limit db =
     (let limit' = (if limit \<le> 0 \<or> 100 < limit then 20 else limit) in
      case list_by cust cursor limit' db of
        Panics \<Rightarrow> Panics
      | Returns (Inl e) \<Rightarrow> Returns (Inl (Wrapf msg_list_orders e ''''))
      | Returns (Inr (page, nextCursor)) \<Rightarrow> Returns (Inr (page, nextCursor)))"

definition buildStatusEvent :: "Order \<Rightarrow> OrderStatus \<Rightarrow> string \<Rightarrow> order_error + string \<times> json" where
  "buildStatusEvent ord newStatus reason =
     (case newStatus of
        StatusConfirmed \<Rightarrow>
          Inr (EventTypeOrderConfirmed, marshal_OrderConfirmedEvent \<lparr>ofe_OrderID = ID ord\<rparr>)
      | StatusCancelled \<Rightarrow>
          Inr (EventTypeOrderCancelled,
               marshal_OrderCancelledEvent \<lparr>oxe_OrderID = ID ord, oxe_Reason = reason\<rparr>)
      | _ \<Rightarrow> Inl (Opaque (''no event mapping for status '' @ status_text newStatus)))"

text \<open>
  The surroundings of one call of \<open>UpdateOrderStatus\<close>, by attempt: how the read and the
  write fare, what the clock reads, and what other transactions do to the database before the
  read and between the read and the write.
\<close>

record ('g, 'w, 'db) attempts =
  at_get :: "nat \<Rightarrow> 'g"
  at_write :: "nat \<Rightarrow> 'w"
  at_now :: "nat \<Rightarrow> gotime"
  at_before :: "nat \<Rightarrow> 'db \<Rightarrow> 'db"
  at_between :: "nat \<Rightarrow> 'db \<Rightarrow> 'db"

definition maxRetries :: nat where
  "maxRetries = 3"

definition exceeded_retries :: order_error where
  "exceeded_retries = Opaque ''update order status: exceeded 3 retries due to concurrent updates''"

text \<open>The loop, with the number of attempts that are left and the number of this one.\<close>

fun update_attempts ::
  "('g \<Rightarrow> string \<Rightarrow> 'db \<Rightarrow> order_error + Order) \<Rightarrow>
   ('w \<Rightarrow> Order \<Rightarrow> string \<Rightarrow> json \<Rightarrow> 'db \<Rightarrow> order_error option \<times> 'db) \<Rightarrow> ('g, 'w, 'db) attempts
   \<Rightarrow> string \<Rightarrow> OrderStatus \<Rightarrow> string \<Rightarrow> nat \<Rightarrow> nat \<Rightarrow> 'db \<Rightarrow> order_error option \<times> 'db" where
  "update_attempts get upd at oid newStatus reason 0 attempt db = (Some exceeded_retries, db)"
| "update_attempts get upd at oid newStatus reason (Suc left) attempt db =
     (let db1 = at_before at attempt db in
      case get (at_get at attempt) oid db1 of
        Inl e \<Rightarrow> (Some (Wrapf ''get order for update: '' e ''''), db1)
      | Inr ord \<Rightarrow>
     (case TransitionTo ord newStatus (at_now at attempt) of
        Inl e \<Rightarrow> (Some (Wrapf ''transition order status: '' e ''''), db1)
      | Inr ord' \<Rightarrow>
     (case buildStatusEvent ord' newStatus reason of
        Inl e \<Rightarrow> (Some (Wrapf ''build status event: '' e ''''), db1)
      | Inr (eventType, payload) \<Rightarrow>
     (case upd (at_write at attempt) ord' eventType payload (at_between at attempt db1) of
        (None, db2) \<Rightarrow> (None, db2)
      | (Some e, db2) \<Rightarrow>
          if errors_is e ErrOptimisticLock
          then update_attempts get upd at oid newStatus reason left (Suc attempt) db2
          else (Some (Wrapf ''update order status: '' e ''''), db2)))))"

definition UpdateOrderStatus ::
  "('g \<Rightarrow> string \<Rightarrow> 'db \<Rightarrow> order_error + Order) \<Rightarrow>
   ('w \<Rightarrow> Order \<Rightarrow> string \<Rightarrow> json \<Rightarrow> 'db \<Rightarrow> order_error option \<times> 'db) \<Rightarrow> ('g, 'w, 'db) attempts
   \<Rightarrow> string \<Rightarrow> OrderStatus \<Rightarrow> string \<Rightarrow> 'db \<Rightarrow> order_error option \<times> 'db" where
  "UpdateOrderStatus get upd at oid newStatus reason db =
     update_attempts get upd at oid newStatus reason maxRetries 0 db"

fun_cases update_attempts_SomeE: "update_attempts get upd at oid newStatus reason left attempt db = (Some e, db')"

section \<open>Which statuses have an event\<close>

lemma buildStatusEvent_Inr:
  "buildStatusEvent ord new reason = Inr (ty, p) \<Longrightarrow>
   (new = StatusConfirmed \<and> ty = EventTypeOrderConfirmed \<or> new = StatusCancelled \<and> ty = EventTypeOrderCancelled)"
  by (auto simp: buildStatusEvent_def split: OrderStatus.splits)

lemma buildStatusEvent_Inl:
  "buildStatusEvent ord new reason = Inl e \<Longrightarrow> \<exists>m. e = Opaque m"
  by (auto simp: buildStatusEvent_def split: OrderStatus.splits)

section \<open>The contract of a repository\<close>

text \<open>
  \<open>stored db oid\<close>: status and version of the order \<open>oid\<close>; \<open>events db\<close>: the events
  recorded in the outbox, in order.
\<close>

locale order_repository =
  fixes get :: "'g \<Rightarrow> string \<Rightarrow> 'db \<Rightarrow> order_error + Order"
    and save :: "'w \<Rightarrow> Order \<Rightarrow> string \<Rightarrow> json \<Rightarrow> 'db \<Rightarrow> order_error option \<times> 'db"
    and upd :: "'w \<Rightarrow> Order \<Rightarrow> string \<Rightarrow> json \<Rightarrow> 'db \<Rightarrow> order_error option \<times> 'db"
    and stored :: "'db \<Rightarrow> string \<Rightarrow> (OrderStatus \<times> int) option"
    and events :: "'db \<Rightarrow> (string \<times> string \<times> json) list"
    and inv :: "'db \<Rightarrow> bool"
  assumes get_stored:
      "get g oid db = Inr ord \<Longrightarrow> ID ord = oid \<and> stored db oid = Some (Status ord, Version ord)"
    and get_error: "get g oid db = Inl e \<Longrightarrow> \<not> errors_is e ErrOptimisticLock"
    and save_atomic:
      "save w ord ty p db = (r, db') \<Longrightarrow> inv db \<Longrightarrow>
       (r \<noteq> None \<and> db' = db) \<or>
       (stored db (ID ord) = None \<and> stored db' = (stored db)(ID ord \<mapsto> (Status ord, Version ord))
        \<and> events db' = events db @ [(ID ord, ty, p)])"
    and save_inv: "save w ord ty p db = (r, db') \<Longrightarrow> inv db \<Longrightarrow> inv db'"
    and upd_atomic:
      "upd w ord ty p db = (r, db') \<Longrightarrow> inv db \<Longrightarrow>
       (r \<noteq> None \<and> db' = db) \<or>
       ((\<exists>st. stored db (ID ord) = Some (st, Version ord))
        \<and> stored db' = (stored db)(ID ord \<mapsto> (Status ord, Version ord + 1))
        \<and> events db' = events db @ [(ID ord, ty, p)])"
    and upd_inv: "upd w ord ty p db = (r, db') \<Longrightarrow> inv db \<Longrightarrow> inv db'"
    and upd_conflict: "upd w ord ty p db = (Some e, db') \<Longrightarrow> errors_is e ErrOptimisticLock \<Longrightarrow> db' = db"
begin

text \<open>
  What other transactions may do to the stored orders: an order keeps its status as long as it
  keeps its version.
\<close>

definition respects_versions :: "'db \<Rightarrow> 'db \<Rightarrow> bool" where
  "respects_versions db db' \<longleftrightarrow> (inv db \<longrightarrow> inv db') \<and>
     (\<forall>oid st v. stored db oid = Some (st, v) \<longrightarrow>
        (\<exists>st' v'. stored db' oid = Some (st', v') \<and> (v' = v \<longrightarrow> st' = st)))"

definition peaceful :: "('g, 'w, 'db) attempts \<Rightarrow> bool" where
  "peaceful at \<longleftrightarrow> (\<forall>k x. inv x \<longrightarrow> inv (at_before at k x))
     \<and> (\<forall>k x. respects_versions x (at_between at k x))"

lemma peaceful_between:
  assumes "peaceful at" and "stored x oid = Some (st, v)"
    and "stored (at_between at k x) oid = Some (st', v)"
  shows "st' = st"
proof -
  have "respects_versions x (at_between at k x)" using assms(1) by (simp add: peaceful_def)
  with assms(2,3) show ?thesis unfolding respects_versions_def by fastforce
qed

lemma attempts_inv:
  "peaceful at \<Longrightarrow> inv db \<Longrightarrow>
   update_attempts get upd at oid new reason left attempt db = (r, db') \<Longrightarrow> inv db'"
proof (induction left arbitrary: attempt db)
  case (Suc left)
  have b: "inv (at_before at attempt db)" "inv (at_between at attempt (at_before at attempt db))"
    using Suc.prems(1,2) by (auto simp: peaceful_def respects_versions_def)
  show ?case
    using Suc.prems(3) b upd_inv [OF _ b(2)] Suc.IH [OF Suc.prems(1)]
    by (fastforce simp: Let_def split: sum.splits prod.splits option.splits if_splits)
qed simp

text \<open>
  The write that makes a call succeed is an allowed transition of the state it meets: the state
  other transactions left in attempt \<open>k\<close> just before that write.
\<close>

definition succeeds_at ::
  "('g, 'w, 'db) attempts \<Rightarrow> string \<Rightarrow> OrderStatus \<Rightarrow> string \<Rightarrow> nat \<Rightarrow> 'db \<Rightarrow> 'db \<Rightarrow> bool" where
  "succeeds_at at oid new reason k x db' \<longleftrightarrow> (\<exists>st v ord ty p.
     stored (at_between at k x) oid = Some (st, v) \<and> new \<in> set (allowedTransactions st)
     \<and> stored db' = (stored (at_between at k x))(oid \<mapsto> (new, v + 1))
     \<and> ID ord = oid \<and> buildStatusEvent ord new reason = Inr (ty, p)
     \<and> events db' = events (at_between at k x) @ [(oid, ty, p)])"

lemma attempts_success:
  assumes "update_attempts get upd at oid new reason left attempt db = (None, db')"
    and "peaceful at" and "inv db"
  shows "\<exists>k x. attempt \<le> k \<and> k < attempt + left \<and> succeeds_at at oid new reason k x db'"
  using assms(1,3)
proof (induction left arbitrary: attempt db)
  case (Suc left)
  define db1 where "db1 = at_before at attempt db"
  define dbw where "dbw = at_between at attempt db1"
  have inv_w: "inv dbw"
    using assms(2) Suc.prems(2) by (auto simp: peaceful_def respects_versions_def dbw_def db1_def)
  from Suc.prems(1) obtain ord where ord: "get (at_get at attempt) oid db1 = Inr ord"
    by (auto simp: db1_def Let_def split: sum.splits)
  from Suc.prems(1) ord obtain ord' where ord': "TransitionTo ord new (at_now at attempt) = Inr ord'"
    by (auto simp: db1_def Let_def split: sum.splits)
  from Suc.prems(1) ord ord' obtain ty p where ev: "buildStatusEvent ord' new reason = Inr (ty, p)"
    by (auto simp: db1_def Let_def split: sum.splits)
  obtain r db2 where u: "upd (at_write at attempt) ord' ty p dbw = (r, db2)" by fastforce
  have o': "ID ord' = oid" "Version ord' = Version ord" "Status ord' = new"
    and tr: "new \<in> set (allowedTransactions (Status ord))"
    using ord' get_stored [OF ord] by (auto simp: go_simps split: if_splits)
  show ?case
  proof (cases r)
    case None
    with Suc.prems(1) ord ord' ev u have "db' = db2" by (simp add: db1_def dbw_def Let_def)
    moreover obtain st where st: "stored dbw oid = Some (st, Version ord)"
      and w: "stored db2 = (stored dbw)(oid \<mapsto> (new, Version ord + 1))"
      "events db2 = events dbw @ [(oid, ty, p)]"
      using upd_atomic [OF u inv_w] None o' by auto
    moreover have "st = Status ord"
      using peaceful_between [OF assms(2)] get_stored [OF ord] st unfolding dbw_def by blast
    ultimately have "succeeds_at at oid new reason attempt db1 db'"
      using tr o'(1) ev unfolding dbw_def succeeds_at_def by blast
    then show ?thesis by auto
  next
    case (Some e)
    with Suc.prems(1) ord ord' ev u
    have rest: "update_attempts get upd at oid new reason left (Suc attempt) db2 = (None, db')"
      by (auto simp: db1_def dbw_def Let_def split: if_splits)
    have "inv db2" using upd_inv [OF u inv_w] .
    from Suc.IH [OF rest this] obtain k x where "Suc attempt \<le> k" "k < Suc attempt + left"
      "succeeds_at at oid new reason k x db'" by blast
    then show ?thesis by (intro exI [of _ k] exI [of _ x]) simp
  qed
qed simp

text \<open>The optimistic lock's error never leaves the loop: it is retried or replaced.\<close>

lemma attempts_hide_conflict:
  "update_attempts get upd at oid new reason left attempt db = (Some e, db') \<Longrightarrow>
   \<not> errors_is e ErrOptimisticLock"
proof (induction left arbitrary: attempt db)
  case (Suc left)
  then show ?case
    by (auto simp: Let_def go_simps exceeded_retries_def dest: get_error buildStatusEvent_Inl
        split: sum.splits prod.splits option.splits if_splits)
qed (auto simp: exceeded_retries_def)

end

section \<open>PostgreSQL's repository keeps the contract\<close>

definition stored_order :: "order_db \<Rightarrow> string \<Rightarrow> (OrderStatus \<times> int) option" where
  "stored_order db oid = map_option (\<lambda>r. (or_status r, or_version r)) (find_row or_id oid (orders db))"

definition outbox_events :: "order_db \<Rightarrow> (string \<times> string \<times> json) list" where
  "outbox_events db = map (\<lambda>r. (ob_aggregate r, ob_type r, ob_payload r)) (order_outbox db)"

definition primary_key :: "order_db \<Rightarrow> bool" where
  "primary_key db \<longleftrightarrow> distinct (map or_id (orders db))"

text \<open>The write methods with their surroundings in one argument.\<close>

type_synonym pg_env = "db_faults \<times> string \<times> (nat \<Rightarrow> gotime)"

definition pg_save :: "pg_env \<Rightarrow> Order \<Rightarrow> string \<Rightarrow> json \<Rightarrow> order_db \<Rightarrow> order_error option \<times> order_db" where
  "pg_save w ord ty p db = (case w of (f, rid, now) \<Rightarrow> SaveWithEvent f rid (now 0) ord ty p db)"

definition pg_upd :: "pg_env \<Rightarrow> Order \<Rightarrow> string \<Rightarrow> json \<Rightarrow> order_db \<Rightarrow> order_error option \<times> order_db" where
  "pg_upd w ord ty p db = (case w of (f, rid, now) \<Rightarrow> UpdateStatusWithEvent f rid now ord ty p db)"

lemma new_outbox_row_fields [simp]:
  "ob_id (new_outbox_row rid a t p now) = rid" "ob_aggregate (new_outbox_row rid a t p now) = a"
  "ob_type (new_outbox_row rid a t p now) = t" "ob_payload (new_outbox_row rid a t p now) = p"
  "ob_status (new_outbox_row rid a t p now) = PENDING"
  "ob_created (new_outbox_row rid a t p now) = now"
  by (simp_all add: new_outbox_row_def)

lemma order_to_row_fields [simp]:
  "or_id (order_to_row ord) = ID ord" "or_status (order_to_row ord) = Status ord"
  "or_version (order_to_row ord) = Version ord" "or_customer_id (order_to_row ord) = CustomerID ord"
  "or_created_at (order_to_row ord) = timestamptz (CreatedAt ord)"
  by (simp_all add: order_to_row_def)

lemma set_status_fields [simp]:
  "or_id (set_status st now r) = or_id r" "or_status (set_status st now r) = st"
  "or_version (set_status st now r) = or_version r + 1"
  "or_customer_id (set_status st now r) = or_customer_id r"
  "or_created_at (set_status st now r) = or_created_at r"
  by (simp_all add: set_status_def)

lemma saved_fields [simp]:
  "orders (saved rid now ord ty p db) = orders db @ [order_to_row ord]"
  "order_items (saved rid now ord ty p db) = order_items db @ map (item_to_row (ID ord)) (Items ord)"
  "order_outbox (saved rid now ord ty p db) = order_outbox db @ [new_outbox_row rid (ID ord) ty p now]"
  by (simp_all add: saved_def)

lemma status_updated_fields [simp]:
  "orders (status_updated rid now ord ty p db)
     = update_where (locked_row ord) (set_status (Status ord) (now 0)) (orders db)"
  "order_items (status_updated rid now ord ty p db) = order_items db"
  "order_outbox (status_updated rid now ord ty p db)
     = order_outbox db @ [new_outbox_row rid (ID ord) ty p (now 1)]"
  by (simp_all add: status_updated_def)

lemma row_to_order_fields [simp]:
  "ID (row_to_order r items) = or_id r" "Status (row_to_order r items) = or_status r"
  "Version (row_to_order r items) = or_version r" "Items (row_to_order r items) = items"
  "CustomerID (row_to_order r items) = or_customer_id r" "CreatedAt (row_to_order r items) = or_created_at r"
  by (simp_all add: row_to_order_def)

lemma stored_order_saved:
  "\<not> has_key or_id (ID ord) (orders db) \<Longrightarrow>
   stored_order db (ID ord) = None \<and>
   stored_order (saved rid now ord ty p db) = (stored_order db)(ID ord \<mapsto> (Status ord, Version ord))"
  by (auto simp: stored_order_def find_row_append find_row_Cons find_row_None [symmetric] fun_eq_iff
      split: option.splits)

lemma stored_order_locked:
  assumes "primary_key db" and "rows_affected (locked_row ord) (orders db) \<noteq> 0"
  shows "\<exists>st. stored_order db (ID ord) = Some (st, Version ord)"
    and "stored_order (status_updated rid now ord ty p db)
      = (stored_order db)(ID ord \<mapsto> (Status ord, Version ord + 1))"
proof -
  from assms(2) obtain row where row: "row \<in> set (orders db)" "locked_row ord row"
    by (auto simp: rows_affected_0)
  then have f: "find_row or_id (ID ord) (orders db) = Some row"
    using assms(1) by (simp add: primary_key_def find_row_distinct locked_row_def)
  with row show "\<exists>st. stored_order db (ID ord) = Some (st, Version ord)"
    by (auto simp: stored_order_def locked_row_def)
  have "stored_order (status_updated rid now ord ty p db) oid
      = ((stored_order db)(ID ord \<mapsto> (Status ord, Version ord + 1))) oid" for oid
  proof (cases "oid = ID ord")
    case True
    with f row show ?thesis by (simp add: stored_order_def find_row_update_where locked_row_def)
  next
    case False
    then show ?thesis
      by (cases "find_row or_id oid (orders db)")
        (auto simp: stored_order_def find_row_update_where locked_row_def dest: find_row_Some)
  qed
  then show "stored_order (status_updated rid now ord ty p db)
      = (stored_order db)(ID ord \<mapsto> (Status ord, Version ord + 1))" by blast
qed

lemma primary_key_saved:
  "primary_key db \<Longrightarrow> \<not> has_key or_id (ID ord) (orders db) \<Longrightarrow> primary_key (saved rid now ord ty p db)"
  by (auto simp: primary_key_def has_key_def)

lemma primary_key_updated: "primary_key (status_updated rid now ord ty p db) = primary_key db"
proof -
  have "map or_id (orders (status_updated rid now ord ty p db)) = map or_id (orders db)"
    by (simp add: map_key_update_where)
  then show ?thesis by (simp only: primary_key_def)
qed

interpretation pg: order_repository GetByID pg_save pg_upd stored_order outbox_events primary_key
proof unfold_locales
  fix g oid db ord assume "GetByID g oid db = Inr ord"
  then show "ID ord = oid \<and> stored_order db oid = Some (Status ord, Version ord)"
    by (auto elim!: GetByID_Inr dest: find_row_Some simp: stored_order_def)
next
  fix g oid db e assume "GetByID g oid db = Inl e"
  then show "\<not> errors_is e ErrOptimisticLock" by (rule GetByID_Inl)
next
  fix w ord ty p db r db'
  assume "pg_save w ord ty p db = (r, db')" and inv: "primary_key db"
  then obtain f rid now where s: "SaveWithEvent f rid (now 0) ord ty p db = (r, db')"
    by (cases w) (auto simp: pg_save_def)
  show "(r \<noteq> None \<and> db' = db) \<or> (stored_order db (ID ord) = None
      \<and> stored_order db' = (stored_order db)(ID ord \<mapsto> (Status ord, Version ord))
      \<and> outbox_events db' = outbox_events db @ [(ID ord, ty, p)])"
    using s by (cases rule: SaveWithEvent_cases) (simp_all add: stored_order_saved outbox_events_def)
  show "primary_key db'"
    using s by (cases rule: SaveWithEvent_cases) (simp_all add: inv primary_key_saved)
next
  fix w ord ty p db r db'
  assume "pg_upd w ord ty p db = (r, db')" and inv: "primary_key db"
  then obtain f rid now where u: "UpdateStatusWithEvent f rid now ord ty p db = (r, db')"
    by (cases w) (auto simp: pg_upd_def)
  show "(r \<noteq> None \<and> db' = db) \<or> ((\<exists>st. stored_order db (ID ord) = Some (st, Version ord))
      \<and> stored_order db' = (stored_order db)(ID ord \<mapsto> (Status ord, Version ord + 1))
      \<and> outbox_events db' = outbox_events db @ [(ID ord, ty, p)])"
    using u by (cases rule: UpdateStatusWithEvent_cases)
      (simp_all add: stored_order_locked inv outbox_events_def)
  show "primary_key db'"
    using u by (cases rule: UpdateStatusWithEvent_cases) (simp_all add: inv primary_key_updated)
next
  fix w ord ty p db e db'
  assume "pg_upd w ord ty p db = (Some e, db')" and "errors_is e ErrOptimisticLock"
  then show "db' = db"
    by (cases w) (auto simp: pg_upd_def dest: UpdateStatusWithEvent_conflict)
qed

section \<open>Guarantees of the use case\<close>

text \<open>
  Surroundings that keep the primary key, and between a read and its write keep an order's status
  while they keep its version. Every writer of the service does (the theory of the system).
\<close>

definition respects_order_versions :: "order_db \<Rightarrow> order_db \<Rightarrow> bool" where
  "respects_order_versions db db' \<longleftrightarrow> (primary_key db \<longrightarrow> primary_key db') \<and>
     (\<forall>oid st v. stored_order db oid = Some (st, v) \<longrightarrow>
        (\<exists>st' v'. stored_order db' oid = Some (st', v') \<and> (v' = v \<longrightarrow> st' = st)))"

definition peaceful_attempts :: "(db_faults, pg_env, order_db) attempts \<Rightarrow> bool" where
  "peaceful_attempts at \<longleftrightarrow> (\<forall>k x. primary_key x \<longrightarrow> primary_key (at_before at k x))
     \<and> (\<forall>k x. respects_order_versions x (at_between at k x))"

lemma peaceful_attempts_iff: "peaceful_attempts at = pg.peaceful at"
  by (simp add: peaceful_attempts_def pg.peaceful_def respects_order_versions_def pg.respects_versions_def)

definition quiet_attempts :: "(db_faults, pg_env, order_db) attempts" where
  "quiet_attempts = \<lparr>at_get = (\<lambda>_. no_faults), at_write = (\<lambda>_. (no_faults, ''r1'', \<lambda>_. GoTime 2024 1 1 0 0 0 0)),
     at_now = (\<lambda>_. GoTime 2024 1 1 0 0 0 0), at_before = (\<lambda>_ db. db), at_between = (\<lambda>_ db. db)\<rparr>"

definition sample_order_row :: "OrderStatus \<Rightarrow> int \<Rightarrow> order_row" where
  "sample_order_row st v = \<lparr>or_id = ''o1'', or_customer_id = ''c1'', or_total_amount = 5, or_currency = ''USD'',
     or_status = st, or_version = v, or_created_at = GoTime 2024 1 1 0 0 0 0,
     or_updated_at = GoTime 2024 1 1 0 0 0 0\<rparr>"

text \<open>A sample order.\<close>

definition sample_time :: gotime where
  "sample_time = GoTime 2024 1 1 0 0 0 0"

definition sample_items :: "OrderItem list" where
  "sample_items = [\<lparr>SKU = ''s1'', Name = ''n'', Price = \<lparr>Amount = 5, Currency = ''USD''\<rparr>, Quantity = 2\<rparr>]"

definition sample_order :: Order where
  "sample_order = \<lparr>ID = ''o1'', CustomerID = ''c1'', Items = sample_items,
     TotalCost = \<lparr>Amount = 10, Currency = ''USD''\<rparr>, Status = StatusCreated, Version = 1,
     CreatedAt = sample_time, UpdatedAt = sample_time\<rparr>"

definition sample_payload :: json where
  "sample_payload = the (marshal_OrderCreatedEvent (created_event sample_order))"

lemma NewOrder_sample: "NewOrder ''o1'' ''c1'' sample_items sample_time = Inr sample_order"
  by (simp add: NewOrder_def sample_items_def sample_order_def Money_Add_def Subtotal_def)

lemma marshal_sample: "marshal_OrderCreatedEvent (created_event sample_order) = Some sample_payload"
  by (simp add: sample_payload_def marshal_OrderCreatedEvent_def created_event_def sample_order_def
      marshal_time_def json_year_def sample_time_def)

lemma save_sample: "SaveWithEvent no_faults ''r1'' sample_time sample_order EventTypeOrderCreated sample_payload empty_order_db
    = (None, saved ''r1'' sample_time sample_order EventTypeOrderCreated sample_payload empty_order_db)"
  by (simp add: SaveWithEvent_no_faults empty_order_db_def has_key_def sample_order_def sample_items_def int4_range_def)

lemma peaceful_quiet: "peaceful_attempts quiet_attempts"
  by (auto simp: peaceful_attempts_def quiet_attempts_def respects_order_versions_def)

text \<open>
  Property C12 (safety). When a status update succeeds, however other transactions run between
  its reads and its writes, the write that succeeded met the order in a status from which the
  status machine allows the new one, raised the version by one, changed no other order, and
  recorded exactly the event of the new status in the same transaction.
\<close>

theorem UpdateOrderStatus_linearizable:
  assumes "UpdateOrderStatus GetByID pg_upd at oid new reason db = (None, db')"
    and "peaceful_attempts at" and "primary_key db"
  shows "\<exists>k x st v ord ty p. k < maxRetries
    \<and> stored_order (at_between at k x) oid = Some (st, v) \<and> new \<in> set (allowedTransactions st)
    \<and> stored_order db' = (stored_order (at_between at k x))(oid \<mapsto> (new, v + 1))
    \<and> ID ord = oid \<and> buildStatusEvent ord new reason = Inr (ty, p)
    \<and> outbox_events db' = outbox_events (at_between at k x) @ [(oid, ty, p)]"
  using pg.attempts_success [OF assms(1) [unfolded UpdateOrderStatus_def]] assms(2,3)
  unfolding peaceful_attempts_iff pg.succeeds_at_def by auto

theorem UpdateOrderStatus_linearizable_witness:
  "\<exists>db'. UpdateOrderStatus GetByID pg_upd quiet_attempts ''o1'' StatusConfirmed []
      \<lparr>orders = [sample_order_row StatusAwaitingStock 2], order_items = [], order_outbox = []\<rparr> = (None, db')
    \<and> (\<exists>k x st v ord ty p. k < maxRetries
    \<and> stored_order (at_between quiet_attempts k x) ''o1'' = Some (st, v)
    \<and> StatusConfirmed \<in> set (allowedTransactions st)
    \<and> stored_order db' = (stored_order (at_between quiet_attempts k x))(''o1'' \<mapsto> (StatusConfirmed, v + 1))
    \<and> ID ord = ''o1'' \<and> buildStatusEvent ord StatusConfirmed [] = Inr (ty, p)
    \<and> outbox_events db' = outbox_events (at_between quiet_attempts k x) @ [(''o1'', ty, p)])"
proof -
  let ?db = "\<lparr>orders = [sample_order_row StatusAwaitingStock 2], order_items = [], order_outbox = []\<rparr>"
  obtain r db' where u: "UpdateOrderStatus GetByID pg_upd quiet_attempts ''o1'' StatusConfirmed [] ?db = (r, db')"
    by fastforce
  then have "r = None"
    by (auto simp: UpdateOrderStatus_def maxRetries_def numeral_3_eq_3 quiet_attempts_def Let_def
        GetByID_no_faults sample_order_row_def find_row_Cons items_of_def go_simps buildStatusEvent_def
        pg_upd_def UpdateStatusWithEvent_no_faults rows_affected_def locked_row_def row_to_order_def)
  with u show ?thesis
    using UpdateOrderStatus_linearizable [OF _ peaceful_quiet, of "''o1''" StatusConfirmed "[]" ?db db']
    by (simp add: primary_key_def)
qed

text \<open>Counting the writes a call makes.\<close>

definition counting ::
  "('w \<Rightarrow> Order \<Rightarrow> string \<Rightarrow> json \<Rightarrow> 'db \<Rightarrow> order_error option \<times> 'db)
   \<Rightarrow> 'w \<Rightarrow> Order \<Rightarrow> string \<Rightarrow> json \<Rightarrow> nat \<times> 'db \<Rightarrow> order_error option \<times> nat \<times> 'db" where
  "counting upd w ord ty p s = (case upd w ord ty p (snd s) of (r, db') \<Rightarrow> (r, Suc (fst s), db'))"

definition counted_attempts :: "('g, 'w, 'db) attempts \<Rightarrow> ('g, 'w, nat \<times> 'db) attempts" where
  "counted_attempts at = \<lparr>at_get = at_get at, at_write = at_write at, at_now = at_now at,
     at_before = (\<lambda>k s. (fst s, at_before at k (snd s))),
     at_between = (\<lambda>k s. (fst s, at_between at k (snd s)))\<rparr>"

lemma counted_attempts_simps [simp]:
  "at_get (counted_attempts at) = at_get at" "at_write (counted_attempts at) = at_write at"
  "at_now (counted_attempts at) = at_now at"
  "at_before (counted_attempts at) k (n, x) = (n, at_before at k x)"
  "at_between (counted_attempts at) k (n, x) = (n, at_between at k x)"
  by (simp_all add: counted_attempts_def)

lemma counting_attempts:
  "update_attempts (\<lambda>g i s. get g i (snd s)) (counting upd) (counted_attempts at) oid new reason left attempt (n, db)
   = (r, n', db') \<Longrightarrow>
   n' \<le> n + left \<and> update_attempts get upd at oid new reason left attempt db = (r, db')"
proof (induction left arbitrary: attempt n db)
  case (Suc left)
  let ?db1 = "at_before at attempt db"
  show ?case
  proof (cases "get (at_get at attempt) oid ?db1")
    case (Inr ord)
    show ?thesis
    proof (cases "TransitionTo ord new (at_now at attempt)")
      case ord': (Inr ord')
      show ?thesis
      proof (cases "buildStatusEvent ord' new reason")
        case ev: (Inr ev)
        obtain ty p where tp: "ev = (ty, p)" by fastforce
        obtain r1 db2 where u: "upd (at_write at attempt) ord' ty p (at_between at attempt ?db1) = (r1, db2)"
          by fastforce
        show ?thesis
          using Suc.prems Inr ord' ev tp u Suc.IH [of "Suc attempt" "Suc n" db2]
          by (cases r1) (auto simp: counting_def Let_def split: if_splits)
      qed (use Suc.prems Inr ord' in \<open>auto simp: Let_def\<close>)
    qed (use Suc.prems Inr in \<open>auto simp: Let_def\<close>)
  qed (use Suc.prems in \<open>auto simp: Let_def\<close>)
qed auto

text \<open>
  A status update writes at most three times, whatever the
  repository and the other transactions do, and counting its writes does not change what it
  returns: the retry loop is bounded by \<open>maxRetries\<close>.
\<close>

theorem UpdateOrderStatus_bounded:
  "\<exists>n. n \<le> 3 \<and>
     UpdateOrderStatus (\<lambda>g i s. get g i (snd s)) (counting upd) (counted_attempts at) oid new reason (0, db)
     = (case UpdateOrderStatus get upd at oid new reason db of (r, db') \<Rightarrow> (r, n, db'))"
proof -
  obtain r n db' where
    u: "UpdateOrderStatus (\<lambda>g i s. get g i (snd s)) (counting upd) (counted_attempts at) oid new reason (0, db)
      = (r, n, db')"
    by (metis prod.exhaust)
  then show ?thesis
    using counting_attempts [of get upd at oid new reason maxRetries 0 0 db r n db']
    by (auto simp: UpdateOrderStatus_def maxRetries_def)
qed

text \<open>
  No error a status update returns, whether it gave up after its
  retries or not, matches the sentinel of the optimistic lock: the gRPC layer's case for
  \<open>ErrOptimisticLock\<close> (\<open>codes.Aborted\<close>) is never taken from here.
\<close>

theorem UpdateOrderStatus_hides_conflict:
  assumes "UpdateOrderStatus GetByID pg_upd at oid new reason db = (Some e, db')"
  shows "\<not> errors_is e ErrOptimisticLock"
  using assms unfolding UpdateOrderStatus_def by (rule pg.attempts_hide_conflict)

theorem UpdateOrderStatus_hides_conflict_witness:
  "\<exists>e db'. UpdateOrderStatus GetByID pg_upd
      (quiet_attempts\<lparr>at_between := (\<lambda>_ db. db\<lparr>orders := map (set_status StatusAwaitingStock sample_time) (orders db)\<rparr>)\<rparr>)
      ''o1'' StatusConfirmed [] \<lparr>orders = [sample_order_row StatusAwaitingStock 2], order_items = [], order_outbox = []\<rparr>
    = (Some e, db') \<and> \<not> errors_is e ErrOptimisticLock"
proof -
  let ?at = "quiet_attempts\<lparr>at_between := (\<lambda>_ db. db\<lparr>orders := map (set_status StatusAwaitingStock sample_time) (orders db)\<rparr>)\<rparr>"
  let ?db = "\<lparr>orders = [sample_order_row StatusAwaitingStock 2], order_items = [], order_outbox = []\<rparr>"
  obtain r db' where u: "UpdateOrderStatus GetByID pg_upd ?at ''o1'' StatusConfirmed [] ?db = (r, db')"
    by fastforce
  then have "r = Some exceeded_retries"
    by (auto simp: UpdateOrderStatus_def maxRetries_def numeral_3_eq_3 quiet_attempts_def Let_def
        GetByID_no_faults sample_order_row_def find_row_Cons items_of_def go_simps buildStatusEvent_def
        pg_upd_def UpdateStatusWithEvent_no_faults rows_affected_def locked_row_def row_to_order_def set_status_def)
  with u UpdateOrderStatus_hides_conflict [of ?at "''o1''" StatusConfirmed "[]" ?db] show ?thesis by blast
qed

text \<open>
  A status without an event (\<open>AWAITING_STOCK\<close>,
  \<open>COMPLETED\<close>, \<open>CREATED\<close>) can never be set through the use case: the call fails in
  its first attempt, before any write, also where the status machine allows the transition.
\<close>

theorem UpdateOrderStatus_unmapped_status:
  assumes "new \<noteq> StatusConfirmed" and "new \<noteq> StatusCancelled"
  shows "\<exists>e. UpdateOrderStatus get upd at oid new reason db = (Some e, at_before at 0 db)"
proof -
  have "\<exists>e. buildStatusEvent ord new reason = Inl e" for ord
    using assms by (cases new) (auto simp: buildStatusEvent_def)
  then show ?thesis
    unfolding UpdateOrderStatus_def maxRetries_def numeral_3_eq_3
    by (auto simp: Let_def split: sum.splits) (metis Inl_not_Inr)
qed

theorem UpdateOrderStatus_unmapped_status_witness:
  "\<exists>e. UpdateOrderStatus GetByID pg_upd quiet_attempts ''o1'' StatusCompleted []
      \<lparr>orders = [sample_order_row StatusConfirmed 3], order_items = [], order_outbox = []\<rparr>
    = (Some e, \<lparr>orders = [sample_order_row StatusConfirmed 3], order_items = [], order_outbox = []\<rparr>)"
  using UpdateOrderStatus_unmapped_status [of StatusCompleted GetByID pg_upd quiet_attempts "''o1''" "[]"
    "\<lparr>orders = [sample_order_row StatusConfirmed 3], order_items = [], order_outbox = []\<rparr>"]
  by (simp add: quiet_attempts_def)

text \<open>What a create returns and leaves, and which of its errors is about the items.\<close>

lemma CreateOrder_results:
  assumes "CreateOrder (pg_save (f, rid, now)) uid t input db n = (res, db', n')"
  shows "case res of
      Inr ord \<Rightarrow> NewOrder uid (in_CustomerID input) (in_Items input) t = Inr ord \<and> n' = Suc n
        \<and> \<not> has_key or_id uid (orders db) \<and> int4_quantities (Items ord)
        \<and> (\<exists>payload. marshal_OrderCreatedEvent (created_event ord) = Some payload
             \<and> db' = saved rid (now 0) ord EventTypeOrderCreated payload db)
    | Inl e \<Rightarrow> n' = n \<and> (\<forall>s. errors_is e s \<longleftrightarrow> s = ErrEmptyItems \<and> in_Items input = []) \<and> (db' = db
        \<or> (\<exists>m ord payload. f_commit f = CommitUnknown m
             \<and> NewOrder uid (in_CustomerID input) (in_Items input) t = Inr ord
             \<and> db' = saved rid (now 0) ord EventTypeOrderCreated payload db))"
proof (cases "in_Items input")
  case Nil
  with assms show ?thesis by (auto simp: CreateOrder_def NewOrder_Nil)
next
  case (Cons it items)
  then obtain ord where Inr: "NewOrder uid (in_CustomerID input) (in_Items input) t = Inr ord"
    using NewOrder_Cons by metis
  show ?thesis
  proof (cases "marshal_OrderCreatedEvent (created_event ord)")
    case None
    with Inr Cons assms show ?thesis by (auto simp: CreateOrder_def)
  next
    case (Some payload)
    obtain r db1 where s: "SaveWithEvent f rid (now 0) ord EventTypeOrderCreated payload db = (r, db1)"
      by fastforce
    show ?thesis
    proof (cases r)
      case None
      have "db1 = saved rid (now 0) ord EventTypeOrderCreated payload db \<and> \<not> has_key or_id (ID ord) (orders db)
          \<and> int4_quantities (Items ord)"
        using SaveWithEvent_None [OF s [unfolded None]] .
      moreover have "res = Inr ord \<and> db' = db1 \<and> n' = Suc n"
        using Inr Some s None assms by (simp add: CreateOrder_def pg_save_def)
      ultimately show ?thesis using Inr Some NewOrder_fields(1) [OF Inr] by simp
    next
      case e: (Some e)
      note fin = SaveWithEvent_Some [OF s [unfolded e]]
      moreover have "res = Inl (Wrapf ''save order: '' e '''') \<and> db' = db1 \<and> n' = n"
        using Inr Some s e assms by (simp add: CreateOrder_def pg_save_def)
      ultimately show ?thesis using Inr Cons by auto
    qed
  qed
qed

text \<open>
  Creating an order through PostgreSQL's repository is all or
  nothing: with a nil error the database holds the order, its lines and one pending
  \<open>order.created\<close> event with the order's snapshot, and the counter of created orders has
  grown by one; with an error the counter is unchanged and so is the database, unless the commit
  itself took effect and only its answer was lost.
\<close>

theorem CreateOrder_atomic:
  assumes "CreateOrder (pg_save (f, rid, now)) uid t input db n = (res, db', n')"
  shows "case res of
      Inr ord \<Rightarrow> NewOrder uid (in_CustomerID input) (in_Items input) t = Inr ord \<and> n' = Suc n
        \<and> \<not> has_key or_id uid (orders db)
        \<and> (\<exists>payload. marshal_OrderCreatedEvent (created_event ord) = Some payload
             \<and> db' = saved rid (now 0) ord EventTypeOrderCreated payload db)
    | Inl e \<Rightarrow> n' = n \<and> (db' = db
        \<or> (\<exists>m ord payload. f_commit f = CommitUnknown m
             \<and> NewOrder uid (in_CustomerID input) (in_Items input) t = Inr ord
             \<and> db' = saved rid (now 0) ord EventTypeOrderCreated payload db))"
  using CreateOrder_results [OF assms] by (auto split: sum.splits)

theorem CreateOrder_atomic_witness:
  "\<exists>db'. CreateOrder (pg_save (no_faults, ''r1'', \<lambda>_. sample_time)) ''o1'' sample_time
      \<lparr>in_CustomerID = ''c1'', in_Items = sample_items\<rparr> empty_order_db 0 = (Inr sample_order, db', 1)
    \<and> db' = saved ''r1'' sample_time sample_order EventTypeOrderCreated sample_payload empty_order_db"
proof -
  obtain res db' n where c: "CreateOrder (pg_save (no_faults, ''r1'', \<lambda>_. sample_time)) ''o1'' sample_time
      \<lparr>in_CustomerID = ''c1'', in_Items = sample_items\<rparr> empty_order_db 0 = (res, db', n)"
    by (metis prod.exhaust)
  then have "res = Inr sample_order"
    by (auto simp: CreateOrder_def NewOrder_sample marshal_sample pg_save_def save_sample)
  with c CreateOrder_atomic [of no_faults "''r1''" "\<lambda>_. sample_time" "''o1''" sample_time
      "\<lparr>in_CustomerID = ''c1'', in_Items = sample_items\<rparr>" empty_order_db 0 res db' n]
  show ?thesis by (simp add: NewOrder_sample marshal_sample)
qed

end
