(* ===== verification/Order_System.thy ===== *)
theory Order_System
  imports Order_UseCase
begin

text \<open>
  order-service as a system: any number of concurrent requests, stock results and outbox workers
  over one database.

  A state is the database, the orders in flight (read by some \<open>UpdateOrderStatus\<close> and not
  yet written) and what Kafka has received. A step is one transaction: the insert of a new order,
  the read or the write half of an attempt to change a status (so attempts interleave in every
  way), or one tick of an outbox worker, each with any failures. \<open>order_inv\<close> is the
  invariant of the database; it holds in every reachable state, and every change of a status in a
  reachable state is a transition of the status machine.
\<close>

section \<open>The invariant\<close>

fun version_of :: "OrderStatus \<Rightarrow> int" where
  "version_of StatusCreated = 1"
| "version_of StatusAwaitingStock = 2"
| "version_of StatusConfirmed = 3"
| "version_of StatusCancelled = 3"
| "version_of StatusCompleted = 4"

definition box_events :: "string \<Rightarrow> string \<Rightarrow> outbox_row list \<Rightarrow> outbox_row list" where
  "box_events oid ty box = filter (\<lambda>e. ob_aggregate e = oid \<and> ob_type e = ty) box"

text \<open>
  One order and its events: the version tells the status, the one \<open>order.created\<close> event is
  sent exactly when the order has left \<open>CREATED\<close>, and there is one final event exactly when
  the order is in that final status.
\<close>

definition row_inv :: "outbox_row list \<Rightarrow> order_row \<Rightarrow> bool" where
  "row_inv box r \<longleftrightarrow> or_status r \<noteq> StatusCompleted \<and> or_version r = version_of (or_status r)
     \<and> map ob_status (box_events (or_id r) EventTypeOrderCreated box)
         = [if or_status r = StatusCreated then PENDING else SENT]
     \<and> length (box_events (or_id r) EventTypeOrderConfirmed box)
         = (if or_status r = StatusConfirmed then 1 else 0)
     \<and> length (box_events (or_id r) EventTypeOrderCancelled box)
         = (if or_status r = StatusCancelled then 1 else 0)"

definition order_inv :: "order_db \<Rightarrow> bool" where
  "order_inv db \<longleftrightarrow> primary_key db \<and> distinct (map ob_id (order_outbox db))
     \<and> (\<forall>r \<in> set (orders db). row_inv (order_outbox db) r)
     \<and> (\<forall>e \<in> set (order_outbox db). has_key or_id (ob_aggregate e) (orders db))
     \<and> (\<forall>i \<in> set (order_items db). has_key or_id (ir_order_id i) (orders db)
            \<and> int4_range (sint (ir_quantity i)))"

text \<open>An order as some read has returned it.\<close>

definition read_inv :: "Order \<Rightarrow> bool" where
  "read_inv ord \<longleftrightarrow> Version ord = version_of (Status ord)"

section \<open>The system\<close>

record order_sys =
  os_db :: order_db
  os_reads :: "Order list"
  os_log :: "message list"

definition order_sys_init :: order_sys where
  "order_sys_init = \<lparr>os_db = empty_order_db, os_reads = [], os_log = []\<rparr>"

inductive order_sys_step :: "order_sys \<Rightarrow> order_sys \<Rightarrow> bool" where
  create_order:
    "NewOrder oid cust items t = Inr ord \<Longrightarrow>
     marshal_OrderCreatedEvent (created_event ord) = Some payload \<Longrightarrow>
     rid \<notin> set (map ob_id (order_outbox (os_db s))) \<Longrightarrow>
     SaveWithEvent f rid now ord EventTypeOrderCreated payload (os_db s) = (r, db') \<Longrightarrow>
     order_sys_step s (s\<lparr>os_db := db'\<rparr>)"
| read_order:
    "GetByID f oid (os_db s) = Inr ord \<Longrightarrow>
     order_sys_step s (s\<lparr>os_reads := ord # os_reads s\<rparr>)"
| write_status:
    "ord \<in> set (os_reads s) \<Longrightarrow> TransitionTo ord new t = Inr ord' \<Longrightarrow>
     buildStatusEvent ord' new reason = Inr (ty, payload) \<Longrightarrow>
     rid \<notin> set (map ob_id (order_outbox (os_db s))) \<Longrightarrow>
     UpdateStatusWithEvent f rid tm ord' ty payload (os_db s) = (r, db') \<Longrightarrow>
     order_sys_step s (s\<lparr>os_db := db'\<rparr>)"
| worker_tick:
    "order_processBatch f fq locked pub tm batch (os_db s) (os_log s) gauge = (r, db', log', gauge') \<Longrightarrow>
     order_sys_step s (s\<lparr>os_db := db', os_log := log'\<rparr>)"

inductive order_sys_reachable :: "order_sys \<Rightarrow> bool" where
  init: "order_sys_reachable order_sys_init"
| step: "order_sys_reachable s \<Longrightarrow> order_sys_step s s' \<Longrightarrow> order_sys_reachable s'"

inductive_cases order_sys_stepE: "order_sys_step s s'"

section \<open>Events and rows\<close>

lemma box_events_append:
  "box_events oid ty (xs @ ys) = box_events oid ty xs @ box_events oid ty ys"
  by (simp add: box_events_def)

lemma box_events_new:
  "box_events oid ty [new_outbox_row rid a ty' p now]
   = (if a = oid \<and> ty' = ty then [new_outbox_row rid a ty' p now] else [])"
  by (simp add: box_events_def)

lemma box_events_mark_sent:
  "box_events oid ty (mark_sent now rid box) = mark_sent now rid (box_events oid ty box)"
  by (induction box) (auto simp: box_events_def mark_sent_def update_where_Cons)

lemma mark_sent_other: "rid \<notin> ob_id ` set box \<Longrightarrow> mark_sent now rid box = box"
  unfolding mark_sent_def by (rule update_where_id) auto

lemma length_mark_sent [simp]: "length (mark_sent now rid box) = length box"
  by (simp add: mark_sent_def)

lemma outbox_record_mark_sent:
  "outbox_record ` set (mark_sent now rid box) = outbox_record ` set box"
proof -
  have "map outbox_record (mark_sent now rid box) = map outbox_record box"
    unfolding mark_sent_def by (rule map_key_update_where) (simp add: outbox_record_def)
  then show ?thesis by (metis set_map)
qed

lemma ob_aggregate_mark_sent:
  "ob_aggregate ` set (mark_sent now rid box) = ob_aggregate ` set box"
proof -
  have "map ob_aggregate (mark_sent now rid box) = map ob_aggregate box"
    unfolding mark_sent_def by (rule map_key_update_where) simp
  then show ?thesis by (metis set_map)
qed

lemma no_events_without_order:
  "\<forall>e \<in> set box. has_key or_id (ob_aggregate e) os \<Longrightarrow> \<not> has_key or_id oid os \<Longrightarrow>
   box_events oid ty box = []"
  by (auto simp: box_events_def filter_empty_conv)

lemma event_types_distinct [simp]:
  "EventTypeOrderCreated \<noteq> EventTypeOrderConfirmed" "EventTypeOrderCreated \<noteq> EventTypeOrderCancelled"
  "EventTypeOrderConfirmed \<noteq> EventTypeOrderCancelled"
  "EventTypeOrderConfirmed \<noteq> EventTypeOrderCreated" "EventTypeOrderCancelled \<noteq> EventTypeOrderCreated"
  "EventTypeOrderCancelled \<noteq> EventTypeOrderConfirmed"
  by (simp_all add: event_type_defs)

lemma has_key_update_where:
  "(\<And>r. p r \<Longrightarrow> key (f r) = key r) \<Longrightarrow> has_key key k (update_where p f t) = has_key key k t"
  by (simp add: has_key_def map_key_update_where del: set_map)

lemma version_of_awaiting: "version_of st = 2 \<longleftrightarrow> st = StatusAwaitingStock"
  by (cases st) auto

section \<open>Every transaction keeps the invariant\<close>

lemma order_inv_saved:
  assumes inv: "order_inv db" and fresh: "\<not> has_key or_id (ID ord) (orders db)"
    and ord: "Status ord = StatusCreated" "Version ord = 1"
    and rid: "rid \<notin> set (map ob_id (order_outbox db))" and q: "int4_quantities (Items ord)"
  shows "order_inv (saved rid now ord EventTypeOrderCreated payload db)"
proof -
  let ?box = "order_outbox db @ [new_outbox_row rid (ID ord) EventTypeOrderCreated payload now]"
  note none = no_events_without_order [OF _ fresh, of "order_outbox db"]
  have "row_inv ?box (order_to_row ord)"
    using ord none inv by (simp add: row_inv_def box_events_append box_events_new order_inv_def)
  moreover have "row_inv ?box r" if "r \<in> set (orders db)" for r
  proof -
    have "or_id r \<noteq> ID ord" using that fresh unfolding has_key_def by (metis imageI set_map)
    then show ?thesis
      using inv that by (auto simp: row_inv_def box_events_append box_events_new order_inv_def)
  qed
  ultimately show ?thesis
    using inv fresh rid q
    by (auto simp: order_inv_def primary_key_saved has_key_def item_to_row_def int4_quantities_def list_all_iff)
qed

lemma order_inv_status_updated:
  assumes inv: "order_inv db" and ord: "read_inv ord"
    and tr: "TransitionTo ord new t = Inr ord'" and ev: "buildStatusEvent ord' new reason = Inr (ty, payload)"
    and rid: "rid \<notin> set (map ob_id (order_outbox db))"
    and locked: "rows_affected (locked_row ord') (orders db) \<noteq> 0"
  shows "order_inv (status_updated rid tm ord' ty payload db)"
proof -
  let ?box = "order_outbox db @ [new_outbox_row rid (ID ord') ty payload (tm 1)]"
  let ?orders = "update_where (locked_row ord') (set_status (Status ord') (tm 0)) (orders db)"
  have st: "Status ord = StatusAwaitingStock" "ID ord' = ID ord" "Version ord' = 2" "Status ord' = new"
    and new: "new = StatusConfirmed \<and> ty = EventTypeOrderConfirmed
      \<or> new = StatusCancelled \<and> ty = EventTypeOrderCancelled"
    using tr ord buildStatusEvent_Inr [OF ev]
    by (cases "Status ord"; auto simp: go_simps read_inv_def split: if_splits)+
  from locked obtain row where row: "row \<in> set (orders db)" "or_id row = ID ord" "or_version row = 2"
    by (auto simp: rows_affected_0 locked_row_def st)
  have row_st: "or_status row = StatusAwaitingStock"
    using inv row(1,3) by (auto simp: order_inv_def row_inv_def version_of_awaiting)
  have uniq: "r = row" if "r \<in> set (orders db)" "or_id r = ID ord" for r
    proof (rule distinct_map_eqD [of or_id])
    show "distinct (map or_id (orders db))" using inv by (simp add: order_inv_def primary_key_def)
  qed (use that row in auto)
  have "row_inv ?box r" if "r \<in> set ?orders" for r
  proof -
    from that obtain r0 where r0: "r0 \<in> set (orders db)"
      "r = (if locked_row ord' r0 then set_status new (tm 0) r0 else r0)"
      by (auto simp: update_where_def st)
    have i0: "row_inv (order_outbox db) r0" using inv r0(1) by (simp add: order_inv_def)
    show ?thesis
    proof (cases "or_id r0 = ID ord")
      case True
      then have "r0 = row" using uniq r0(1) by blast
      then show ?thesis
        using i0 r0(2) row row_st new st
        by (auto simp: row_inv_def locked_row_def box_events_append box_events_new)
    next
      case False
      then show ?thesis
        using i0 r0(2) st by (auto simp: row_inv_def locked_row_def box_events_append box_events_new)
    qed
  qed
  moreover have "has_key or_id k ?orders = has_key or_id k (orders db)" for k
    by (rule has_key_update_where) simp
  moreover have "has_key or_id (ID ord') (orders db)"
    using row st(2) unfolding has_key_def by (metis imageI set_map)
  ultimately show ?thesis
    using inv rid by (auto simp: order_inv_def primary_key_updated)
qed

lemma order_worker_body_Inr:
  assumes "order_worker_body f tm k rec tx = Inr tx'"
  shows "order_outbox tx' = mark_sent (tm k) (rec_ID rec) (order_outbox tx)"
    and "order_items tx' = order_items tx"
    and "orders tx' = (if rec_EventType rec = EventTypeOrderCreated
           then update_where (\<lambda>r. or_id r = rec_AggregateID rec \<and> or_status r = StatusCreated)
                  (set_status StatusAwaitingStock (tm k)) (orders tx)
           else orders tx)"
  using assms
  by (auto simp: order_worker_body_def markSentTx_def transitionToAwaitingStockTx_def
      split: option.splits sum.splits if_splits)

interpretation ow: outbox_worker order_outbox tm "order_worker_body f tm" for f tm
  by unfold_locales (rule order_worker_body_Inr)

interpretation owr: reliable_outbox_worker order_outbox tm "order_worker_body no_faults tm" for tm
  by unfold_locales (simp add: order_worker_body_def markSentTx_def transitionToAwaitingStockTx_def)

lemma row_inv_mark_other:
  assumes "row_inv box r" and "e \<in> set box" and "distinct (map ob_id box)"
    and "\<not> (ob_type e = EventTypeOrderCreated \<and> ob_aggregate e = or_id r)"
  shows "row_inv (mark_sent now (ob_id e) box) r"
proof -
  have "ob_id e \<notin> ob_id ` set (box_events (or_id r) EventTypeOrderCreated box)"
    using assms(2-4) by (auto simp: box_events_def distinct_map dest: inj_onD)
  then show ?thesis
    using assms(1) by (simp add: row_inv_def box_events_mark_sent mark_sent_other)
qed

lemma row_inv_mark_created:
  assumes "row_inv box r" and "e \<in> set box"
    and "ob_type e = EventTypeOrderCreated" and "ob_aggregate e = or_id r"
  shows "row_inv (mark_sent now (ob_id e) box)
    (if or_status r = StatusCreated then set_status StatusAwaitingStock now r else r)"
proof -
  let ?ev = "box_events (or_id r) EventTypeOrderCreated box"
  have "length ?ev = 1" using assms(1) by (auto simp: row_inv_def dest: arg_cong [of _ _ length])
  moreover have "e \<in> set ?ev" using assms(2-4) by (simp add: box_events_def)
  ultimately have "?ev = [e]" by (cases ?ev) auto
  then have "map ob_status (mark_sent now (ob_id e) ?ev) = [SENT]"
    by (simp add: mark_sent_def update_where_def)
  with assms(1) show ?thesis
    by (auto simp: row_inv_def box_events_mark_sent)
qed

lemma order_inv_worker_body:
  assumes inv: "order_inv tx" and b: "order_worker_body f tm k rec tx = Inr tx'"
    and rec: "rec \<in> outbox_record ` set (order_outbox tx)"
  shows "order_inv tx'"
proof -
  from rec obtain e where e: "e \<in> set (order_outbox tx)" "rec = outbox_record e" by auto
  have f: "rec_ID rec = ob_id e" "rec_EventType rec = ob_type e" "rec_AggregateID rec = ob_aggregate e"
    by (simp_all add: e(2) outbox_record_def)
  note tx' = order_worker_body_Inr [OF b, unfolded f]
  have dist: "distinct (map ob_id (order_outbox tx))" using inv by (simp add: order_inv_def)
  have "row_inv (order_outbox tx') r" if r: "r \<in> set (orders tx')" for r
  proof -
    from r obtain r0 where r0: "r0 \<in> set (orders tx)" and
      r_eq: "r = (if ob_type e = EventTypeOrderCreated \<and> or_id r0 = ob_aggregate e \<and> or_status r0 = StatusCreated
        then set_status StatusAwaitingStock (tm k) r0 else r0)"
      unfolding tx'(3) by (auto simp: update_where_def split: if_splits)
    have i0: "row_inv (order_outbox tx) r0" using inv r0 by (simp add: order_inv_def)
    show ?thesis
    proof (cases "ob_type e = EventTypeOrderCreated \<and> ob_aggregate e = or_id r0")
      case True
      then have "r = (if or_status r0 = StatusCreated then set_status StatusAwaitingStock (tm k) r0 else r0)"
        using r_eq by auto
      with row_inv_mark_created [OF i0 e(1)] True show ?thesis by (simp add: tx'(1))
    next
      case False
      then have "r = r0" using r_eq by auto
      with row_inv_mark_other [OF i0 e(1) dist False] show ?thesis by (simp add: tx'(1))
    qed
  qed
  moreover have ids: "map or_id (orders tx') = map or_id (orders tx)"
    unfolding tx'(3) by (simp add: map_key_update_where)
  moreover have "has_key or_id (ob_aggregate e') (orders tx')" if "e' \<in> set (order_outbox tx')" for e'
  proof -
    have "ob_aggregate e' \<in> ob_aggregate ` set (order_outbox tx)"
      using that tx'(1) ob_aggregate_mark_sent by (metis imageI)
    then show ?thesis using inv ids by (auto simp: order_inv_def has_key_def simp del: set_map)
  qed
  ultimately show ?thesis
    using inv tx'(1,2) by (auto simp: order_inv_def primary_key_def has_key_def simp del: set_map)
qed

lemma order_inv_loop:
  "publish_loop pub (order_worker_body f tm) k recs tx log = (Inr tx', log') \<Longrightarrow> order_inv tx \<Longrightarrow>
   set recs \<subseteq> outbox_record ` set (order_outbox tx) \<Longrightarrow> order_inv tx'"
proof (induction recs arbitrary: k tx log)
  case (Cons rec recs)
  from Cons.prems(1) obtain tx1 log1 where b: "order_worker_body f tm k rec tx = Inr tx1"
    and rest: "publish_loop pub (order_worker_body f tm) (Suc k) recs tx1 log1 = (Inr tx', log')"
    by (auto split: prod.splits option.splits sum.splits)
  have "outbox_record ` set (order_outbox tx1) = outbox_record ` set (order_outbox tx)"
    unfolding order_worker_body_Inr(1) [OF b] by (rule outbox_record_mark_sent)
  with Cons.IH [OF rest] order_inv_worker_body [OF Cons.prems(2) b] Cons.prems(3) show ?case by simp
qed simp

lemma processBatch_tick:
  "order_processBatch f fq locked pub tm batch db log gauge = (r, db', log', gauge') \<Longrightarrow>
   process_batch f locked pub batch order_outbox (order_worker_body f tm) db log = (r, db', log')"
  by (auto simp: order_processBatch_def split: prod.splits option.splits)

lemma order_inv_processBatch:
  assumes "order_processBatch f fq locked pub tm batch db log gauge = (r, db', log', gauge')"
    and "order_inv db"
  shows "order_inv db'"
  using processBatch_tick [OF assms(1)]
proof (cases rule: ow.tick_cases)
  case (sent rs)
  have "set (map outbox_record rs) \<subseteq> outbox_record ` set (order_outbox db)"
    unfolding sent(1) using set_delivered set_pending_batch by fastforce
  then show ?thesis using order_inv_loop [OF sent(2)] assms(2) by blast
qed (use assms(2) in simp)

lemma read_inv_GetByID:
  assumes "GetByID f oid db = Inr ord" and "order_inv db"
  shows "read_inv ord"
  using assms by (auto elim!: GetByID_Inr dest!: find_row_Some simp: read_inv_def order_inv_def row_inv_def)

lemma order_sys_step_inv:
  assumes "order_sys_step s s'" and "order_inv (os_db s)" and "\<forall>ord \<in> set (os_reads s). read_inv ord"
  shows "order_inv (os_db s') \<and> (\<forall>ord \<in> set (os_reads s'). read_inv ord)"
  using assms
proof (induction rule: order_sys_step.induct)
  case (create_order oid cust items t ord payload rid s f now r db')
  from create_order.hyps(4) have "order_inv db'"
    by (cases rule: SaveWithEvent_cases)
      (use create_order NewOrder_fields [OF create_order.hyps(1)] in \<open>auto intro!: order_inv_saved\<close>)
  with create_order show ?case by simp
next
  case (read_order f oid s ord)
  then show ?case by (auto dest: read_inv_GetByID)
next
  case (write_status ord s new t ord' reason ty payload rid f tm r db')
  from write_status.hyps(5) have "order_inv db'"
    by (cases rule: UpdateStatusWithEvent_cases)
      (use write_status in \<open>auto intro: order_inv_status_updated\<close>)
  with write_status show ?case by simp
next
  case (worker_tick f fq locked pub tm batch s gauge r db' log' gauge')
  then show ?case by (auto dest: order_inv_processBatch)
qed

lemma order_inv_empty: "order_inv empty_order_db"
  by (simp add: order_inv_def empty_order_db_def primary_key_def)

lemma reachable_invs:
  "order_sys_reachable s \<Longrightarrow> order_inv (os_db s) \<and> (\<forall>ord \<in> set (os_reads s). read_inv ord)"
  by (induction rule: order_sys_reachable.induct)
    (auto simp: order_sys_init_def order_inv_empty dest: order_sys_step_inv)

section \<open>Changes of a status\<close>

text \<open>One transition of the status machine, with the version it takes, or none.\<close>

definition moves :: "(OrderStatus \<times> int) option \<Rightarrow> (OrderStatus \<times> int) option \<Rightarrow> bool" where
  "moves a b \<longleftrightarrow> (\<forall>st v. a = Some (st, v) \<longrightarrow>
     (b = a \<or> (\<exists>st' \<in> set (allowedTransactions st). b = Some (st', v + 1))))"

lemma moves_refl [simp]: "moves a a"
  by (simp add: moves_def)

text \<open>What one record does to the stored orders, and hence what a tick does.\<close>

definition released :: "(OrderStatus \<times> int) option \<Rightarrow> (OrderStatus \<times> int) option \<Rightarrow> bool" where
  "released a b \<longleftrightarrow> b = a \<or> (\<exists>v. a = Some (StatusCreated, v) \<and> b = Some (StatusAwaitingStock, v + 1))"

lemma released_trans: "released a b \<Longrightarrow> released b c \<Longrightarrow> released a c"
  by (auto simp: released_def)

lemma released_moves: "released a b \<Longrightarrow> moves a b"
  by (auto simp: released_def moves_def)

lemma released_worker_body:
  "order_worker_body f tm k rec tx = Inr tx' \<Longrightarrow> released (stored_order tx oid) (stored_order tx' oid)"
  by (cases "find_row or_id oid (orders tx)")
    (auto simp: order_worker_body_Inr(3) stored_order_def find_row_update_where released_def)

lemma released_loop:
  "publish_loop pub (order_worker_body f tm) k recs tx log = (Inr tx', log') \<Longrightarrow>
   released (stored_order tx oid) (stored_order tx' oid)"
proof (induction recs arbitrary: k tx log)
  case Nil
  then show ?case by (simp add: released_def)
next
  case (Cons rec recs)
  from Cons.prems(1) obtain tx1 log1 where b: "order_worker_body f tm k rec tx = Inr tx1"
    and rest: "publish_loop pub (order_worker_body f tm) (Suc k) recs tx1 log1 = (Inr tx', log')"
    by (auto split: prod.splits option.splits sum.splits)
  show ?case using released_trans [OF released_worker_body [OF b] Cons.IH [OF rest]] .
qed

lemma released_processBatch:
  assumes "order_processBatch f fq locked pub tm batch db log gauge = (r, db', log', gauge')"
  shows "released (stored_order db oid) (stored_order db' oid)"
  using processBatch_tick [OF assms(1)]
proof (cases rule: ow.tick_cases)
  case (sent rs)
  then show ?thesis using released_loop by blast
qed (simp add: released_def)

lemma moves_save:
  assumes "SaveWithEvent f rid now ord ty payload db = (r, db')"
  shows "moves (stored_order db oid) (stored_order db' oid)"
  using assms
proof (cases rule: SaveWithEvent_cases)
  case saved
  then have "stored_order db (ID ord) = None" by (simp add: stored_order_def find_row_None)
  with saved show ?thesis by (auto simp: stored_order_saved moves_def)
qed simp

lemma moves_write:
  assumes "UpdateStatusWithEvent f rid tm ord' ty payload db = (r, db')"
    and "TransitionTo ord new t = Inr ord'" and "buildStatusEvent ord' new reason = Inr (ty, payload)"
    and "read_inv ord" and "order_inv db"
  shows "moves (stored_order db oid) (stored_order db' oid)"
  using assms(1)
proof (cases rule: UpdateStatusWithEvent_cases)
  case updated
  have pk: "primary_key db" using assms(5) by (simp add: order_inv_def)
  have ord': "Version ord' = Version ord" "Status ord' = new" "new \<in> set (allowedTransactions (Status ord))"
    using assms(2) by (auto simp: go_simps split: if_splits)
  obtain row where row: "row \<in> set (orders db)" "or_id row = ID ord'" "or_version row = Version ord"
    using updated(2) ord' by (auto simp: rows_affected_0 locked_row_def)
  have rst: "row_inv (order_outbox db) row" using assms(5) row by (simp add: order_inv_def)
  have "find_row or_id (ID ord') (orders db) = Some row"
    using find_row_distinct [of or_id] pk row unfolding primary_key_def by blast
  then have "stored_order db (ID ord') = Some (or_status row, Version ord)"
    using row by (simp add: stored_order_def)
  moreover have "or_status row = Status ord"
    using rst row(3) assms(4) ord'(3) buildStatusEvent_Inr [OF assms(3)]
    by (cases "or_status row"; cases "Status ord") (auto simp: row_inv_def read_inv_def)
  ultimately show ?thesis
    using stored_order_locked [OF pk updated(2)] updated(1) ord' by (auto simp: moves_def)
qed simp

text \<open>
  Property C7 (invariant). Whatever requests, stock results and workers run, with whatever
  failures, every order in the database keeps the version its status stands for, has exactly one
  \<open>order.created\<close> event, which is marked as sent exactly when the order has left
  \<open>CREATED\<close>, has one \<open>order.confirmed\<close> event exactly when it is confirmed and one
  \<open>order.cancelled\<close> event exactly when it is cancelled; no line and no event is without its
  order.
\<close>

theorem order_sys_invariant: "order_sys_reachable s \<Longrightarrow> order_inv (os_db s)"
  using reachable_invs by blast

text \<open>
  Property C8 (safety). In every reachable state every transaction, also a write whose
  read is outdated, leaves each stored order as it is or takes it along one edge of the status
  machine and adds one to its version.
\<close>

theorem order_sys_transitions:
  assumes "order_sys_reachable s" and "order_sys_step s s'"
    and "stored_order (os_db s) oid = Some (st, v)"
  shows "stored_order (os_db s') oid = Some (st, v)
    \<or> (\<exists>st' \<in> set (allowedTransactions st). stored_order (os_db s') oid = Some (st', v + 1))"
proof -
  have "moves (stored_order (os_db s) oid) (stored_order (os_db s') oid)"
    using assms(2,1)
  proof (induction rule: order_sys_step.induct)
    case (worker_tick f fq locked pub tm batch s gauge r db' log' gauge')
    then show ?case using released_moves released_processBatch by fastforce
  qed (auto intro: moves_save moves_write dest: reachable_invs)
  with assms(3) show ?thesis by (simp add: moves_def)
qed

lemma respects_order_versions_step:
  assumes "order_sys_reachable s" and "order_sys_step s s'"
  shows "respects_order_versions (os_db s) (os_db s')"
proof -
  have "primary_key (os_db s')"
    using reachable_invs [OF order_sys_reachable.step [OF assms]] by (simp add: order_inv_def)
  then show ?thesis using order_sys_transitions [OF assms] by (fastforce simp: respects_order_versions_def)
qed

section \<open>Delivery\<close>

lemma sent_published_append:
  "sent_published t log \<Longrightarrow> ob_status e = PENDING \<Longrightarrow> sent_published (t @ [e]) log"
  by (auto simp: sent_published_def)

lemma order_sys_step_published:
  assumes "order_sys_step s s'" and "order_sys_reachable s" and "sent_published (order_outbox (os_db s)) (os_log s)"
  shows "sent_published (order_outbox (os_db s')) (os_log s')"
  using assms
proof (induction rule: order_sys_step.induct)
  case (create_order oid cust items t ord payload rid s f now r db')
  from create_order.hyps(4) show ?case
    by (cases rule: SaveWithEvent_cases) (use create_order.prems in \<open>auto intro: sent_published_append\<close>)
next
  case (write_status ord s new t ord' reason ty payload rid f tm r db')
  from write_status.hyps(5) show ?case
    by (cases rule: UpdateStatusWithEvent_cases) (use write_status.prems in \<open>auto intro: sent_published_append\<close>)
next
  case (worker_tick f fq locked pub tm batch s gauge r db' log' gauge')
  have "distinct (map ob_id (order_outbox (os_db s)))"
    using reachable_invs [OF worker_tick.prems(1)] by (simp add: order_inv_def)
  with ow.tick_sent_published [OF processBatch_tick [OF worker_tick.hyps] worker_tick.prems(2)]
  show ?case by simp
qed simp

lemma reachable_published:
  "order_sys_reachable s \<Longrightarrow> sent_published (order_outbox (os_db s)) (os_log s)"
proof (induction rule: order_sys_reachable.induct)
  case init
  then show ?case by (simp add: order_sys_init_def empty_order_db_def sent_published_def)
qed (rule order_sys_step_published)

lemma row_inv_created_event:
  assumes "row_inv box r"
  obtains e where "e \<in> set box" "ob_aggregate e = or_id r" "ob_type e = EventTypeOrderCreated"
    "ob_status e = (if or_status r = StatusCreated then PENDING else SENT)"
proof -
  obtain e where "box_events (or_id r) EventTypeOrderCreated box = [e]"
    and e: "ob_status e = (if or_status r = StatusCreated then PENDING else SENT)"
    using assms by (auto simp: row_inv_def)
  then have "e \<in> set (box_events (or_id r) EventTypeOrderCreated box)" by simp
  then have "e \<in> set box \<and> ob_aggregate e = or_id r \<and> ob_type e = EventTypeOrderCreated"
    by (simp add: box_events_def)
  then show thesis using that e by blast
qed

text \<open>
  Property C15 (safety). At least once: in every reachable state every event marked as sent
  is in Kafka, and so is the \<open>order.created\<close> event of every order that has left
  \<open>CREATED\<close>, keyed with the order's id.
\<close>

theorem order_sys_at_least_once:
  assumes "order_sys_reachable s"
  shows "sent_published (order_outbox (os_db s)) (os_log s)
    \<and> (\<forall>r \<in> set (orders (os_db s)). or_status r \<noteq> StatusCreated \<longrightarrow>
         (\<exists>m \<in> set (os_log s). msg_topic m = EventTypeOrderCreated \<and> msg_key m = or_id r))"
proof (intro conjI ballI impI)
  show pub: "sent_published (order_outbox (os_db s)) (os_log s)" using reachable_published [OF assms] .
  fix r assume r: "r \<in> set (orders (os_db s))" "or_status r \<noteq> StatusCreated"
  have "row_inv (order_outbox (os_db s)) r"
    using reachable_invs [OF assms] r(1) by (simp add: order_inv_def)
  then obtain e where "e \<in> set (order_outbox (os_db s))" "ob_aggregate e = or_id r"
    "ob_type e = EventTypeOrderCreated" "ob_status e = SENT"
    using r(2) by (auto elim: row_inv_created_event)
  with pub show "\<exists>m \<in> set (os_log s). msg_topic m = EventTypeOrderCreated \<and> msg_key m = or_id r"
    by (intro bexI [of _ "row_message e"]) (auto simp: sent_published_def row_message_def)
qed

lemma order_ids_loop:
  "publish_loop pub (order_worker_body f tm) k recs tx log = (Inr tx', log') \<Longrightarrow>
   map or_id (orders tx') = map or_id (orders tx)"
proof (induction recs arbitrary: k tx log)
  case (Cons rec recs)
  from Cons.prems(1) obtain tx1 log1 where b: "order_worker_body f tm k rec tx = Inr tx1"
    and rest: "publish_loop pub (order_worker_body f tm) (Suc k) recs tx1 log1 = (Inr tx', log')"
    by (auto split: prod.splits option.splits sum.splits)
  have "map or_id (orders tx1) = map or_id (orders tx)"
    unfolding order_worker_body_Inr(3) [OF b] by (simp add: map_key_update_where)
  with Cons.IH [OF rest] show ?case by simp
qed simp

lemma order_ids_processBatch:
  assumes "order_processBatch f fq locked pub tm batch db log gauge = (r, db', log', gauge')"
  shows "map or_id (orders db') = map or_id (orders db)"
  using processBatch_tick [OF assms]
proof (cases rule: ow.tick_cases)
  case (sent rs)
  then show ?thesis using order_ids_loop by blast
qed simp

section \<open>The worker's loop\<close>

definition order_worker_Run ::
  "nat \<Rightarrow> tick_env worker_event list \<Rightarrow> order_db \<times> message list \<times> nat \<Rightarrow> order_db \<times> message list \<times> nat" where
  "order_worker_Run batch evs st =
     run_worker (\<lambda>e (db, log, gauge). order_processBatch (te_faults e) (te_metric e) (te_locked e) (te_publish e)
       (te_now e) batch db log gauge) evs st"

text \<open>What every tick keeps, whatever fails in it.\<close>

definition worker_inv :: "string list \<Rightarrow> nat \<Rightarrow> order_db \<times> message list \<times> nat \<Rightarrow> bool" where
  "worker_inv oids waiting st \<longleftrightarrow> (case st of (db, log, _) \<Rightarrow>
     order_inv db \<and> sent_published (order_outbox db) log \<and> map or_id (orders db) = oids
     \<and> length (pending (order_outbox db)) \<le> waiting)"

lemma worker_inv_tick:
  assumes "order_processBatch f fq locked pub tm batch db log gauge = (r, st')"
    and "worker_inv oids waiting (db, log, gauge)"
  shows "worker_inv oids waiting st'"
proof -
  obtain db' log' gauge' where st': "st' = (db', log', gauge')" by (cases st')
  note tick = processBatch_tick [OF assms(1) [unfolded st']]
  have "distinct (map ob_id (order_outbox db))"
    using assms(2) by (simp add: worker_inv_def order_inv_def)
  with assms(2) show ?thesis
    using order_inv_processBatch [OF assms(1) [unfolded st']] ow.tick_sent_published [OF tick]
      order_ids_processBatch [OF assms(1) [unfolded st']] ow.tick_pending_le [OF tick]
    by (simp add: worker_inv_def st')
qed

lemma worker_Run_inv:
  assumes "worker_inv oids waiting st"
  shows "worker_inv oids waiting (order_worker_Run batch evs st)"
  unfolding order_worker_Run_def
proof (rule run_worker_inv [where P = "worker_inv oids waiting", OF _ assms])
  fix e and st :: "order_db \<times> message list \<times> nat"
  assume inv: "worker_inv oids waiting st"
  obtain db log gauge where "st = (db, log, gauge)" by (cases st)
  with inv show "worker_inv oids waiting (snd ((\<lambda>(db, log, gauge). order_processBatch (te_faults e) (te_metric e)
      (te_locked e) (te_publish e) (te_now e) batch db log gauge) st))"
    by (auto intro: worker_inv_tick [OF prod.collapse [symmetric]])
qed

lemma worker_Run_quiet:
  "worker_inv oids waiting st \<Longrightarrow>
   worker_inv oids (waiting - n * batch) (order_worker_Run batch (replicate n (Tick (quiet_tick tm))) st)"
proof (induction n arbitrary: st waiting)
  case (Suc n)
  obtain db log gauge where st: "st = (db, log, gauge)" by (cases st)
  obtain r db1 log1 g where t: "order_processBatch no_faults None (\<lambda>_. False) (\<lambda>_. Acked) tm batch db log gauge
      = (r, db1, log1, g)" by (metis prod.exhaust)
  have dist: "distinct (map ob_id (order_outbox db))"
    using Suc.prems by (simp add: worker_inv_def order_inv_def st)
  have "length (pending (order_outbox db1)) = length (pending (order_outbox db)) - batch"
    by (rule owr.tick_drains [OF _ dist processBatch_tick [OF t]]) simp
  then have "worker_inv oids (waiting - batch) (db1, log1, g)"
    using worker_inv_tick [OF t] Suc.prems by (auto simp: worker_inv_def st)
  from Suc.IH [OF this] show ?case
    by (simp add: order_worker_Run_def quiet_tick_def st t diff_diff_left)
qed (simp add: order_worker_Run_def)

text \<open>
  Property C25 (liveness). The worker recovers and drains the outbox: it starts on a database that
  keeps the invariant, meets any number of ticks in which anything fails (the database, Kafka, the
  acknowledgements), and after as many undisturbed ticks as cover the events that were pending, none
  is pending, every event is in Kafka, no order is still in \<open>CREATED\<close> and no order was
  lost.
\<close>

theorem order_worker_drains:
  assumes "order_inv db" and "sent_published (order_outbox db) log"
    and "length (pending (order_outbox db)) \<le> n * batch"
  shows "case order_worker_Run batch (map Tick disturbed @ replicate n (Tick (quiet_tick tm))) (db, log, gauge) of
      (db', log', _) \<Rightarrow>
    pending (order_outbox db') = [] \<and> (\<forall>e \<in> set (order_outbox db'). row_message e \<in> set log')
    \<and> map or_id (orders db') = map or_id (orders db)
    \<and> (\<forall>r \<in> set (orders db'). or_status r \<noteq> StatusCreated)"
proof -
  obtain db' log' gauge' where
    t: "order_worker_Run batch (map Tick disturbed @ replicate n (Tick (quiet_tick tm))) (db, log, gauge) = (db', log', gauge')"
    by (metis prod.exhaust)
  have "worker_inv (map or_id (orders db)) (n * batch) (db, log, gauge)"
    using assms by (simp add: worker_inv_def)
  from worker_Run_quiet [OF worker_Run_inv [OF this, of batch "map Tick disturbed"], of n batch tm]
  have i: "worker_inv (map or_id (orders db)) 0 (db', log', gauge')"
    using t by (simp add: order_worker_Run_def run_worker_ticks)
  then have none: "pending (order_outbox db') = []" by (simp add: worker_inv_def)
  then have sent: "ob_status e = SENT" if "e \<in> set (order_outbox db')" for e
    using that by (cases "ob_status e") (auto simp: pending_def filter_empty_conv)
  have "or_status r \<noteq> StatusCreated" if "r \<in> set (orders db')" for r
  proof -
    have "row_inv (order_outbox db') r" using i that by (simp add: worker_inv_def order_inv_def)
    then show ?thesis using sent by (metis outbox_status.distinct(1) row_inv_created_event)
  qed
  with none sent i show ?thesis by (auto simp: t worker_inv_def sent_published_def)
qed

text \<open>
  A tick of the worker that fails, at whatever statement or write,
  changes neither the database nor the metric, unless the commit took effect and only its answer
  was lost; what it had already written to Kafka is published again by a later tick.
\<close>

theorem order_worker_error_atomic:
  assumes "order_processBatch f fq locked pub tm batch db log gauge = (Some e, db', log', gauge')"
    and "\<forall>m. f_commit f \<noteq> CommitUnknown m"
  shows "db' = db \<and> gauge' = gauge \<and> (\<exists>new. log' = log @ new)"
proof -
  note tick = processBatch_tick [OF assms(1)]
  have "gauge' = gauge" using assms(1) by (auto simp: order_processBatch_def split: prod.splits option.splits)
  moreover have "\<exists>new. log' = log @ new" using tick by (cases rule: ow.tick_cases) auto
  ultimately show ?thesis using ow.tick_error_atomic [OF tick assms(2)] by blast
qed

lemma items_of_saved:
  assumes "order_inv db" and "\<not> has_key or_id (ID ord) (orders db)"
  shows "map row_to_item (items_of (ID ord) (saved rid now ord ty payload db)) = Items ord"
proof -
  have "items_of (ID ord) db = []"
    using assms by (auto simp: items_of_def filter_empty_conv order_inv_def)
  moreover have "filter (\<lambda>r. ir_order_id r = ID ord) (map (item_to_row (ID ord)) its)
      = map (item_to_row (ID ord)) its" for its
    by (simp add: filter_map o_def item_to_row_def)
  ultimately show ?thesis
    by (simp add: items_of_def saved_def o_def)
qed

text \<open>
  An order that was saved is read back as it was: with the same
  status, version, customer and total, the same lines (as a multiset: the query does not order
  them) and its times cut to the microseconds a column keeps.
\<close>

theorem save_then_get:
  assumes "SaveWithEvent f rid now ord ty payload db = (None, db')" and "order_inv db"
  shows "\<exists>items. GetByID no_faults (ID ord) db'
      = Inr (ord\<lparr>Items := items, CreatedAt := timestamptz (CreatedAt ord),
               UpdatedAt := timestamptz (UpdatedAt ord)\<rparr>)
    \<and> mset items = mset (Items ord)"
proof -
  have db': "db' = saved rid now ord ty payload db" and new: "\<not> has_key or_id (ID ord) (orders db)"
    using SaveWithEvent_None [OF assms(1)] by auto
  have "find_row or_id (ID ord) (orders db') = Some (order_to_row ord)"
    using new by (simp add: db' find_row_append find_row_Cons find_row_None [symmetric])
  with items_of_saved [OF assms(2) new] show ?thesis
    by (intro exI [of _ "Items ord"]) (simp add: GetByID_no_faults db')
qed

section \<open>A run\<close>

text \<open>An order is created, a worker publishes its event, its stock is reserved.\<close>

definition sample_created :: order_sys where
  "sample_created = \<lparr>os_db = saved ''r1'' sample_time sample_order EventTypeOrderCreated sample_payload empty_order_db,
     os_reads = [], os_log = []\<rparr>"

lemma step_sample_created: "order_sys_step order_sys_init sample_created"
  using order_sys_step.create_order [OF NewOrder_sample marshal_sample, of "''r1''" order_sys_init no_faults sample_time None]
    save_sample by (simp add: order_sys_init_def sample_created_def empty_order_db_def)

lemma reachable_sample_created: "order_sys_reachable sample_created"
  using order_sys_reachable.step [OF order_sys_reachable.init step_sample_created] .

definition sample_published :: order_sys where
  "sample_published =
     (case order_processBatch no_faults None (\<lambda>_. False) (\<lambda>_. Acked) (\<lambda>_. sample_time) 10
             (os_db sample_created) [] 0 of
        (_, db', log', _) \<Rightarrow> \<lparr>os_db = db', os_reads = [], os_log = log'\<rparr>)"

lemma step_sample_published: "order_sys_step sample_created sample_published"
proof -
  obtain r db' log' g where p: "order_processBatch no_faults None (\<lambda>_. False) (\<lambda>_. Acked) (\<lambda>_. sample_time) 10
      (os_db sample_created) (os_log sample_created) 0 = (r, db', log', g)"
    by (metis prod.exhaust)
  then have "sample_published = sample_created\<lparr>os_db := db', os_log := log'\<rparr>"
    by (simp add: sample_published_def sample_created_def)
  with order_sys_step.worker_tick [OF p] show ?thesis by simp
qed

lemma sample_published_db:
  "stored_order (os_db sample_published) ''o1'' = Some (StatusAwaitingStock, 2)"
  by (simp add: sample_published_def sample_created_def order_processBatch_def process_batch_def
      fetch_pending_def pending_batch_def pending_def saved_def empty_order_db_def new_outbox_row_def
      outbox_record_def Publish_def order_worker_body_def markSentTx_def transitionToAwaitingStockTx_def
      stored_order_def find_row_update_where find_row_Cons sample_order_def)

theorem order_sys_invariant_witness:
  "order_sys_reachable sample_published \<and> order_inv (os_db sample_published)"
proof -
  have "order_sys_reachable sample_published"
    using order_sys_reachable.step [OF reachable_sample_created step_sample_published] .
  then show ?thesis using order_sys_invariant by blast
qed

theorem order_sys_transitions_witness:
  "stored_order (os_db sample_created) ''o1'' = Some (StatusCreated, 1)
    \<and> stored_order (os_db sample_published) ''o1'' = Some (StatusAwaitingStock, 2)
    \<and> (stored_order (os_db sample_published) ''o1'' = Some (StatusCreated, 1)
      \<or> (\<exists>st' \<in> set (allowedTransactions StatusCreated).
           stored_order (os_db sample_published) ''o1'' = Some (st', 1 + 1)))"
proof -
  have s: "stored_order (os_db sample_created) ''o1'' = Some (StatusCreated, 1)"
    by (simp add: sample_created_def empty_order_db_def stored_order_def find_row_Cons sample_order_def)
  show ?thesis
    using s sample_published_db
      order_sys_transitions [OF reachable_sample_created step_sample_published s] by simp
qed

theorem order_sys_at_least_once_witness:
  "order_sys_reachable sample_published \<and> stored_order (os_db sample_published) ''o1'' = Some (StatusAwaitingStock, 2)
    \<and> (\<exists>m \<in> set (os_log sample_published). msg_topic m = EventTypeOrderCreated \<and> msg_key m = ''o1'')"
proof -
  have r: "order_sys_reachable sample_published"
    using order_sys_reachable.step [OF reachable_sample_created step_sample_published] .
  obtain row where "row \<in> set (orders (os_db sample_published))" "or_id row = ''o1''"
    "or_status row = StatusAwaitingStock"
    using sample_published_db by (auto simp: stored_order_def dest: find_row_Some)
  then show ?thesis using order_sys_at_least_once [OF r] r sample_published_db by fastforce
qed

theorem order_worker_drains_witness:
  "length (pending (order_outbox (os_db sample_created))) = 1
    \<and> pending (order_outbox (fst (order_worker_Run 10
        [Tick ((quiet_tick (\<lambda>_. sample_time))\<lparr>te_publish := (\<lambda>_. WrittenNoAck ''timeout'')\<rparr>),
         Tick (quiet_tick (\<lambda>_. sample_time))] (os_db sample_created, [], 0)))) = []"
proof -
  have l: "length (pending (order_outbox (os_db sample_created))) = 1"
    by (simp add: sample_created_def empty_order_db_def pending_def)
  have "sent_published (order_outbox (os_db sample_created)) []"
    using reachable_published [OF reachable_sample_created] by (simp add: sample_created_def)
  moreover have "order_inv (os_db sample_created)"
    using reachable_invs [OF reachable_sample_created] by blast
  ultimately show ?thesis
    using order_worker_drains [of "os_db sample_created" "[]" 1 10
        "[(quiet_tick (\<lambda>_. sample_time))\<lparr>te_publish := (\<lambda>_. WrittenNoAck ''timeout'')\<rparr>]" "\<lambda>_. sample_time" 0] l
    by (auto split: prod.splits)
qed

theorem order_worker_error_atomic_witness:
  "\<exists>e log'. order_processBatch no_faults None (\<lambda>_. False) (\<lambda>_. WrittenNoAck ''timeout'') (\<lambda>_. sample_time) 10
      (os_db sample_created) [] 1 = (Some e, os_db sample_created, log', 1) \<and> length log' = 1"
proof -
  obtain r db' log' g where p: "order_processBatch no_faults None (\<lambda>_. False) (\<lambda>_. WrittenNoAck ''timeout'')
      (\<lambda>_. sample_time) 10 (os_db sample_created) [] 1 = (r, db', log', g)"
    by (metis prod.exhaust)
  then have "r \<noteq> None \<and> length log' = 1"
    by (auto simp: sample_created_def order_processBatch_def process_batch_def
        fetch_pending_def pending_batch_def pending_def saved_def empty_order_db_def new_outbox_row_def
        outbox_record_def Publish_def)
  with p show ?thesis using order_worker_error_atomic [of no_faults None "\<lambda>_. False"] by fastforce
qed

theorem save_then_get_witness:
  "\<exists>items. GetByID no_faults ''o1'' (os_db sample_created)
      = Inr (sample_order\<lparr>Items := items, CreatedAt := timestamptz sample_time, UpdatedAt := timestamptz sample_time\<rparr>)
    \<and> mset items = mset sample_items"
  using save_then_get [OF save_sample order_inv_empty]
  by (simp add: sample_created_def sample_order_def)

end
