(* ===== verification/Kafka_Consumer.thy ===== *)
theory Kafka_Consumer
  imports Outbox_Worker
begin

text \<open>
  The loop every consumer of the marketplace runs on a topic: fetch the next message, handle it,
  commit its offset when the handler returned nil, go on without a commit when it did not
  (\<open>runReserved\<close> and \<open>runFailed\<close> of order-service, \<open>Run\<close> of inventory-service,
  \<open>consumeLoop\<close> of notification-service).

  The reader is a parameter: the list of \<open>visit\<close>s says what each \<open>FetchMessage\<close> returns,
  in what surroundings the handler runs, and whether \<open>CommitMessages\<close> works. Within a session
  the reader of a consumer group gives messages of one partition with increasing offsets, committed
  or not; after a restart it goes on after the largest committed offset (\<open>resume_at\<close>).
\<close>

datatype fetch = FetchCanceled | FetchFails | Fetched nat message

record 'e visit =
  vi_fetch :: fetch
  vi_env :: 'e
  vi_commit :: bool

text \<open>What the loop does, seen from outside: handler results and commits, in order.\<close>

datatype 's action = Handled nat "'s go_error option" | CommitOk nat | CommitErr nat | Crashed nat

fun consume_loop ::
  "('e \<Rightarrow> message \<Rightarrow> 'st \<Rightarrow> ('s go_error option \<times> 'st) call) \<Rightarrow> 'e visit list \<Rightarrow> 'st
   \<Rightarrow> 'st \<times> 's action list" where
  "consume_loop handle [] st = (st, [])"
| "consume_loop handle (v # vs) st =
     (case vi_fetch v of
        FetchCanceled \<Rightarrow> (st, [])
      | FetchFails \<Rightarrow> consume_loop handle vs st
      | Fetched off m \<Rightarrow>
          (case handle (vi_env v) m st of
             Panics \<Rightarrow> (st, [Crashed off])
           | Returns (Some e, st1) \<Rightarrow>
               (case consume_loop handle vs st1 of
                  (st2, acts) \<Rightarrow> (st2, Handled off (Some e) # acts))
           | Returns (None, st1) \<Rightarrow>
               (case consume_loop handle vs st1 of
                  (st2, acts) \<Rightarrow>
                    (st2, Handled off None # (if vi_commit v then CommitOk off else CommitErr off) # acts))))"

text \<open>The offsets a session fetches.\<close>

fun fetched_offsets :: "'e visit list \<Rightarrow> nat list" where
  "fetched_offsets [] = []"
| "fetched_offsets (v # vs) =
     (case vi_fetch v of
        FetchCanceled \<Rightarrow> []
      | FetchFails \<Rightarrow> fetched_offsets vs
      | Fetched off m \<Rightarrow> off # fetched_offsets vs)"

text \<open>Where the group goes on after a restart, having started at \<open>start\<close>.\<close>

fun resume_at :: "nat \<Rightarrow> 's action list \<Rightarrow> nat" where
  "resume_at start [] = start"
| "resume_at start (CommitOk off # acts) = resume_at (max start (Suc off)) acts"
| "resume_at start (_ # acts) = resume_at start acts"

text \<open>One message: the handler panics, or it returns and the loop goes on.\<close>

lemma consume_loop_Fetched:
  assumes "consume_loop handle (v # vs) st = (st', acts)" and "vi_fetch v = Fetched off m"
  obtains (crash) "handle (vi_env v) m st = Panics" "st' = st" "acts = [Crashed off]"
  | (returned) r st1 acts' where "handle (vi_env v) m st = Returns (r, st1)"
      "consume_loop handle vs st1 = (st', acts')"
      "acts = Handled off r # (case r of Some _ \<Rightarrow> acts'
         | None \<Rightarrow> (if vi_commit v then CommitOk off else CommitErr off) # acts')"
  using assms by (auto split: call.splits option.splits prod.splits)

text \<open>An invariant of the handler is one of the loop.\<close>

lemma consume_loop_inv:
  assumes "\<And>e m st r st'. handle e m st = Returns (r, st') \<Longrightarrow> P st \<Longrightarrow> P st'"
  shows "consume_loop handle vs st = (st', acts) \<Longrightarrow> P st \<Longrightarrow> P st'"
proof (induction vs arbitrary: st acts)
  case (Cons v vs)
  show ?case
  proof (cases "vi_fetch v")
    case (Fetched off m)
    from Cons.prems(1) Fetched show ?thesis
      by (cases rule: consume_loop_Fetched) (use Cons assms in blast)+
  qed (use Cons in simp_all)
qed simp

text \<open>A handler that never panics never ends the loop.\<close>

lemma consume_loop_no_crash:
  assumes "\<And>e m st. handle e m st \<noteq> Panics"
  shows "consume_loop handle vs st = (st', acts) \<Longrightarrow> Crashed off \<notin> set acts"
proof (induction vs arbitrary: st acts)
  case (Cons v vs)
  show ?case
  proof (cases "vi_fetch v")
    case (Fetched off m)
    from Cons.prems(1) Fetched show ?thesis
      by (cases rule: consume_loop_Fetched) (use Cons assms in \<open>auto split: option.splits\<close>)
  qed (use Cons in simp_all)
qed simp

fun action_offset :: "'s action \<Rightarrow> nat" where
  "action_offset (Handled off _) = off"
| "action_offset (CommitOk off) = off"
| "action_offset (CommitErr off) = off"
| "action_offset (Crashed off) = off"

lemma consume_loop_offsets:
  "consume_loop handle vs st = (st', acts) \<Longrightarrow> action_offset ` set acts \<subseteq> set (fetched_offsets vs)"
proof (induction vs arbitrary: st acts)
  case (Cons v vs)
  show ?case
  proof (cases "vi_fetch v")
    case (Fetched off m)
    from Cons.prems(1) Fetched show ?thesis
    proof (cases rule: consume_loop_Fetched)
      case (returned r st1 acts')
      have "action_offset ` set acts' \<subseteq> set (off # fetched_offsets vs)"
        using Cons.IH [OF returned(2)] by auto
      with returned(3) Fetched show ?thesis by (simp split: option.splits)
    qed (use Fetched in simp)
  qed (use Cons in simp_all)
qed simp

lemma resume_at_mono: "start \<le> resume_at start acts"
  by (induction start acts rule: resume_at.induct) auto

lemma resume_at_committed: "CommitOk off \<in> set acts \<Longrightarrow> off < resume_at start acts"
proof (induction start acts rule: resume_at.induct)
  case (2 start off' acts)
  then show ?case using resume_at_mono [of "max start (Suc off')" acts] by auto
qed auto

text \<open>A commit follows its own message's nil: nothing unhandled is committed by itself.\<close>

lemma consume_loop_committed:
  "consume_loop handle vs st = (st', acts) \<Longrightarrow> CommitOk off \<in> set acts \<Longrightarrow> Handled off None \<in> set acts"
proof (induction vs arbitrary: st acts)
  case (Cons v vs)
  show ?case
  proof (cases "vi_fetch v")
    case (Fetched off' m)
    from Cons.prems(1) Fetched show ?thesis
      by (cases rule: consume_loop_Fetched) (use Cons in \<open>auto split: option.splits if_splits\<close>)
  qed (use Cons in simp_all)
qed simp

text \<open>
  With increasing offsets, a message whose handler failed is left behind by the first later commit.
\<close>

lemma consume_loop_skips:
  assumes "consume_loop handle vs st = (st', acts)" and "sorted_wrt (<) (fetched_offsets vs)"
    and "acts = before @ Handled off (Some e) # after" and "CommitOk off' \<in> set after"
  shows "off < off'"
  using assms(1-3)
proof (induction vs arbitrary: st acts before)
  case (Cons v vs)
  show ?case
  proof (cases "vi_fetch v")
    case (Fetched off1 m)
    have srt: "sorted_wrt (<) (fetched_offsets vs)" "\<forall>x \<in> set (fetched_offsets vs). off1 < x"
      using Cons.prems(2) Fetched by auto
    from Cons.prems(1) Fetched show ?thesis
    proof (cases rule: consume_loop_Fetched)
      case crash
      with Cons.prems(3) show ?thesis by (cases before) simp_all
    next
      case (returned r st1 acts2)
      note acts = returned(3) and l = returned(2)
      show ?thesis
      proof (cases "before")
        case Nil
        with acts Cons.prems(3) have "off = off1" "after = acts2" by (auto split: option.splits)
        with assms(4) consume_loop_offsets [OF l] srt(2) show ?thesis by fastforce
      next
        case (Cons b bs)
        have "\<exists>before'. acts2 = before' @ Handled off (Some e) # after"
        proof (cases r)
          case None
          with acts Cons.prems(3) Cons show ?thesis
            by (cases bs) (auto split: if_splits)
        next
          case (Some e')
          with acts Cons.prems(3) Cons show ?thesis by auto
        qed
        then show ?thesis using Cons.IH [OF l srt(1)] by blast
      qed
    qed
  qed (use Cons in simp_all)
qed simp

text \<open>What every consumer of the marketplace gets from the loop, for the properties.\<close>

lemma consume_loop_commits:
  assumes "consume_loop handle vs st = (st', acts)" and "sorted_wrt (<) (fetched_offsets vs)"
  shows "(\<forall>off. CommitOk off \<in> set acts \<longrightarrow> Handled off None \<in> set acts)
    \<and> (\<forall>before off e after off'. acts = before @ Handled off (Some e) # after \<and> CommitOk off' \<in> set after
         \<longrightarrow> off < resume_at start acts)"
proof (intro conjI allI impI)
  fix off assume "CommitOk off \<in> set acts"
  with assms(1) show "Handled off None \<in> set acts" by (rule consume_loop_committed)
next
  fix before off e after off'
  assume a: "acts = before @ Handled off (Some e) # after \<and> CommitOk off' \<in> set after"
  then have "off < off'" using consume_loop_skips [OF assms] by blast
  moreover have "off' < resume_at start acts" using a by (intro resume_at_committed) simp
  ultimately show "off < resume_at start acts" by simp
qed

end
