(* ===== verification/Order_Consumer.thy ===== *)
theory Order_Consumer
  imports Order_System Kafka_Consumer
begin

text \<open>
  order-service's consumer of the results of inventory-service:
  \<open>internal/consumer/stock_result_consumer.go\<close>. The handlers decode the event and call
  \<open>UpdateOrderStatus\<close>, which is their argument \<open>upd\<close> as the consumer holds a
  \<open>ports.OrderUseCase\<close>.
\<close>

section \<open>Definitions\<close>

record StockReservedEvent =
  sre_OrderID :: string

record StockFailedEvent =
  sfe_OrderID :: string
  sfe_Reason :: string

definition fields_StockReservedEvent :: "StockReservedEvent fields" where
  "fields_StockReservedEvent =
     [(''order_id'', \<lambda>j e. map_option (\<lambda>s. e\<lparr>sre_OrderID := s\<rparr>) (decode_string (sre_OrderID e) j))]"

definition fields_StockFailedEvent :: "StockFailedEvent fields" where
  "fields_StockFailedEvent =
     [(''order_id'', \<lambda>j e. map_option (\<lambda>s. e\<lparr>sfe_OrderID := s\<rparr>) (decode_string (sfe_OrderID e) j)),
      (''reason'', \<lambda>j e. map_option (\<lambda>s. e\<lparr>sfe_Reason := s\<rparr>) (decode_string (sfe_Reason e) j))]"

definition handleReserved ::
  "(string \<Rightarrow> OrderStatus \<Rightarrow> string \<Rightarrow> 'db \<Rightarrow> order_error option \<times> 'db) \<Rightarrow> message \<Rightarrow> 'db
   \<Rightarrow> order_error option \<times> 'db" where
  "handleReserved upd msg db =
     (case unmarshal fields_StockReservedEvent \<lparr>sre_OrderID = []\<rparr> (msg_value msg) of
        None \<Rightarrow> (None, db)
      | Some event \<Rightarrow>
          (case upd (sre_OrderID event) StatusConfirmed [] db of
             (None, db') \<Rightarrow> (None, db')
           | (Some e, db') \<Rightarrow>
               if errors_is e ErrInvalidTransition then (None, db') else (Some e, db')))"

definition handleFailed ::
  "(string \<Rightarrow> OrderStatus \<Rightarrow> string \<Rightarrow> 'db \<Rightarrow> order_error option \<times> 'db) \<Rightarrow> message \<Rightarrow> 'db
   \<Rightarrow> order_error option \<times> 'db" where
  "handleFailed upd msg db =
     (case unmarshal fields_StockFailedEvent \<lparr>sfe_OrderID = [], sfe_Reason = []\<rparr> (msg_value msg) of
        None \<Rightarrow> (None, db)
      | Some event \<Rightarrow>
          (case upd (sfe_OrderID event) StatusCancelled (sfe_Reason event) db of
             (None, db') \<Rightarrow> (None, db')
           | (Some e, db') \<Rightarrow>
               if errors_is e ErrInvalidTransition then (None, db') else (Some e, db')))"

text \<open>The two loops, with what surrounds each call of \<open>UpdateOrderStatus\<close> in the visit.\<close>

type_synonym pg_attempts = "(db_faults, pg_env, order_db) attempts"

definition pg_update :: "pg_attempts \<Rightarrow> string \<Rightarrow> OrderStatus \<Rightarrow> string \<Rightarrow> order_db \<Rightarrow> order_error option \<times> order_db" where
  "pg_update at = UpdateOrderStatus GetByID pg_upd at"

definition runReserved :: "pg_attempts visit list \<Rightarrow> order_db \<Rightarrow> order_db \<times> order_sentinel action list" where
  "runReserved visits db = consume_loop (\<lambda>at m db. Returns (handleReserved (pg_update at) m db)) visits db"

definition runFailed :: "pg_attempts visit list \<Rightarrow> order_db \<Rightarrow> order_db \<times> order_sentinel action list" where
  "runFailed visits db = consume_loop (\<lambda>at m db. Returns (handleFailed (pg_update at) m db)) visits db"

section \<open>The use case when nothing interferes\<close>

definition calm_attempts :: "(nat \<Rightarrow> string) \<Rightarrow> (nat \<Rightarrow> nat \<Rightarrow> gotime) \<Rightarrow> (nat \<Rightarrow> gotime) \<Rightarrow> pg_attempts" where
  "calm_attempts rid tm now = \<lparr>at_get = (\<lambda>_. no_faults), at_write = (\<lambda>k. (no_faults, rid k, tm k)),
     at_now = now, at_before = (\<lambda>_ db. db), at_between = (\<lambda>_ db. db)\<rparr>"

lemma find_row_stored:
  "stored_order db oid = Some (st, v) \<longleftrightarrow>
   (\<exists>r. find_row or_id oid (orders db) = Some r \<and> or_status r = st \<and> or_version r = v)"
  by (auto simp: stored_order_def)

lemma buildStatusEvent_ID:
  "ID a = ID b \<Longrightarrow> buildStatusEvent a new reason = buildStatusEvent b new reason"
  by (simp add: buildStatusEvent_def split: OrderStatus.splits)

text \<open>A status that has an event, its type and payload.\<close>

fun final_event :: "string \<Rightarrow> OrderStatus \<Rightarrow> string \<Rightarrow> string \<times> json" where
  "final_event oid StatusConfirmed reason =
     (EventTypeOrderConfirmed, marshal_OrderConfirmedEvent \<lparr>ofe_OrderID = oid\<rparr>)"
| "final_event oid _ reason =
     (EventTypeOrderCancelled, marshal_OrderCancelledEvent \<lparr>oxe_OrderID = oid, oxe_Reason = reason\<rparr>)"

lemma buildStatusEvent_final:
  "new = StatusConfirmed \<or> new = StatusCancelled \<Longrightarrow> buildStatusEvent ord new reason = Inr (final_event (ID ord) new reason)"
  by (auto simp: buildStatusEvent_def)

lemma pg_update_calm:
  assumes "new = StatusConfirmed \<or> new = StatusCancelled" and "primary_key db"
  shows "case pg_update (calm_attempts rid tm now) oid new reason db of (r, db') \<Rightarrow>
    (case stored_order db oid of
       None \<Rightarrow> db' = db \<and> (\<exists>e. r = Some e \<and> errors_is e ErrNoRows)
     | Some (st, v) \<Rightarrow>
         (if st = StatusAwaitingStock
          then r = None \<and> stored_order db' = (stored_order db)(oid \<mapsto> (new, v + 1))
            \<and> outbox_events db' = outbox_events db @ [(oid, final_event oid new reason)]
          else db' = db \<and> (\<exists>e. r = Some e \<and> errors_is e ErrInvalidTransition)))"
proof (cases "find_row or_id oid (orders db)")
  case None
  then show ?thesis
    by (simp add: pg_update_def calm_attempts_def UpdateOrderStatus_def maxRetries_def numeral_3_eq_3
        GetByID_no_faults stored_order_def Let_def)
next
  case (Some row)
  then have row: "row \<in> set (orders db)" "or_id row = oid" by (auto dest: find_row_Some)
  let ?ord = "row_to_order row (map row_to_item (items_of oid db))"
  have get: "GetByID no_faults oid db = Inr ?ord" by (simp add: GetByID_no_faults Some)
  have f: "Status ?ord = or_status row" "ID ?ord = oid" "Version ?ord = or_version row"
    using row by (simp_all add: row_to_order_def)
  show ?thesis
  proof (cases "new \<in> set (allowedTransactions (or_status row))")
    case False
    then have "or_status row \<noteq> StatusAwaitingStock" using assms(1) by auto
    with False show ?thesis
      by (simp add: pg_update_def calm_attempts_def UpdateOrderStatus_def maxRetries_def numeral_3_eq_3
          get f go_simps stored_order_def Some Let_def)
  next
    case True
    then have st: "or_status row = StatusAwaitingStock" using assms(1) by (cases "or_status row") auto
    let ?ord' = "?ord\<lparr>Status := new, UpdatedAt := now 0\<rparr>"
    have locked: "rows_affected (locked_row ?ord') (orders db) \<noteq> 0"
      using row f by (auto simp: rows_affected_0 locked_row_def)
    obtain ty p where ev: "final_event oid new reason = (ty, p)" by fastforce
    have "pg_update (calm_attempts rid tm now) oid new reason db
        = (None, status_updated (rid 0) (tm 0) ?ord' ty p db)"
      using True locked f
      by (simp add: pg_update_def calm_attempts_def UpdateOrderStatus_def maxRetries_def numeral_3_eq_3
          get go_simps buildStatusEvent_final [OF assms(1)] ev pg_upd_def UpdateStatusWithEvent_no_faults Let_def)
    then show ?thesis
      using stored_order_locked [OF assms(2) locked] f st ev
      by (simp add: stored_order_def Some outbox_events_def)
  qed
qed

section \<open>Guarantees of the consumer\<close>

lemma decode_StockReservedEvent:
  "unmarshal fields_StockReservedEvent \<lparr>sre_OrderID = []\<rparr> (Doc (JObj [(''order_id'', JStr oid)]))
   = Some \<lparr>sre_OrderID = oid\<rparr>"
  by (simp add: fields_StockReservedEvent_def find_field_def)

lemma decode_StockFailedEvent:
  "unmarshal fields_StockFailedEvent \<lparr>sfe_OrderID = [], sfe_Reason = []\<rparr>
     (Doc (JObj [(''order_id'', JStr oid), (''reason'', JStr reason)]))
   = Some \<lparr>sfe_OrderID = oid, sfe_Reason = reason\<rparr>"
  by (simp add: fields_StockFailedEvent_def find_field_def upper_def)

definition reserved_message :: "string \<Rightarrow> message" where
  "reserved_message oid = \<lparr>msg_topic = ''stock.reserved'', msg_key = oid,
     msg_value = Doc (JObj [(''order_id'', JStr oid)])\<rparr>"

definition failed_message :: "string \<Rightarrow> string \<Rightarrow> message" where
  "failed_message oid reason = \<lparr>msg_topic = ''stock.failed'', msg_key = oid,
     msg_value = Doc (JObj [(''order_id'', JStr oid), (''reason'', JStr reason)])\<rparr>"

text \<open>What a stock result does to an order: \<open>final\<close> is the status it asks for.\<close>

definition result_applied ::
  "string \<Rightarrow> OrderStatus \<Rightarrow> string \<Rightarrow> order_db \<Rightarrow> order_error option \<times> order_db \<Rightarrow> bool" where
  "result_applied oid final reason db res \<longleftrightarrow> (case res of (r, db') \<Rightarrow>
     (case stored_order db oid of
        None \<Rightarrow> db' = db \<and> (\<exists>e. r = Some e \<and> errors_is e ErrNoRows)
      | Some (st, v) \<Rightarrow>
          r = None \<and>
          (if st = StatusAwaitingStock
           then stored_order db' = (stored_order db)(oid \<mapsto> (final, v + 1))
             \<and> outbox_events db' = outbox_events db @ [(oid, final_event oid final reason)]
           else db' = db)))"

text \<open>The handlers behind the decoding: an update with a refused transition swallowed.\<close>

definition swallow :: "order_error option \<times> 'db \<Rightarrow> order_error option \<times> 'db" where
  "swallow res = (case res of
     (None, db') \<Rightarrow> (None, db')
   | (Some e, db') \<Rightarrow> if errors_is e ErrInvalidTransition then (None, db') else (Some e, db'))"

lemma handleReserved_message:
  "handleReserved upd (reserved_message oid) db = swallow (upd oid StatusConfirmed [] db)"
  unfolding handleReserved_def reserved_message_def message.simps decode_StockReservedEvent swallow_def by simp

lemma handleFailed_message:
  "handleFailed upd (failed_message oid reason) db = swallow (upd oid StatusCancelled reason db)"
  unfolding handleFailed_def failed_message_def message.simps decode_StockFailedEvent swallow_def by simp

lemma swallow_applied:
  assumes "new = StatusConfirmed \<or> new = StatusCancelled" and "primary_key db"
  shows "result_applied oid new reason db (swallow (pg_update (calm_attempts rid tm now) oid new reason db))"
proof -
  obtain r db' where u: "pg_update (calm_attempts rid tm now) oid new reason db = (r, db')" by fastforce
  note calm = pg_update_calm [OF assms, where rid = rid and tm = tm and now = now and oid = oid
      and reason = reason, unfolded u split]
  show ?thesis
  proof (cases "stored_order db oid")
    case None
    with calm obtain e where "db' = db" "r = Some e" "errors_is e ErrNoRows" by auto
    moreover from this have "\<not> errors_is e ErrInvalidTransition"
      using errors_is_unique [of e ErrNoRows ErrInvalidTransition] by auto
    ultimately show ?thesis using None by (simp add: result_applied_def u swallow_def)
  next
    case (Some sv)
    obtain st v where sv: "sv = (st, v)" by fastforce
    show ?thesis
    proof (cases "st = StatusAwaitingStock")
      case True
      with calm Some sv show ?thesis by (simp add: result_applied_def u swallow_def)
    next
      case False
      with calm Some sv show ?thesis by (auto simp: result_applied_def u swallow_def)
    qed
  qed
qed

lemma handleReserved_applied:
  "primary_key db \<Longrightarrow> result_applied oid StatusConfirmed [] db
    (handleReserved (pg_update (calm_attempts rid tm now)) (reserved_message oid) db)"
  unfolding handleReserved_message by (rule swallow_applied) simp_all

lemma handleFailed_applied:
  "primary_key db \<Longrightarrow> result_applied oid StatusCancelled reason db
    (handleFailed (pg_update (calm_attempts rid tm now)) (failed_message oid reason) db)"
  unfolding handleFailed_message by (rule swallow_applied) simp_all

text \<open>
  Property C27 (functional). Undisturbed and without failures, a \<open>stock.reserved\<close> message
  confirms its order and a \<open>stock.failed\<close> message cancels it with the reason, exactly when the
  order awaits its stock, each with its event in the outbox; in any other status the order stays
  as it is and the message counts as handled, so a second delivery of a result, and a second
  result, change nothing; for an unknown order the handler fails, so the message is not committed.
\<close>

theorem stock_results_applied:
  assumes "primary_key db"
  shows "result_applied oid StatusConfirmed [] db
      (handleReserved (pg_update (calm_attempts rid tm now)) (reserved_message oid) db)
    \<and> result_applied oid StatusCancelled reason db
      (handleFailed (pg_update (calm_attempts rid tm now)) (failed_message oid reason) db)"
  using handleReserved_applied [OF assms] handleFailed_applied [OF assms] by blast

theorem stock_results_applied_witness:
  "\<exists>db'. handleFailed (pg_update (calm_attempts (\<lambda>_. ''r9'') (\<lambda>_ _. sample_time) (\<lambda>_. sample_time)))
      (failed_message ''o1'' ''none left'')
      \<lparr>orders = [sample_order_row StatusAwaitingStock 2], order_items = [], order_outbox = []\<rparr> = (None, db')
    \<and> stored_order db' ''o1'' = Some (StatusCancelled, 3)"
proof -
  let ?db = "\<lparr>orders = [sample_order_row StatusAwaitingStock 2], order_items = [], order_outbox = []\<rparr>"
  have s: "stored_order ?db ''o1'' = Some (StatusAwaitingStock, 2)"
    by (simp add: stored_order_def find_row_Cons sample_order_row_def)
  have "primary_key ?db" by (simp add: primary_key_def)
  from stock_results_applied [OF this, of "''o1''" "\<lambda>_. ''r9''" "\<lambda>_ _. sample_time" "\<lambda>_. sample_time" "''none left''"]
  show ?thesis by (auto simp: result_applied_def s)
qed

text \<open>
  The result of an order that is still \<open>CREATED\<close> is dropped: the
  handler takes it for a duplicate, changes nothing and reports it as handled. This happens when
  the result is faster than the outbox worker, which publishes \<open>order.created\<close> before it
  commits the transition to \<open>AWAITING_STOCK\<close>: in the run below the worker's log already holds
  the event, the confirmation is handled on the database as it is before that commit, and after the
  commit the order awaits a stock result that was already consumed, with no event left to send.
\<close>

theorem early_result_dropped:
  "\<exists>db' log'. order_processBatch no_faults None (\<lambda>_. False) (\<lambda>_. Acked) (\<lambda>_. sample_time) 10
      (os_db sample_created) [] 0 = (None, db', log', 0)
    \<and> (\<exists>m \<in> set log'. msg_topic m = EventTypeOrderCreated \<and> msg_key m = ''o1'')
    \<and> handleReserved (pg_update (calm_attempts rid tm now)) (reserved_message ''o1'') (os_db sample_created)
      = (None, os_db sample_created)
    \<and> stored_order db' ''o1'' = Some (StatusAwaitingStock, 2) \<and> pending (order_outbox db') = []"
proof -
  have s: "stored_order (os_db sample_created) ''o1'' = Some (StatusCreated, 1)"
    by (simp add: sample_created_def empty_order_db_def stored_order_def find_row_Cons sample_order_def)
  have "primary_key (os_db sample_created)"
    using reachable_invs [OF reachable_sample_created] by (simp add: order_inv_def)
  from handleReserved_applied [OF this, of "''o1''" rid tm now]
  have "handleReserved (pg_update (calm_attempts rid tm now)) (reserved_message ''o1'') (os_db sample_created)
      = (None, os_db sample_created)"
    by (auto simp: result_applied_def s split: prod.splits)
  then show ?thesis
    by (simp add: sample_created_def order_processBatch_def process_batch_def
      fetch_pending_def pending_batch_def pending_def saved_def empty_order_db_def new_outbox_row_def
      outbox_record_def Publish_def order_worker_body_def markSentTx_def transitionToAwaitingStockTx_def
      stored_order_def find_row_update_where find_row_Cons sample_order_def mark_sent_def update_where_def
      updateBacklogMetric_def)
qed

text \<open>
  The consumer of \<open>stock.reserved\<close> commits the offset of a message only once its handler
  returned nil for it. But it does not stop at a message whose handler failed: with the increasing
  offsets of a partition, the first commit after the failure is beyond that message, so a restart
  resumes after it and it is not delivered again.
\<close>

theorem consumer_commits:
  assumes "runReserved visits db = (db', acts)" and "sorted_wrt (<) (fetched_offsets visits)"
  shows "(\<forall>off. CommitOk off \<in> set acts \<longrightarrow> Handled off None \<in> set acts)
    \<and> (\<forall>before off e after off'. acts = before @ Handled off (Some e) # after \<and> CommitOk off' \<in> set after
         \<longrightarrow> off < resume_at start acts)"
  using consume_loop_commits [OF assms(1) [unfolded runReserved_def] assms(2)] .

definition sample_visits :: "pg_attempts visit list" where
  "sample_visits =
     [\<lparr>vi_fetch = Fetched 4 (reserved_message ''unknown''), vi_env = quiet_attempts, vi_commit = True\<rparr>,
      \<lparr>vi_fetch = FetchFails, vi_env = quiet_attempts, vi_commit = True\<rparr>,
      \<lparr>vi_fetch = Fetched 5 \<lparr>msg_topic = ''stock.reserved'', msg_key = [], msg_value = Malformed\<rparr>,
       vi_env = quiet_attempts, vi_commit = True\<rparr>]"

theorem consumer_commits_witness:
  "\<exists>e acts. runReserved sample_visits empty_order_db = (empty_order_db, acts)
    \<and> acts = [Handled 4 (Some e), Handled 5 None, CommitOk 5] \<and> 4 < resume_at 4 acts"
proof -
  obtain db' acts where r: "runReserved sample_visits empty_order_db = (db', acts)" by fastforce
  then have acts: "db' = empty_order_db \<and> (\<exists>e. acts = [Handled 4 (Some e), Handled 5 None, CommitOk 5])"
    by (auto simp: runReserved_def sample_visits_def handleReserved_def reserved_message_def
        fields_StockReservedEvent_def find_field_def pg_update_def UpdateOrderStatus_def maxRetries_def numeral_3_eq_3
        quiet_attempts_def GetByID_no_faults empty_order_db_def Let_def)
  have "sorted_wrt (<) (fetched_offsets sample_visits)" by (simp add: sample_visits_def)
  with consumer_commits [OF r, of 4] acts r show ?thesis by fastforce
qed

end
