(* ===== verification/Inventory_Store.thy ===== *)
theory Inventory_Store
  imports Outbox_Worker
begin

text \<open>
  inventory-service: stock and its domain rules (\<open>internal/domain/stock.go\<close>,
  \<open>internal/domain/event.go\<close>), the interface of \<open>internal/ports/repository.go\<close> and
  PostgreSQL's repository \<open>internal/repository/postgres/stock_repo.go\<close> over the tables of
  \<open>migrations/000001_init.up.sql\<close> and \<open>000002_outbox.up.sql\<close>.

  A quantity is Go's 64-bit \<open>int\<close> in the program and a 32-bit \<open>INT\<close> column with
  \<open>CHECK (... >= 0)\<close> in the table, so a write of a quantity outside that range is refused.
  \<open>ReserveAll\<close> runs under PostgreSQL's default isolation (read committed): the transactions
  that commit between its check of \<open>processed_events\<close> and its locking read are the argument
  \<open>meanwhile\<close>. From the locking read on, no other transaction touches the rows it works on.
\<close>

section \<open>Domain\<close>

datatype inv_sentinel = ErrInsufficientStock | ErrStockNotFound | ErrAlreadyProcessed

type_synonym inv_error = "inv_sentinel go_error"

fun inv_error_msg :: "inv_sentinel \<Rightarrow> string" where
  "inv_error_msg ErrInsufficientStock = ''insufficient stock available''"
| "inv_error_msg ErrStockNotFound = ''stock not found for sku''"
| "inv_error_msg ErrAlreadyProcessed = ''order already processed''"

record Stock =
  st_SKU :: string
  AvailableQty :: int64
  ReservedQty :: int64
  st_Version :: int

definition Reserve :: "int64 \<Rightarrow> Stock \<Rightarrow> inv_error + Stock" where
  "Reserve qty s =
     (if sint qty \<le> 0 then Inl (Opaque ''reserve quantity must be positive'')
      else if sint (AvailableQty s) < sint qty then Inl (Sentinel ErrInsufficientStock)
      else Inr (s\<lparr>AvailableQty := AvailableQty s - qty, ReservedQty := ReservedQty s + qty\<rparr>))"

definition Release :: "int64 \<Rightarrow> Stock \<Rightarrow> inv_error + Stock" where
  "Release qty s =
     (if sint qty \<le> 0 then Inl (Opaque ''release quantity must be positive'')
      else if sint (ReservedQty s) < sint qty then Inl (Opaque ''cannot release more than reserved'')
      else Inr (s\<lparr>ReservedQty := ReservedQty s - qty, AvailableQty := AvailableQty s + qty\<rparr>))"

definition EventTypeStockReserved :: string where
  "EventTypeStockReserved = ''stock.reserved''"

definition EventTypeStockFailed :: string where
  "EventTypeStockFailed = ''stock.failed''"

definition marshal_StockReservedEvent :: "string \<Rightarrow> json" where
  "marshal_StockReservedEvent oid = JObj [(''order_id'', JStr oid)]"

definition marshal_StockFailedEvent :: "string \<Rightarrow> string \<Rightarrow> json" where
  "marshal_StockFailedEvent oid reason = JObj [(''order_id'', JStr oid), (''reason'', JStr reason)]"

record ReservationItem =
  ri_SKU :: string
  ri_Qty :: int64

section \<open>Tables\<close>

record stock_row =
  sr_sku :: string
  sr_available :: int
  sr_reserved :: int
  sr_version :: int

record inv_db =
  stock :: "stock_row list"
  processed :: "string list"
  inv_outbox :: "outbox_row list"

definition row_to_stock :: "stock_row \<Rightarrow> Stock" where
  "row_to_stock r = \<lparr>st_SKU = sr_sku r, AvailableQty = word_of_int (sr_available r),
     ReservedQty = word_of_int (sr_reserved r), st_Version = sr_version r\<rparr>"

text \<open>What the two quantity columns accept.\<close>

definition quantity_column :: "int \<Rightarrow> bool" where
  "quantity_column q \<longleftrightarrow> int4_range q \<and> 0 \<le> q"

section \<open>The repository\<close>

text \<open>The map \<open>stocks\<close>, filled by the scan in the order of the rows.\<close>

fun stock_map :: "stock_row list \<Rightarrow> (string \<rightharpoonup> Stock) \<Rightarrow> (string \<rightharpoonup> Stock)" where
  "stock_map [] m = m"
| "stock_map (r # rs) m = stock_map rs (m(sr_sku r \<mapsto> row_to_stock r))"

text \<open>Step 3: every SKU is there and has enough.\<close>

fun check_items :: "(string \<rightharpoonup> Stock) \<Rightarrow> ReservationItem list \<Rightarrow> inv_error option" where
  "check_items stocks [] = None"
| "check_items stocks (it # items) =
     (case stocks (ri_SKU it) of
        None \<Rightarrow> Some (Wrapf [] (Sentinel ErrStockNotFound) ('': sku '' @ ri_SKU it))
      | Some s \<Rightarrow>
          if sint (AvailableQty s) < sint (ri_Qty it)
          then Some (Wrapf [] (Sentinel ErrInsufficientStock) ('': sku '' @ ri_SKU it))
          else check_items stocks items)"

text \<open>\<open>UPDATE stock SET ... WHERE sku = $3\<close>, statement \<open>k\<close>.\<close>

definition exec_update_stock ::
  "db_faults \<Rightarrow> nat \<Rightarrow> Stock \<Rightarrow> string \<Rightarrow> inv_db \<Rightarrow> inv_error + inv_db" where
  "exec_update_stock f k s sku tx =
     (case f_exec f k of
        Some m \<Rightarrow> Inl (Opaque m)
      | None \<Rightarrow>
          if quantity_column (sint (AvailableQty s)) \<and> quantity_column (sint (ReservedQty s))
          then Inr (tx\<lparr>stock := update_where (\<lambda>r. sr_sku r = sku)
                  (\<lambda>r. r\<lparr>sr_available := sint (AvailableQty s), sr_reserved := sint (ReservedQty s),
                        sr_version := sr_version r + 1\<rparr>) (stock tx)\<rparr>)
          else Inl (Opaque ''integer out of range or check violated''))"

text \<open>
  Step 4: reserve and write back item by item. The entries of the map are pointers, so a second
  item with the same SKU sees what the first left. An SKU that is missing from the map is a nil
  pointer, which \<open>Reserve\<close> dereferences after its check of the quantity; the check before
  excludes it.
\<close>

fun reserve_items ::
  "db_faults \<Rightarrow> nat \<Rightarrow> (string \<rightharpoonup> Stock) \<Rightarrow> ReservationItem list \<Rightarrow> inv_db \<Rightarrow> (inv_error + inv_db) call" where
  "reserve_items f k stocks [] tx = Returns (Inr tx)"
| "reserve_items f k stocks (it # items) tx =
     (case stocks (ri_SKU it) of
        None \<Rightarrow>
          (if sint (ri_Qty it) \<le> 0
           then Returns (Inl (Wrapf (''reserve sku '' @ ri_SKU it @ '': '')
                  (Opaque ''reserve quantity must be positive'') []))
           else Panics)
      | Some s \<Rightarrow>
          (case Reserve (ri_Qty it) s of
             Inl e \<Rightarrow> Returns (Inl (Wrapf (''reserve sku '' @ ri_SKU it @ '': '') e []))
           | Inr s' \<Rightarrow>
               (case exec_update_stock f k s' (ri_SKU it) tx of
                  Inl e \<Rightarrow> Returns (Inl (Wrapf (''update stock sku '' @ ri_SKU it @ '': '') e []))
                | Inr tx' \<Rightarrow> reserve_items f (Suc k) (stocks(ri_SKU it \<mapsto> s')) items tx')))"

definition inv_insert_outbox ::
  "db_faults \<Rightarrow> nat \<Rightarrow> string \<Rightarrow> string \<Rightarrow> string \<Rightarrow> json \<Rightarrow> gotime \<Rightarrow> inv_db \<Rightarrow> inv_error + inv_db" where
  "inv_insert_outbox f k rid aggregate type payload now tx =
     (case f_exec f k of
        Some m \<Rightarrow> Inl (Opaque m)
      | None \<Rightarrow> Inr (tx\<lparr>inv_outbox := inv_outbox tx @ [new_outbox_row rid aggregate type payload now]\<rparr>))"

definition insert_processed :: "db_faults \<Rightarrow> nat \<Rightarrow> string \<Rightarrow> inv_db \<Rightarrow> inv_error + inv_db" where
  "insert_processed f k oid tx =
     (case f_exec f k of
        Some m \<Rightarrow> Inl (Opaque m)
      | None \<Rightarrow>
          if oid \<in> set (processed tx)
          then Inl (Opaque ''duplicate key value violates unique constraint'')
          else Inr (tx\<lparr>processed := processed tx @ [oid]\<rparr>))"

text \<open>The last steps: the event, the mark, the commit.\<close>

definition finish_reservation ::
  "db_faults \<Rightarrow> nat \<Rightarrow> string \<Rightarrow> gotime \<Rightarrow> string \<Rightarrow> inv_db \<Rightarrow> inv_db \<Rightarrow> inv_error option \<times> inv_db" where
  "finish_reservation f k rid now oid db tx =
     (case inv_insert_outbox f k rid oid EventTypeStockReserved (marshal_StockReservedEvent oid) now tx of
        Inl e \<Rightarrow> (Some (Wrapf ''insert outbox event: '' e []), db)
      | Inr tx1 \<Rightarrow>
     (case insert_processed f (Suc k) oid tx1 of
        Inl e \<Rightarrow> (Some (Wrapf ''insert processed event: '' e []), db)
      | Inr tx2 \<Rightarrow> commit (f_commit f) db tx2))"

definition ReserveAll ::
  "db_faults \<Rightarrow> (inv_db \<Rightarrow> inv_db) \<Rightarrow> string \<Rightarrow> gotime \<Rightarrow> string \<Rightarrow> ReservationItem list \<Rightarrow> inv_db
   \<Rightarrow> (inv_error option \<times> inv_db) call" where
  "ReserveAll f meanwhile rid now oid items db =
     (case f_begin f of
        Some m \<Rightarrow> Returns (Some (Wrapf ''begin tx: '' (Opaque m) []), db)
      | None \<Rightarrow>
     (case f_exec f 0 of
        Some m \<Rightarrow> Returns (Some (Wrapf ''check processed: '' (Opaque m) []), db)
      | None \<Rightarrow>
     (if oid \<in> set (processed db) then Returns (Some (Sentinel ErrAlreadyProcessed), db)
      else
     (let db1 = meanwhile db; skus = map ri_SKU items in
      case f_exec f 1 of
        Some m \<Rightarrow> Returns (Some (Wrapf ''select stock for update: '' (Opaque m) []), db1)
      | None \<Rightarrow>
     (case scan_rows (f_scan f) 0 (delivered (f_rows f) (filter (\<lambda>r. sr_sku r \<in> set skus) (stock db1))) of
        Inl e \<Rightarrow> Returns (Some (Wrapf ''scan stock: '' e []), db1)
      | Inr rows \<Rightarrow>
     (case f_rows f of
        Some _ \<Rightarrow> Returns (Some (Wrapf ''rows iteration: '' (Opaque ''connection lost'') []), db1)
      | None \<Rightarrow>
     (let stocks = stock_map rows Map.empty in
      case check_items stocks items of
        Some e \<Rightarrow> Returns (Some e, db1)
      | None \<Rightarrow>
     (case reserve_items f 2 stocks items db1 of
        Panics \<Rightarrow> Panics
      | Returns (Inl e) \<Rightarrow> Returns (Some e, db1)
      | Returns (Inr tx) \<Rightarrow>
          Returns (finish_reservation f (2 + length items) rid now oid db1 tx)))))))))"

text \<open>A single \<open>INSERT\<close> outside a transaction: its commit is the statement's own.\<close>

definition RecordFailure ::
  "db_faults \<Rightarrow> string \<Rightarrow> gotime \<Rightarrow> string \<Rightarrow> string \<Rightarrow> inv_db \<Rightarrow> inv_error option \<times> inv_db" where
  "RecordFailure f rid now oid reason db =
     (case inv_insert_outbox f 0 rid oid EventTypeStockFailed (marshal_StockFailedEvent oid reason) now db of
        Inl e \<Rightarrow> (Some (Wrapf ''insert outbox failure event: '' e []), db)
      | Inr tx \<Rightarrow>
          (case commit (f_commit f) db tx of
             (Some e, db') \<Rightarrow> (Some (Wrapf ''insert outbox failure event: '' e []), db')
           | (None, db') \<Rightarrow> (None, db')))"

section \<open>The effect of a reservation\<close>

text \<open>How many pieces of an SKU a list of items asks for, and in how many items.\<close>

definition ordered :: "ReservationItem list \<Rightarrow> string \<Rightarrow> int" where
  "ordered items sku = (\<Sum>it\<leftarrow>filter (\<lambda>it. ri_SKU it = sku) items. sint (ri_Qty it))"

definition reserve_row :: "ReservationItem list \<Rightarrow> stock_row \<Rightarrow> stock_row" where
  "reserve_row items r = r\<lparr>sr_available := sr_available r - ordered items (sr_sku r),
     sr_reserved := sr_reserved r + ordered items (sr_sku r),
     sr_version := sr_version r + int (length (filter (\<lambda>it. ri_SKU it = sr_sku r) items))\<rparr>"

definition stock_ok :: "inv_db \<Rightarrow> bool" where
  "stock_ok db \<longleftrightarrow> distinct (map sr_sku (stock db))
     \<and> (\<forall>r \<in> set (stock db). quantity_column (sr_available r) \<and> quantity_column (sr_reserved r))"

text \<open>The pointers of the map hold what the rows of the transaction hold.\<close>

definition agrees :: "(string \<rightharpoonup> Stock) \<Rightarrow> inv_db \<Rightarrow> bool" where
  "agrees stocks tx \<longleftrightarrow> (\<forall>sku s. stocks sku = Some s \<longrightarrow>
     (\<exists>r \<in> set (stock tx). sr_sku r = sku \<and> sint (AvailableQty s) = sr_available r
        \<and> sint (ReservedQty s) = sr_reserved r))"

lemma quantity_column_int64: "quantity_column q \<Longrightarrow> int64_range q"
  by (simp add: quantity_column_def int4_range_int64)

lemma ordered_Nil [simp]: "ordered [] sku = 0"
  by (simp add: ordered_def)

lemma ordered_Cons:
  "ordered (it # items) sku = (if ri_SKU it = sku then sint (ri_Qty it) else 0) + ordered items sku"
  by (simp add: ordered_def)

lemma reserve_row_Nil [simp]: "reserve_row [] r = r"
  by (simp add: reserve_row_def)

lemma reserve_row_sku [simp]: "sr_sku (reserve_row items r) = sr_sku r"
  by (simp add: reserve_row_def)

lemma reserve_row_Cons: "reserve_row items (reserve_row [it] r) = reserve_row (it # items) r"
  by (simp add: reserve_row_def ordered_Cons)

lemma reserve_row_other: "ri_SKU it \<noteq> sr_sku r \<Longrightarrow> reserve_row [it] r = r"
  by (simp add: reserve_row_def ordered_Cons)

lemma Reserve_Inr:
  assumes "Reserve qty s = Inr s'" and "quantity_column (sint (AvailableQty s))"
    and "quantity_column (sint (ReservedQty s))"
  shows "0 < sint qty" "sint (AvailableQty s') = sint (AvailableQty s) - sint qty"
    "sint (ReservedQty s') = sint (ReservedQty s) + sint qty" "0 \<le> sint (AvailableQty s')"
proof -
  from assms(1) have s': "s' = s\<lparr>AvailableQty := AvailableQty s - qty, ReservedQty := ReservedQty s + qty\<rparr>"
    and q: "0 < sint qty" "sint qty \<le> sint (AvailableQty s)"
    by (auto simp: Reserve_def split: if_splits)
  show "0 < sint qty" by (rule q)
  show a: "sint (AvailableQty s') = sint (AvailableQty s) - sint qty"
    unfolding s' using assms(2) q
    by (simp, intro sint_sub_in_range) (simp add: quantity_column_def int4_range_def int64_range_def)
  show "sint (ReservedQty s') = sint (ReservedQty s) + sint qty"
    unfolding s' using assms(2,3) q
    by (simp, intro sint_add_in_range) (simp add: quantity_column_def int4_range_def int64_range_def)
  show "0 \<le> sint (AvailableQty s')" using a q by simp
qed

lemma update_where_one_row:
  assumes "distinct (map key t)" and "r0 \<in> set t" and "key r0 = k" and "f r0 = g r0"
    and "\<And>r. r \<in> set t \<Longrightarrow> key r \<noteq> k \<Longrightarrow> g r = r"
  shows "update_where (\<lambda>r. key r = k) f t = map g t"
proof -
  have "(if key r = k then f r else r) = g r" if "r \<in> set t" for r
    using that assms distinct_map_eqD [of key t r r0] by (cases "key r = k") auto
  then show ?thesis by (simp add: update_where_def)
qed

lemma exec_update_stock_reserve:
  assumes "Reserve (ri_Qty it) s = Inr s'" and "stocks (ri_SKU it) = Some s"
    and "exec_update_stock f k s' (ri_SKU it) tx = Inr tx'"
    and "agrees stocks tx" and "stock_ok tx"
  shows "tx' = tx\<lparr>stock := map (reserve_row [it]) (stock tx)\<rparr>" and "0 < sint (ri_Qty it)"
    and "agrees (stocks(ri_SKU it \<mapsto> s')) tx'" and "stock_ok tx'"
proof -
  let ?sku = "ri_SKU it"
  obtain r where r: "r \<in> set (stock tx)" "sr_sku r = ?sku" "sint (AvailableQty s) = sr_available r"
    "sint (ReservedQty s) = sr_reserved r"
    using assms(2,4) by (auto simp: agrees_def)
  have dist: "distinct (map sr_sku (stock tx))" using assms(5) by (simp add: stock_ok_def)
  have q: "quantity_column (sint (AvailableQty s))" "quantity_column (sint (ReservedQty s))"
    using assms(5) r by (auto simp: stock_ok_def)
  note res = Reserve_Inr [OF assms(1) q]
  show "0 < sint (ri_Qty it)" by (rule res)
  let ?f = "\<lambda>r. r\<lparr>sr_available := sint (AvailableQty s'), sr_reserved := sint (ReservedQty s'),
     sr_version := sr_version r + 1\<rparr>"
  have ok: "quantity_column (sint (AvailableQty s'))" "quantity_column (sint (ReservedQty s'))"
    and tx': "tx' = tx\<lparr>stock := update_where (\<lambda>r. sr_sku r = ?sku) ?f (stock tx)\<rparr>"
    using assms(3) by (auto simp: exec_update_stock_def split: option.splits if_splits)
  have new: "?f r = reserve_row [it] r"
    using r res by (simp add: reserve_row_def ordered_Cons)
  have "update_where (\<lambda>r. sr_sku r = ?sku) ?f (stock tx) = map (reserve_row [it]) (stock tx)"
    by (rule update_where_one_row [of sr_sku "stock tx" r ?sku ?f "reserve_row [it]", OF dist r(1,2) new])
      (simp add: reserve_row_other)
  then show eq: "tx' = tx\<lparr>stock := map (reserve_row [it]) (stock tx)\<rparr>" by (simp add: tx')
  have uniq: "r1 = r" if "r1 \<in> set (stock tx)" "sr_sku r1 = ?sku" for r1
    by (rule distinct_map_eqD [OF dist]) (use that r in simp_all)
  show "stock_ok tx'"
  proof -
    have "quantity_column (sr_available (reserve_row [it] r1)) \<and> quantity_column (sr_reserved (reserve_row [it] r1))"
      if "r1 \<in> set (stock tx)" for r1
    proof (cases "sr_sku r1 = ?sku")
      case True
      then have "reserve_row [it] r1 = ?f r" using uniq that new by simp
      with ok show ?thesis by simp
    next
      case False
      then show ?thesis using that assms(5) by (simp add: reserve_row_other stock_ok_def)
    qed
    then show ?thesis using dist by (auto simp: eq stock_ok_def o_def)
  qed
  show "agrees (stocks(?sku \<mapsto> s')) tx'"
    unfolding agrees_def
  proof (intro allI impI)
    fix sku s1 assume s1: "(stocks(?sku \<mapsto> s')) sku = Some s1"
    show "\<exists>r \<in> set (stock tx'). sr_sku r = sku \<and> sint (AvailableQty s1) = sr_available r
        \<and> sint (ReservedQty s1) = sr_reserved r"
    proof (cases "sku = ?sku")
      case True
      with s1 have "s1 = s'" by simp
      moreover have "?f r \<in> set (stock tx')" using r(1) new by (simp add: eq)
      ultimately show ?thesis using True r(2) by (intro bexI [of _ "?f r"]) simp_all
    next
      case False
      with s1 have "stocks sku = Some s1" by simp
      then obtain r1 where r1: "r1 \<in> set (stock tx)" "sr_sku r1 = sku" "sint (AvailableQty s1) = sr_available r1"
        "sint (ReservedQty s1) = sr_reserved r1"
        using assms(4) unfolding agrees_def by blast
      have "reserve_row [it] r1 = r1" using False r1(2) by (simp add: reserve_row_other)
      then have "r1 \<in> set (stock tx')" using r1(1) by (simp add: eq) (metis image_eqI)
      with r1 show ?thesis by blast
    qed
  qed
qed

lemma reserve_items_effect:
  "reserve_items f k stocks items tx = Returns (Inr tx') \<Longrightarrow> agrees stocks tx \<Longrightarrow> stock_ok tx \<Longrightarrow>
   tx' = tx\<lparr>stock := map (reserve_row items) (stock tx)\<rparr> \<and> stock_ok tx'
     \<and> (\<forall>it \<in> set items. 0 < sint (ri_Qty it))"
proof (induction items arbitrary: k stocks tx)
  case Nil
  then show ?case by simp
next
  case (Cons it items)
  obtain s where s: "stocks (ri_SKU it) = Some s"
    using Cons.prems(1) by (cases "stocks (ri_SKU it)") (auto split: if_splits)
  obtain s' where s': "Reserve (ri_Qty it) s = Inr s'"
    using Cons.prems(1) s by (cases "Reserve (ri_Qty it) s") auto
  obtain tx1 where u: "exec_update_stock f k s' (ri_SKU it) tx = Inr tx1"
    using Cons.prems(1) s s' by (cases "exec_update_stock f k s' (ri_SKU it) tx") auto
  have rest: "reserve_items f (Suc k) (stocks(ri_SKU it \<mapsto> s')) items tx1 = Returns (Inr tx')"
    using Cons.prems(1) s s' u by simp
  note step = exec_update_stock_reserve [OF s' s u Cons.prems(2,3)]
  have "tx1\<lparr>stock := map (reserve_row items) (stock tx1)\<rparr> = tx\<lparr>stock := map (reserve_row (it # items)) (stock tx)\<rparr>"
    by (simp add: step(1) reserve_row_Cons o_def)
  with Cons.IH [OF rest step(3,4)] step(2) show ?case by auto
qed

lemma stock_map_Some:
  "stock_map rs m sku = Some s \<Longrightarrow> (\<exists>r \<in> set rs. sr_sku r = sku \<and> s = row_to_stock r) \<or> m sku = Some s"
  by (induction rs arbitrary: m) (fastforce split: if_splits)+

lemma stock_map_None: "stock_map rs m sku = None \<longleftrightarrow> m sku = None \<and> sku \<notin> sr_sku ` set rs"
  by (induction rs arbitrary: m) auto

lemma agrees_stock_map:
  assumes "stock_ok db" and "set rs \<subseteq> set (stock db)"
  shows "agrees (stock_map rs Map.empty) db"
  unfolding agrees_def
proof (intro allI impI)
  fix sku s assume "stock_map rs Map.empty sku = Some s"
  then obtain r where r: "r \<in> set rs" "sr_sku r = sku" "s = row_to_stock r"
    by (auto dest: stock_map_Some)
  then have "r \<in> set (stock db)" using assms(2) by blast
  moreover from this have "quantity_column (sr_available r)" "quantity_column (sr_reserved r)"
    using assms(1) by (auto simp: stock_ok_def)
  ultimately show "\<exists>r \<in> set (stock db). sr_sku r = sku \<and> sint (AvailableQty s) = sr_available r
      \<and> sint (ReservedQty s) = sr_reserved r"
    using r by (intro bexI [of _ r]) (simp_all add: row_to_stock_def sint_of_int_in_range quantity_column_int64)
qed

lemma check_items_None:
  "check_items stocks items = None \<longleftrightarrow>
   (\<forall>it \<in> set items. \<exists>s. stocks (ri_SKU it) = Some s \<and> sint (ri_Qty it) \<le> sint (AvailableQty s))"
  by (induction items) (auto split: option.splits)

lemma check_items_Some:
  "check_items stocks items = Some e \<Longrightarrow>
   (\<exists>it \<in> set items. stocks (ri_SKU it) = None \<and> errors_is e ErrStockNotFound)
   \<or> (\<exists>it \<in> set items. \<exists>s. stocks (ri_SKU it) = Some s \<and> sint (AvailableQty s) < sint (ri_Qty it)
        \<and> errors_is e ErrInsufficientStock)"
  by (induction items) (auto simp: go_simps split: option.splits if_splits)

lemma reserve_items_no_panic:
  "\<forall>it \<in> set items. stocks (ri_SKU it) \<noteq> None \<Longrightarrow> reserve_items f k stocks items tx \<noteq> Panics"
proof (induction items arbitrary: k stocks tx)
  case (Cons it items)
  then show ?case by (auto split: sum.splits)
qed simp

section \<open>The two outcomes of a reservation\<close>

definition reserved_db :: "string \<Rightarrow> gotime \<Rightarrow> string \<Rightarrow> ReservationItem list \<Rightarrow> inv_db \<Rightarrow> inv_db" where
  "reserved_db rid now oid items db =
     \<lparr>stock = map (reserve_row items) (stock db), processed = processed db @ [oid],
      inv_outbox = inv_outbox db
        @ [new_outbox_row rid oid EventTypeStockReserved (marshal_StockReservedEvent oid) now]\<rparr>"

lemma finish_reservation_cases:
  assumes "finish_reservation f k rid now oid db tx = (r, db')"
  obtains (rolled_back) "db' = db" "r \<noteq> None"
  | (finished) "db' = tx\<lparr>processed := processed tx @ [oid], inv_outbox := inv_outbox tx
      @ [new_outbox_row rid oid EventTypeStockReserved (marshal_StockReservedEvent oid) now]\<rparr>"
      "oid \<notin> set (processed tx)" "r = None \<or> (\<exists>m. f_commit f = CommitUnknown m \<and> r = Some (Opaque m))"
  using assms
  by (cases "f_commit f")
    (auto simp: finish_reservation_def inv_insert_outbox_def insert_processed_def
      split: option.splits sum.splits if_splits)

text \<open>
  Over stock that keeps its constraints, also while other transactions commit: a reservation
  that does not roll back is the whole order's.
\<close>

lemma ReserveAll_cases:
  assumes "ReserveAll f meanwhile rid now oid items db = Returns (r, db')"
    and "stock_ok (meanwhile db)"
  obtains (rolled_back) "db' = db \<or> db' = meanwhile db" "r \<noteq> None"
  | (reserved) "db' = reserved_db rid now oid items (meanwhile db)" "stock_ok db'"
      "oid \<notin> set (processed db)" "oid \<notin> set (processed (meanwhile db))"
      "\<forall>it \<in> set items. 0 < sint (ri_Qty it) \<and> has_key sr_sku (ri_SKU it) (stock (meanwhile db))"
      "r = None \<or> (\<exists>m. f_commit f = CommitUnknown m \<and> r = Some (Opaque m))"
proof -
  let ?db1 = "meanwhile db"
  let ?found = "filter (\<lambda>r. sr_sku r \<in> set (map ri_SKU items)) (stock ?db1)"
  consider "db' = db \<or> db' = ?db1" "r \<noteq> None"
    | rows tx where "scan_rows (f_scan f) 0 (delivered (f_rows f) ?found) = (Inr rows :: inv_error + _)"
        "f_rows f = None" "check_items (stock_map rows Map.empty) items = None" "oid \<notin> set (processed db)"
        "reserve_items f 2 (stock_map rows Map.empty) items ?db1 = Returns (Inr tx)"
        "finish_reservation f (2 + length items) rid now oid ?db1 tx = (r, db')"
    using assms(1)
    by (auto simp: ReserveAll_def Let_def split: option.splits sum.splits if_splits call.splits) metis
  then show thesis
  proof cases
    case 1
    then show thesis by (rule rolled_back)
  next
    case 2
    have rows: "rows = ?found" using 2(1,2) by (auto dest: scan_rows_Inr)
    have "agrees (stock_map rows Map.empty) ?db1"
      by (rule agrees_stock_map [OF assms(2)]) (auto simp: rows)
    note effect = reserve_items_effect [OF 2(5) this assms(2)]
    from 2(6) show thesis
    proof (cases rule: finish_reservation_cases)
      case rolled_back
      then show thesis using that(1) by blast
    next
      case finished
      have "has_key sr_sku (ri_SKU it) (stock ?db1)" if "it \<in> set items" for it
      proof -
        have "stock_map rows Map.empty (ri_SKU it) \<noteq> None" using 2(3) that by (auto simp: check_items_None)
        then show ?thesis by (auto simp: stock_map_None rows has_key_def)
      qed
      moreover have "db' = reserved_db rid now oid items ?db1"
        using finished(1) effect by (simp add: reserved_db_def)
      moreover have "stock_ok db' = stock_ok tx" by (simp add: finished(1) stock_ok_def)
      ultimately show thesis using that(2) 2(4) finished(2,3) effect by auto
    qed
  qed
qed

text \<open>An error that names a sentinel is a refusal: nothing was written.\<close>

lemma exec_update_stock_Inl: "exec_update_stock f k s sku tx = Inl e \<Longrightarrow> \<exists>m. e = Opaque m"
  by (auto simp: exec_update_stock_def split: option.splits if_splits)

lemma reserve_items_Inl:
  "reserve_items f k stocks items tx = Returns (Inl e) \<Longrightarrow> errors_is e s \<Longrightarrow> s = ErrInsufficientStock"
proof (induction items arbitrary: k stocks tx)
  case (Cons it items)
  show ?case
  proof (cases "stocks (ri_SKU it)")
    case None
    with Cons.prems show ?thesis by (auto simp: go_simps split: if_splits)
  next
    case (Some st)
    show ?thesis
    proof (cases "Reserve (ri_Qty it) st")
      case (Inl e')
      with Cons.prems Some show ?thesis by (auto simp: go_simps Reserve_def split: if_splits)
    next
      case s': (Inr st')
      show ?thesis
      proof (cases "exec_update_stock f k st' (ri_SKU it) tx")
        case (Inl e')
        with Cons.prems Some s' show ?thesis by (auto simp: go_simps dest: exec_update_stock_Inl)
      next
        case (Inr tx')
        with Cons.prems(1) Some s' have "reserve_items f (Suc k) (stocks(ri_SKU it \<mapsto> st')) items tx' = Returns (Inl e)"
          by simp
        with Cons.IH Cons.prems(2) show ?thesis by blast
      qed
    qed
  qed
qed simp

lemma finish_reservation_no_sentinel:
  assumes "finish_reservation f k rid now oid db tx = (Some e, db')"
  shows "\<not> errors_is e s"
  using assms
  by (cases "f_commit f")
    (auto simp: finish_reservation_def inv_insert_outbox_def insert_processed_def go_simps
      split: option.splits sum.splits if_splits)

lemma ReserveAll_refused:
  assumes "ReserveAll f meanwhile rid now oid items db = Returns (Some e, db')" and "errors_is e s"
  shows "(s = ErrAlreadyProcessed \<and> db' = db \<and> oid \<in> set (processed db)) \<or> (s \<noteq> ErrAlreadyProcessed \<and> db' = meanwhile db)"
proof -
  let ?found = "filter (\<lambda>r. sr_sku r \<in> set (map ri_SKU items)) (stock (meanwhile db))"
  let ?scan = "scan_rows (f_scan f) 0 (delivered (f_rows f) ?found) :: inv_error + stock_row list"
  note eq = assms(1) [unfolded ReserveAll_def Let_def]
  have b: "f_begin f = None" "f_exec f 0 = None"
    using eq assms(2) by (cases "f_begin f"; cases "f_exec f 0"; auto simp: go_simps)+
  show ?thesis
  proof (cases "oid \<in> set (processed db)")
    case True
    with eq b have "e = Sentinel ErrAlreadyProcessed" "db' = db" by auto
    with True assms(2) show ?thesis by simp
  next
    case False
    note eq1 = eq [unfolded b option.case if_not_P [OF False]]
    have x1: "f_exec f 1 = None" using eq1 assms(2) by (cases "f_exec f 1") (auto simp: go_simps)
    note eq2 = eq1 [unfolded x1 option.case]
    obtain rows where rows: "?scan = Inr rows"
    proof (cases ?scan)
      case (Inl e')
      with eq2 assms(2) have "errors_is e' s" by (auto simp: go_simps)
      with scan_rows_Inl [OF Inl] show ?thesis by (auto simp: go_simps)
    qed
    note eq3 = eq2 [unfolded rows sum.case]
    have r1: "f_rows f = None" using eq3 assms(2) by (cases "f_rows f") (auto simp: go_simps)
    note eq4 = eq3 [unfolded r1 option.case]
    let ?stocks = "stock_map rows Map.empty"
    show ?thesis
    proof (cases "check_items ?stocks items")
      case (Some e')
      with eq4 have e': "e' = e" "db' = meanwhile db" by simp_all
      have "errors_is e ErrStockNotFound \<or> errors_is e ErrInsufficientStock"
        using check_items_Some [OF Some] unfolding e' by blast
      then have "s = ErrStockNotFound \<or> s = ErrInsufficientStock"
        using errors_is_unique [OF assms(2)] by blast
      with e'(2) show ?thesis by auto
    next
      case None
      note eq5 = eq4 [unfolded None option.case]
      show ?thesis
      proof (cases "reserve_items f 2 ?stocks items (meanwhile db)")
        case Panics
        with eq5 show ?thesis by simp
      next
        case (Returns res)
        show ?thesis
        proof (cases res)
          case (Inl e')
          with eq5 Returns have "e' = e" "db' = meanwhile db" by simp_all
          with reserve_items_Inl [OF Returns [unfolded Inl]] assms(2) show ?thesis by blast
        next
          case (Inr tx)
          with eq5 Returns have "finish_reservation f (2 + length items) rid now oid (meanwhile db) tx = (Some e, db')"
            by simp
          with finish_reservation_no_sentinel assms(2) show ?thesis by blast
        qed
      qed
    qed
  qed
qed

section \<open>When a reservation succeeds\<close>

lemma ordered_nonneg: "\<forall>it \<in> set items. 0 < sint (ri_Qty it) \<Longrightarrow> 0 \<le> ordered items sku"
  by (induction items) (auto simp: ordered_Cons)

text \<open>Every item is a known SKU and a positive quantity, and the whole order fits into the columns.\<close>

definition fits :: "ReservationItem list \<Rightarrow> inv_db \<Rightarrow> bool" where
  "fits items db \<longleftrightarrow> (\<forall>it \<in> set items. 0 < sint (ri_Qty it) \<and> has_key sr_sku (ri_SKU it) (stock db))
     \<and> (\<forall>r \<in> set (stock db). ordered items (sr_sku r) \<le> sr_available r
          \<and> quantity_column (sr_reserved r + ordered items (sr_sku r)))"

lemma fits_Cons:
  assumes "fits (it # items) db" and "r \<in> set (stock db)" and "sr_sku r = ri_SKU it"
  shows "sint (ri_Qty it) \<le> sr_available r"
    and "0 \<le> sr_reserved r \<Longrightarrow> quantity_column (sr_reserved r + sint (ri_Qty it))"
proof -
  have n: "0 \<le> ordered items (sr_sku r)" "0 < sint (ri_Qty it)"
    and o: "ordered (it # items) (sr_sku r) \<le> sr_available r"
      "quantity_column (sr_reserved r + ordered (it # items) (sr_sku r))"
    using assms(1,2) ordered_nonneg [of items] by (auto simp: fits_def)
  show "sint (ri_Qty it) \<le> sr_available r" using n o(1) assms(3) by (simp add: ordered_Cons)
  show "quantity_column (sr_reserved r + sint (ri_Qty it))" if "0 \<le> sr_reserved r"
    using n o(2) assms(3) that by (simp add: ordered_Cons quantity_column_def int4_range_def)
qed

lemma fits_step:
  "fits (it # items) tx \<Longrightarrow> fits items (tx\<lparr>stock := map (reserve_row [it]) (stock tx)\<rparr>)"
  by (auto simp: fits_def has_key_def reserve_row_def ordered_Cons image_image algebra_simps)

lemma reserve_items_succeeds:
  "agrees stocks tx \<Longrightarrow> stock_ok tx \<Longrightarrow> fits items tx \<Longrightarrow> \<forall>it \<in> set items. stocks (ri_SKU it) \<noteq> None \<Longrightarrow>
   \<exists>tx'. reserve_items no_faults k stocks items tx = Returns (Inr tx')"
proof (induction items arbitrary: k stocks tx)
  case (Cons it items)
  obtain s where s: "stocks (ri_SKU it) = Some s" using Cons.prems(4) by auto
  obtain r where r: "r \<in> set (stock tx)" "sr_sku r = ri_SKU it" "sint (AvailableQty s) = sr_available r"
    "sint (ReservedQty s) = sr_reserved r"
    using Cons.prems(1) s by (auto simp: agrees_def)
  have q: "quantity_column (sint (AvailableQty s))" "quantity_column (sint (ReservedQty s))"
    using Cons.prems(2) r by (auto simp: stock_ok_def)
  have pos: "0 < sint (ri_Qty it)" using Cons.prems(3) by (simp add: fits_def)
  have le: "sint (ri_Qty it) \<le> sint (AvailableQty s)"
    and col: "quantity_column (sint (ReservedQty s) + sint (ri_Qty it))"
    using fits_Cons [OF Cons.prems(3) r(1,2)] r q(2) by (auto simp: quantity_column_def)
  obtain s' where s': "Reserve (ri_Qty it) s = Inr s'" using pos le by (auto simp: Reserve_def)
  note res = Reserve_Inr [OF s' q]
  have "quantity_column (sint (AvailableQty s'))" "quantity_column (sint (ReservedQty s'))"
    using res q(1) col pos by (auto simp: quantity_column_def int4_range_def)
  then obtain tx1 where u: "exec_update_stock no_faults k s' (ri_SKU it) tx = Inr tx1"
    by (simp add: exec_update_stock_def)
  note step = exec_update_stock_reserve [OF s' s u Cons.prems(1,2)]
  have "fits items tx1" unfolding step(1) by (rule fits_step [OF Cons.prems(3)])
  moreover have "\<forall>it' \<in> set items. (stocks(ri_SKU it \<mapsto> s')) (ri_SKU it') \<noteq> None"
    using Cons.prems(4) by simp
  ultimately obtain tx' where "reserve_items no_faults (Suc k) (stocks(ri_SKU it \<mapsto> s')) items tx1 = Returns (Inr tx')"
    using Cons.IH [OF step(3,4)] by blast
  with s s' u show ?case by (intro exI [of _ tx']) simp
qed simp

lemma ordered_ge: "\<forall>i \<in> set items. 0 < sint (ri_Qty i) \<Longrightarrow> it \<in> set items \<Longrightarrow>
  sint (ri_Qty it) \<le> ordered items (ri_SKU it)"
proof (induction items)
  case (Cons i items)
  then have "0 \<le> ordered items (ri_SKU it)" by (intro ordered_nonneg) simp
  with Cons show ?case by (cases "i = it") (auto simp: ordered_Cons)
qed simp

lemma check_items_fits:
  assumes "stock_ok db" and "fits items db"
  shows "check_items (stock_map (filter (\<lambda>r. sr_sku r \<in> set (map ri_SKU items)) (stock db)) Map.empty) items = None"
    (is "check_items ?stocks items = None")
  unfolding check_items_None
proof
  fix it assume it: "it \<in> set items"
  have "ri_SKU it \<in> sr_sku ` set (stock db)" using assms(2) it by (simp add: fits_def has_key_def)
  then obtain r0 where "r0 \<in> set (stock db)" "sr_sku r0 = ri_SKU it" by (metis imageE)
  then have "?stocks (ri_SKU it) \<noteq> None"
    using it by (auto simp: stock_map_None image_iff)
  then obtain s where s: "?stocks (ri_SKU it) = Some s" by auto
  from stock_map_Some [OF s] obtain r where r: "r \<in> set (stock db)" "sr_sku r = ri_SKU it" "s = row_to_stock r"
    by auto
  have "sint (ri_Qty it) \<le> ordered items (ri_SKU it)"
    using ordered_ge it assms(2) by (simp add: fits_def)
  also have "\<dots> \<le> sr_available r" using assms(2) r by (auto simp: fits_def)
  finally show "\<exists>s. ?stocks (ri_SKU it) = Some s \<and> sint (ri_Qty it) \<le> sint (AvailableQty s)"
    using s r assms(1)
    by (auto simp: row_to_stock_def stock_ok_def sint_of_int_in_range quantity_column_int64)
qed

lemma ReserveAll_fits:
  assumes "stock_ok db" and "fits items db" and "oid \<notin> set (processed db)"
  shows "ReserveAll no_faults (\<lambda>db. db) rid now oid items db = Returns (None, reserved_db rid now oid items db)"
proof -
  let ?stocks = "stock_map (filter (\<lambda>r. sr_sku r \<in> set (map ri_SKU items)) (stock db)) Map.empty"
  note check = check_items_fits [OF assms(1,2)]
  have agr: "agrees ?stocks db" by (rule agrees_stock_map [OF assms(1)]) auto
  have "\<forall>it \<in> set items. ?stocks (ri_SKU it) \<noteq> None" using check by (auto simp: check_items_None)
  then obtain tx where tx: "reserve_items no_faults 2 ?stocks items db = Returns (Inr tx)"
    using reserve_items_succeeds [OF agr assms(1,2)] by blast
  have txe: "tx = db\<lparr>stock := map (reserve_row items) (stock db)\<rparr>"
    using reserve_items_effect [OF tx agr assms(1)] by simp
  have fin: "finish_reservation no_faults k rid now oid db tx = (None, reserved_db rid now oid items db)" for k
    using assms(3) unfolding txe
    by (simp add: finish_reservation_def inv_insert_outbox_def insert_processed_def reserved_db_def)
  show ?thesis
    using assms(3) check tx fin by (simp add: ReserveAll_def Let_def)
qed

section \<open>When a reservation is refused\<close>

text \<open>No reserved quantity can outgrow its column, however the available pieces are moved to it.\<close>

definition roomy :: "inv_db \<Rightarrow> bool" where
  "roomy db \<longleftrightarrow> (\<forall>r \<in> set (stock db). quantity_column (sr_reserved r + sr_available r))"

lemma roomy_reserve_row: "roomy db \<Longrightarrow> roomy (db\<lparr>stock := map (reserve_row items) (stock db)\<rparr>)"
  by (simp add: roomy_def reserve_row_def)

lemma reserve_items_refused:
  "reserve_items no_faults k stocks items tx = Returns (Inl e) \<Longrightarrow> agrees stocks tx \<Longrightarrow> stock_ok tx \<Longrightarrow> roomy tx \<Longrightarrow>
   \<forall>it \<in> set items. 0 < sint (ri_Qty it) \<and> stocks (ri_SKU it) \<noteq> None \<Longrightarrow> errors_is e ErrInsufficientStock"
proof (induction items arbitrary: k stocks tx)
  case (Cons it items)
  obtain s where s: "stocks (ri_SKU it) = Some s" using Cons.prems(5) by auto
  obtain r where r: "r \<in> set (stock tx)" "sint (AvailableQty s) = sr_available r" "sint (ReservedQty s) = sr_reserved r"
    using Cons.prems(2) s by (auto simp: agrees_def)
  have q: "quantity_column (sint (AvailableQty s))" "quantity_column (sint (ReservedQty s))"
    "quantity_column (sint (ReservedQty s) + sint (AvailableQty s))"
    using Cons.prems(3,4) r by (auto simp: stock_ok_def roomy_def)
  show ?case
  proof (cases "Reserve (ri_Qty it) s")
    case (Inl e')
    with Cons.prems(1,5) s show ?thesis by (auto simp: go_simps Reserve_def split: if_splits)
  next
    case (Inr s')
    note res = Reserve_Inr [OF Inr q(1,2)]
    have "quantity_column (sint (AvailableQty s'))" "quantity_column (sint (ReservedQty s'))"
      using res q by (auto simp: quantity_column_def int4_range_def)
    then obtain tx1 where u: "exec_update_stock no_faults k s' (ri_SKU it) tx = Inr tx1"
      by (simp add: exec_update_stock_def)
    note step = exec_update_stock_reserve [OF Inr s u Cons.prems(2,3)]
    have "reserve_items no_faults (Suc k) (stocks(ri_SKU it \<mapsto> s')) items tx1 = Returns (Inl e)"
      using Cons.prems(1) s Inr u by simp
    moreover have "roomy tx1" unfolding step(1) by (rule roomy_reserve_row [OF Cons.prems(4)])
    moreover have "\<forall>it' \<in> set items. 0 < sint (ri_Qty it') \<and> (stocks(ri_SKU it \<mapsto> s')) (ri_SKU it') \<noteq> None"
      using Cons.prems(5) by auto
    ultimately show ?thesis by (rule Cons.IH [OF _ step(3,4)])
  qed
qed simp

lemma reserved_db_fits:
  assumes "stock_ok (reserved_db rid now oid items db)"
    and "\<forall>it \<in> set items. 0 < sint (ri_Qty it) \<and> has_key sr_sku (ri_SKU it) (stock db)"
  shows "fits items db"
  using assms by (auto simp: fits_def stock_ok_def reserved_db_def reserve_row_def quantity_column_def)

text \<open>Undisturbed, an order whose quantities are positive is reserved or refused by name.\<close>

lemma ReserveAll_unfit:
  assumes "stock_ok db" and "roomy db" and "oid \<notin> set (processed db)"
    and "\<forall>it \<in> set items. 0 < sint (ri_Qty it)" and "\<not> fits items db"
  shows "\<exists>e. ReserveAll no_faults (\<lambda>db. db) rid now oid items db = Returns (Some e, db)
    \<and> (errors_is e ErrInsufficientStock \<or> errors_is e ErrStockNotFound)"
proof -
  let ?stocks = "stock_map (filter (\<lambda>r. sr_sku r \<in> set (map ri_SKU items)) (stock db)) Map.empty"
  have agr: "agrees ?stocks db" by (rule agrees_stock_map [OF assms(1)]) auto
  show ?thesis
  proof (cases "check_items ?stocks items")
    case (Some e)
    with assms(3) check_items_Some [OF Some] show ?thesis by (auto simp: ReserveAll_def Let_def)
  next
    case None
    then have mapped: "\<forall>it \<in> set items. 0 < sint (ri_Qty it) \<and> ?stocks (ri_SKU it) \<noteq> None"
      using assms(4) by (auto simp: check_items_None)
    obtain res where res: "reserve_items no_faults 2 ?stocks items db = Returns res"
      using reserve_items_no_panic [of items ?stocks] mapped
      by (cases "reserve_items no_faults 2 ?stocks items db") auto
    show ?thesis
    proof (cases res)
      case (Inl e)
      with reserve_items_refused [OF res [unfolded Inl] agr assms(1,2) mapped] assms(3) None res
      show ?thesis by (simp add: ReserveAll_def Let_def)
    next
      case (Inr tx)
      note effect = reserve_items_effect [OF res [unfolded Inr] agr assms(1)]
      have "has_key sr_sku (ri_SKU it) (stock db)" if "it \<in> set items" for it
        using mapped that by (auto simp: stock_map_None has_key_def image_iff)
      then have "fits items db" if "stock_ok (reserved_db rid now oid items db)"
        using assms(4) that by (intro reserved_db_fits) simp_all
      moreover have "stock_ok (reserved_db rid now oid items db) = stock_ok tx"
        using effect by (simp add: reserved_db_def stock_ok_def)
      ultimately show ?thesis using effect assms(5) by blast
    qed
  qed
qed

section \<open>Guarantees of the repository\<close>

text \<open>
  A reservation without failures succeeds whenever every item is a
  known SKU with a positive quantity, the order's quantities per SKU (added up over items that
  repeat one) are available and fit the columns, and the order was not processed before; it takes
  exactly those quantities from available to reserved and records the order and its event.
\<close>

theorem ReserveAll_succeeds:
  assumes "stock_ok db" and "fits items db" and "oid \<notin> set (processed db)"
  shows "\<exists>db'. ReserveAll no_faults (\<lambda>db. db) rid now oid items db = Returns (None, db')
    \<and> stock db' = map (reserve_row items) (stock db) \<and> processed db' = processed db @ [oid]
    \<and> inv_outbox db' = inv_outbox db @ [new_outbox_row rid oid EventTypeStockReserved (marshal_StockReservedEvent oid) now]"
  using ReserveAll_fits [OF assms] by (simp add: reserved_db_def)

definition sample_stock :: inv_db where
  "sample_stock = \<lparr>stock = [\<lparr>sr_sku = ''a'', sr_available = 5, sr_reserved = 0, sr_version = 1\<rparr>,
     \<lparr>sr_sku = ''b'', sr_available = 1, sr_reserved = 2, sr_version = 4\<rparr>], processed = [], inv_outbox = []\<rparr>"

definition sample_reservation :: "ReservationItem list" where
  "sample_reservation = [\<lparr>ri_SKU = ''a'', ri_Qty = 2\<rparr>, \<lparr>ri_SKU = ''a'', ri_Qty = 3\<rparr>]"

lemma sample_stock_ok: "stock_ok sample_stock" "fits sample_reservation sample_stock" "processed sample_stock = []"
  by (simp_all add: sample_stock_def stock_ok_def quantity_column_def int4_range_def sample_reservation_def fits_def
      has_key_def ordered_def)

theorem ReserveAll_succeeds_witness:
  "\<exists>db'. ReserveAll no_faults (\<lambda>db. db) ''r'' (GoTime 2024 1 1 0 0 0 0) ''o1'' sample_reservation sample_stock
      = Returns (None, db') \<and> map sr_available (stock db') = [0, 1] \<and> map sr_reserved (stock db') = [5, 2]"
  using ReserveAll_succeeds [OF sample_stock_ok(1,2), of "''o1''" "''r''" "GoTime 2024 1 1 0 0 0 0"]
  by (auto simp: sample_stock_ok(3)) (simp_all add: sample_stock_def reserve_row_def ordered_def sample_reservation_def)

text \<open>
  Property C14 (safety). A reservation is all or nothing, whatever fails and whatever commits
  between its check and its lock: either nothing was written and an error is returned, or the
  stock of every item, the mark and the event were written together for an order that had not been
  processed, with positive quantities only, and the columns keep their constraints. An error with
  a write happens only when the answer of the commit was lost.
\<close>

theorem ReserveAll_all_or_nothing:
  assumes "ReserveAll f meanwhile rid now oid items db = Returns (r, db')" and "stock_ok (meanwhile db)"
  shows "(r \<noteq> None \<and> (db' = db \<or> db' = meanwhile db))
    \<or> (db' = reserved_db rid now oid items (meanwhile db) \<and> stock_ok db'
       \<and> oid \<notin> set (processed (meanwhile db)) \<and> (\<forall>it \<in> set items. 0 < sint (ri_Qty it))
       \<and> (r = None \<or> (\<exists>m. f_commit f = CommitUnknown m)))"
  using assms by (cases rule: ReserveAll_cases) auto

theorem ReserveAll_all_or_nothing_witness:
  "\<exists>e. ReserveAll (no_faults\<lparr>f_exec := (\<lambda>k. if k = 3 then Some ''deadlock'' else None)\<rparr>) (\<lambda>db. db) ''r''
      (GoTime 2024 1 1 0 0 0 0) ''o1'' sample_reservation sample_stock = Returns (Some e, sample_stock)"
proof -
  let ?f = "no_faults\<lparr>f_exec := (\<lambda>k. if k = 3 then Some ''deadlock'' else None)\<rparr>"
  obtain r db' where res: "ReserveAll ?f (\<lambda>db. db) ''r'' (GoTime 2024 1 1 0 0 0 0) ''o1'' sample_reservation sample_stock
      = Returns (r, db')"
    and some: "r \<noteq> None"
    by (simp add: ReserveAll_def sample_stock_def sample_reservation_def row_to_stock_def Reserve_def
        exec_update_stock_def quantity_column_def int4_range_def Let_def)
  from ReserveAll_all_or_nothing [OF res] sample_stock_ok(1) some have "db' = sample_stock" by auto
  with res some show ?thesis by auto
qed

text \<open>
  On the quantities a column can hold, the domain's two operations
  are exact in 64 bits: a reservation is refused exactly when the quantity is not positive or
  exceeds what is available, otherwise it moves that quantity and keeps the total, and releasing
  the same quantity gives the stock back as it was.
\<close>

theorem Reserve_Release:
  assumes "quantity_column (sint (AvailableQty s))" and "quantity_column (sint (ReservedQty s))"
  shows "case Reserve qty s of
      Inl e \<Rightarrow> sint qty \<le> 0 \<or> sint (AvailableQty s) < sint qty
    | Inr s' \<Rightarrow> 0 < sint qty \<and> sint qty \<le> sint (AvailableQty s)
        \<and> sint (AvailableQty s') = sint (AvailableQty s) - sint qty
        \<and> sint (ReservedQty s') = sint (ReservedQty s) + sint qty
        \<and> Release qty s' = Inr s"
proof (cases "Reserve qty s")
  case (Inl e)
  then show ?thesis by (auto simp: Reserve_def split: if_splits)
next
  case (Inr s')
  note res = Reserve_Inr [OF Inr assms]
  have "s' = s\<lparr>AvailableQty := AvailableQty s - qty, ReservedQty := ReservedQty s + qty\<rparr>"
    using Inr by (auto simp: Reserve_def split: if_splits)
  then have "Release qty s' = Inr s"
    using res assms(2) by (auto simp: Release_def quantity_column_def)
  with Inr res show ?thesis by simp
qed

theorem Reserve_Release_witness:
  "\<exists>s'. Reserve 2 \<lparr>st_SKU = ''a'', AvailableQty = 5, ReservedQty = 1, st_Version = 1\<rparr> = Inr s'
    \<and> sint (AvailableQty s') = 3 \<and> sint (ReservedQty s') = 3
    \<and> Release 2 s' = Inr \<lparr>st_SKU = ''a'', AvailableQty = 5, ReservedQty = 1, st_Version = 1\<rparr>"
proof -
  let ?s = "\<lparr>st_SKU = ''a'', AvailableQty = 5, ReservedQty = 1, st_Version = 1\<rparr>"
  obtain s' where s': "Reserve 2 ?s = Inr s'" by (simp add: Reserve_def)
  from Reserve_Release [of ?s 2] s' show ?thesis by (simp add: quantity_column_def int4_range_def)
qed

end
