(* ===== verification/Inventory_UseCase.thy ===== *)
theory Inventory_UseCase
  imports Inventory_Store Kafka_Consumer
begin

text \<open>
  inventory-service above its repository: \<open>internal/usecase/inventory_usecase.go\<close> and the
  consumer of \<open>order.created\<close>, \<open>internal/consumer/order_created_consumer.go\<close>.

  The locale \<open>stock_repository\<close> states what \<open>ports.StockRepository\<close> promises; what a message
  leaves behind when the consumer counts it as handled is proved inside it and obtained for
  PostgreSQL's repository by interpretation.
\<close>

section \<open>Use case\<close>

definition ReserveStock ::
  "(string \<Rightarrow> ReservationItem list \<Rightarrow> 'db \<Rightarrow> (inv_error option \<times> 'db) call)
   \<Rightarrow> (string \<Rightarrow> string \<Rightarrow> 'db \<Rightarrow> inv_error option \<times> 'db)
   \<Rightarrow> string \<Rightarrow> ReservationItem list \<Rightarrow> 'db \<Rightarrow> (inv_error option \<times> 'db) call" where
  "ReserveStock reserve record_failure oid items db =
     (case reserve oid items db of
        Panics \<Rightarrow> Panics
      | Returns (None, db1) \<Rightarrow> Returns (None, db1)
      | Returns (Some e, db1) \<Rightarrow>
          if errors_is e ErrAlreadyProcessed then Returns (Some e, db1)
          else if errors_is e ErrInsufficientStock \<or> errors_is e ErrStockNotFound then
            (case record_failure oid (error_text inv_error_msg e) db1 of
               (Some re, db2) \<Rightarrow> Returns (Some (Wrapf (''record failure for order '' @ oid @ '': '') re []), db2)
             | (None, db2) \<Rightarrow> Returns (Some e, db2))
          else Returns (Some (Wrapf (''reserve stock for order '' @ oid @ '': '') e []), db1))"

section \<open>Consumer\<close>

record OrderCreatedItem =
  ci_SKU :: string
  ci_Name :: string
  ci_Quantity :: int64

record InvOrderCreatedEvent =
  ic_OrderID :: string
  ic_CustomerID :: string
  ic_Items :: "OrderCreatedItem list"
  ic_CreatedAt :: string

definition fields_OrderCreatedItem :: "OrderCreatedItem fields" where
  "fields_OrderCreatedItem =
     [(''sku'', \<lambda>j r. map_option (\<lambda>s. r\<lparr>ci_SKU := s\<rparr>) (decode_string (ci_SKU r) j)),
      (''name'', \<lambda>j r. map_option (\<lambda>s. r\<lparr>ci_Name := s\<rparr>) (decode_string (ci_Name r) j)),
      (''quantity'', \<lambda>j r. map_option (\<lambda>s. r\<lparr>ci_Quantity := s\<rparr>) (decode_int (ci_Quantity r) j))]"

definition zero_OrderCreatedItem :: OrderCreatedItem where
  "zero_OrderCreatedItem = \<lparr>ci_SKU = [], ci_Name = [], ci_Quantity = 0\<rparr>"

definition fields_InvOrderCreatedEvent :: "InvOrderCreatedEvent fields" where
  "fields_InvOrderCreatedEvent =
     [(''order_id'', \<lambda>j r. map_option (\<lambda>s. r\<lparr>ic_OrderID := s\<rparr>) (decode_string (ic_OrderID r) j)),
      (''customer_id'', \<lambda>j r. map_option (\<lambda>s. r\<lparr>ic_CustomerID := s\<rparr>) (decode_string (ic_CustomerID r) j)),
      (''items'', \<lambda>j r. map_option (\<lambda>s. r\<lparr>ic_Items := s\<rparr>)
         (decode_slice (decode_struct fields_OrderCreatedItem zero_OrderCreatedItem) j)),
      (''created_at'', \<lambda>j r. map_option (\<lambda>s. r\<lparr>ic_CreatedAt := s\<rparr>) (decode_string (ic_CreatedAt r) j))]"

definition zero_InvOrderCreatedEvent :: InvOrderCreatedEvent where
  "zero_InvOrderCreatedEvent = \<lparr>ic_OrderID = [], ic_CustomerID = [], ic_Items = [], ic_CreatedAt = []\<rparr>"

text \<open>The labels of \<open>MessagesProcessedTotal\<close>; the counter is part of the state.\<close>

datatype inv_result = R_unmarshal_error | R_reserved | R_already_processed | R_insufficient_stock | R_error

type_synonym inv_counts = "inv_result \<Rightarrow> nat"

definition count_result :: "'k \<Rightarrow> ('k \<Rightarrow> nat) \<Rightarrow> 'k \<Rightarrow> nat" where
  "count_result k counts = counts(k := Suc (counts k))"

definition reservation_items :: "InvOrderCreatedEvent \<Rightarrow> ReservationItem list" where
  "reservation_items event = map (\<lambda>it. \<lparr>ri_SKU = ci_SKU it, ri_Qty = ci_Quantity it\<rparr>) (ic_Items event)"

definition inv_handleMessage ::
  "(string \<Rightarrow> ReservationItem list \<Rightarrow> 'db \<Rightarrow> (inv_error option \<times> 'db) call) \<Rightarrow> message \<Rightarrow> 'db \<times> inv_counts
   \<Rightarrow> (inv_error option \<times> 'db \<times> inv_counts) call" where
  "inv_handleMessage reserve_stock msg st =
     (case st of (db, counts) \<Rightarrow>
      case unmarshal fields_InvOrderCreatedEvent zero_InvOrderCreatedEvent (msg_value msg) of
        None \<Rightarrow> Returns (None, db, count_result R_unmarshal_error counts)
      | Some event \<Rightarrow>
          (case reserve_stock (ic_OrderID event) (reservation_items event) db of
             Panics \<Rightarrow> Panics
           | Returns (None, db') \<Rightarrow> Returns (None, db', count_result R_reserved counts)
           | Returns (Some e, db') \<Rightarrow>
               if errors_is e ErrAlreadyProcessed
               then Returns (None, db', count_result R_already_processed counts)
               else if errors_is e ErrInsufficientStock \<or> errors_is e ErrStockNotFound
               then Returns (None, db', count_result R_insufficient_stock counts)
               else Returns (Some e, db', count_result R_error counts)))"

section \<open>The contract of a stock repository\<close>

text \<open>
  \<open>seen\<close>: the state an operation works on (other transactions may commit before it locks);
  \<open>done_orders\<close>: the orders whose stock is reserved; \<open>events\<close>: the events in the outbox.
\<close>

locale stock_repository =
  fixes reserve :: "'e \<Rightarrow> string \<Rightarrow> ReservationItem list \<Rightarrow> 'db \<Rightarrow> (inv_error option \<times> 'db) call"
    and record_failure :: "'e \<Rightarrow> string \<Rightarrow> string \<Rightarrow> 'db \<Rightarrow> inv_error option \<times> 'db"
    and seen :: "'e \<Rightarrow> 'db \<Rightarrow> 'db"
    and done_orders :: "'db \<Rightarrow> string set"
    and events :: "'db \<Rightarrow> (string \<times> string \<times> json) list"
    and good :: "'db \<Rightarrow> bool"
  assumes no_panic: "reserve e oid items db \<noteq> Panics"
    and reserve_ok: "reserve e oid items db = Returns (None, db') \<Longrightarrow> good (seen e db) \<Longrightarrow>
      oid \<notin> done_orders (seen e db) \<and> done_orders db' = insert oid (done_orders (seen e db))
      \<and> events db' = events (seen e db) @ [(oid, EventTypeStockReserved, marshal_StockReservedEvent oid)]"
    and reserve_refused: "reserve e oid items db = Returns (Some err, db') \<Longrightarrow> good (seen e db) \<Longrightarrow>
      errors_is err s \<Longrightarrow> (db' = db \<or> db' = seen e db) \<and> (s = ErrAlreadyProcessed \<longrightarrow> oid \<in> done_orders db')"
    and record_ok: "record_failure e oid reason db = (None, db') \<Longrightarrow>
      done_orders db' = done_orders db
      \<and> events db' = events db @ [(oid, EventTypeStockFailed, marshal_StockFailedEvent oid reason)]"
    and record_error: "record_failure e oid reason db = (Some err, db') \<Longrightarrow> \<not> errors_is err s"
begin

text \<open>
  What a message leaves behind that the consumer counts as handled: its order is reserved, now or
  before, or its failure is recorded.
\<close>

definition settled :: "string \<Rightarrow> 'db \<Rightarrow> bool" where
  "settled oid db \<longleftrightarrow> oid \<in> done_orders db
     \<or> (\<exists>reason. (oid, EventTypeStockFailed, marshal_StockFailedEvent oid reason) \<in> set (events db))"

lemma ReserveStock_no_panic: "ReserveStock (reserve e) (record_failure e) oid items db \<noteq> Panics"
  using no_panic by (auto simp: ReserveStock_def split: call.splits option.splits prod.splits)

lemma handle_no_panic:
  "inv_handleMessage (ReserveStock (reserve e) (record_failure e)) msg st \<noteq> Panics"
  using ReserveStock_no_panic
  by (auto simp: inv_handleMessage_def split: call.splits option.splits prod.splits)

lemma ReserveStock_settles:
  assumes "ReserveStock (reserve e) (record_failure e) oid items db = Returns (r, db')"
    and "good (seen e db)"
    and "case r of None \<Rightarrow> True | Some err \<Rightarrow> (\<exists>s. errors_is err s)"
  shows "settled oid db'"
proof -
  obtain r1 db1 where res: "reserve e oid items db = Returns (r1, db1)"
    using no_panic by (cases "reserve e oid items db") auto
  show ?thesis
  proof (cases r1)
    case None
    with assms(1) res have "db' = db1" by (simp add: ReserveStock_def)
    with reserve_ok [OF res [unfolded None] assms(2)] show ?thesis by (simp add: settled_def)
  next
    case (Some err)
    note refused = reserve_refused [OF res [unfolded Some] assms(2)]
    consider "errors_is err ErrAlreadyProcessed" | "\<not> errors_is err ErrAlreadyProcessed"
      "errors_is err ErrInsufficientStock \<or> errors_is err ErrStockNotFound" | "\<forall>s. \<not> errors_is err s"
      by (metis (full_types) inv_sentinel.exhaust)
    then show ?thesis
    proof cases
      case 1
      with assms(1) res Some have "db' = db1" by (simp add: ReserveStock_def)
      with refused 1 show ?thesis by (auto simp: settled_def)
    next
      case 2
      obtain r2 db2 where rf: "record_failure e oid (error_text inv_error_msg err) db1 = (r2, db2)" by fastforce
      show ?thesis
      proof (cases r2)
        case None
        with assms(1) res Some 2 rf have "db' = db2" by (auto simp: ReserveStock_def)
        with record_ok [OF rf [unfolded None]] show ?thesis by (auto simp: settled_def)
      next
        case e2: (Some err2)
        with assms(1) res Some 2 rf have "r = Some (Wrapf (''record failure for order '' @ oid @ '': '') err2 [])"
          by (auto simp: ReserveStock_def)
        with assms(3) record_error [OF rf [unfolded e2]] show ?thesis by auto
      qed
    next
      case 3
      with assms(1) res Some have "r = Some (Wrapf (''reserve stock for order '' @ oid @ '': '') err [])"
        by (simp add: ReserveStock_def)
      with assms(3) 3 show ?thesis by auto
    qed
  qed
qed

lemma handled_settled:
  assumes "inv_handleMessage (ReserveStock (reserve e) (record_failure e)) msg (db, counts) = Returns (None, db', counts')"
    and "unmarshal fields_InvOrderCreatedEvent zero_InvOrderCreatedEvent (msg_value msg) = Some event"
    and "good (seen e db)"
  shows "settled (ic_OrderID event) db'"
proof -
  obtain r db1 where res: "ReserveStock (reserve e) (record_failure e) (ic_OrderID event)
      (reservation_items event) db = Returns (r, db1)"
    using ReserveStock_no_panic by (metis call.exhaust prod.exhaust)
  have "db' = db1 \<and> (case r of None \<Rightarrow> True | Some err \<Rightarrow> (\<exists>s. errors_is err s))"
    using assms(1,2) res by (auto simp: inv_handleMessage_def split: option.splits if_splits)
  with ReserveStock_settles [OF res assms(3)] show ?thesis by simp
qed

end

section \<open>PostgreSQL's repository keeps the contract\<close>

text \<open>
  The surroundings of one message: the failures of the reservation and of the record of a failure,
  what commits meanwhile, the ids and times of the rows.
\<close>

record inv_env =
  ie_reserve :: db_faults
  ie_record :: db_faults
  ie_meanwhile :: "inv_db \<Rightarrow> inv_db"
  ie_rid :: string
  ie_now :: gotime

definition pg_reserve :: "inv_env \<Rightarrow> string \<Rightarrow> ReservationItem list \<Rightarrow> inv_db \<Rightarrow> (inv_error option \<times> inv_db) call" where
  "pg_reserve e oid items db = ReserveAll (ie_reserve e) (ie_meanwhile e) (ie_rid e) (ie_now e) oid items db"

definition pg_record :: "inv_env \<Rightarrow> string \<Rightarrow> string \<Rightarrow> inv_db \<Rightarrow> inv_error option \<times> inv_db" where
  "pg_record e oid reason db = RecordFailure (ie_record e) (ie_rid e) (ie_now e) oid reason db"

definition inv_events :: "inv_db \<Rightarrow> (string \<times> string \<times> json) list" where
  "inv_events db = map (\<lambda>r. (ob_aggregate r, ob_type r, ob_payload r)) (inv_outbox db)"

lemma ReserveAll_no_panic: "ReserveAll f meanwhile rid now oid items db \<noteq> Panics"
proof -
  have "reserve_items f 2 (stock_map rows Map.empty) items tx \<noteq> Panics"
    if "check_items (stock_map rows Map.empty) items = None" for rows tx
    using that reserve_items_no_panic by (fastforce simp: check_items_None)
  then show ?thesis
    by (auto simp: ReserveAll_def Let_def split: option.splits sum.splits call.splits)
qed

interpretation pgs: stock_repository pg_reserve pg_record ie_meanwhile "\<lambda>db. set (processed db)" inv_events stock_ok
proof unfold_locales
  fix e oid items db
  show "pg_reserve e oid items db \<noteq> Panics" by (simp add: pg_reserve_def ReserveAll_no_panic)
next
  fix e oid items db db'
  assume "pg_reserve e oid items db = Returns (None, db')" and "stock_ok (ie_meanwhile e db)"
  then show "oid \<notin> set (processed (ie_meanwhile e db))
      \<and> set (processed db') = insert oid (set (processed (ie_meanwhile e db)))
      \<and> inv_events db' = inv_events (ie_meanwhile e db)
          @ [(oid, EventTypeStockReserved, marshal_StockReservedEvent oid)]"
    unfolding pg_reserve_def
    by (cases rule: ReserveAll_cases)
      (simp_all add: reserved_db_def inv_events_def new_outbox_row_def)
next
  fix e oid items db err db' s
  assume "pg_reserve e oid items db = Returns (Some err, db')" and "errors_is err s"
  then show "(db' = db \<or> db' = ie_meanwhile e db) \<and> (s = ErrAlreadyProcessed \<longrightarrow> oid \<in> set (processed db'))"
    unfolding pg_reserve_def by (auto dest: ReserveAll_refused)
next
  fix e oid reason db db'
  assume "pg_record e oid reason db = (None, db')"
  then show "set (processed db') = set (processed db)
      \<and> inv_events db' = inv_events db @ [(oid, EventTypeStockFailed, marshal_StockFailedEvent oid reason)]"
    by (cases "f_commit (ie_record e)")
      (auto simp: pg_record_def RecordFailure_def inv_insert_outbox_def inv_events_def new_outbox_row_def
        split: option.splits)
next
  fix e oid reason db err db' s
  assume "pg_record e oid reason db = (Some err, db')"
  then show "\<not> errors_is err s"
    by (cases "f_commit (ie_record e)")
      (auto simp: pg_record_def RecordFailure_def inv_insert_outbox_def go_simps split: option.splits)
qed

end
