(* ===== verification/Inventory_System.thy ===== *)
theory Inventory_System
  imports Inventory_UseCase
begin

text \<open>
  inventory-service as a system: any number of consumers reserving stock, failures being recorded
  and outbox workers (\<open>internal/outbox/worker.go\<close>) over one database.

  A state holds the database, the databases before it (a reservation's check of
  \<open>processed_events\<close> may have seen an older one), what Kafka has received, and a ledger of the
  orders whose reservation committed, which no code reads. The theorems show that stock is never
  oversold and that every order is reserved at most once.
\<close>

section \<open>The outbox worker\<close>

definition inv_markSentTx :: "db_faults \<Rightarrow> nat \<Rightarrow> gotime \<Rightarrow> string \<Rightarrow> inv_db \<Rightarrow> inv_error + inv_db" where
  "inv_markSentTx f k now rid tx =
     (case f_exec f k of
        Some m \<Rightarrow> Inl (Opaque m)
      | None \<Rightarrow> Inr (tx\<lparr>inv_outbox := mark_sent now rid (inv_outbox tx)\<rparr>))"

definition inv_worker_body ::
  "db_faults \<Rightarrow> (nat \<Rightarrow> gotime) \<Rightarrow> nat \<Rightarrow> OutboxRecord \<Rightarrow> inv_db \<Rightarrow> inv_error + inv_db" where
  "inv_worker_body f now k rec tx = inv_markSentTx f (1 + k) (now k) (rec_ID rec) tx"

definition inv_processBatch ::
  "db_faults \<Rightarrow> (string \<Rightarrow> bool) \<Rightarrow> (nat \<Rightarrow> publish_result) \<Rightarrow> (nat \<Rightarrow> gotime) \<Rightarrow> nat
   \<Rightarrow> inv_db \<Rightarrow> message list \<Rightarrow> inv_error option \<times> inv_db \<times> message list" where
  "inv_processBatch f locked pub now batch db log =
     process_batch f locked pub batch inv_outbox (inv_worker_body f now) db log"

definition inv_worker_Run ::
  "nat \<Rightarrow> tick_env worker_event list \<Rightarrow> inv_db \<times> message list \<Rightarrow> inv_db \<times> message list" where
  "inv_worker_Run batch evs st =
     run_worker (\<lambda>e (db, log). inv_processBatch (te_faults e) (te_locked e) (te_publish e) (te_now e) batch db log) evs st"

lemma inv_worker_body_Inr:
  "inv_worker_body f tm k rec tx = Inr tx' \<Longrightarrow> tx' = tx\<lparr>inv_outbox := mark_sent (tm k) (rec_ID rec) (inv_outbox tx)\<rparr>"
  by (auto simp: inv_worker_body_def inv_markSentTx_def split: option.splits)

interpretation iw: outbox_worker inv_outbox tm "inv_worker_body f tm" for f tm
  by unfold_locales (auto dest: inv_worker_body_Inr)

interpretation iwr: reliable_outbox_worker inv_outbox tm "inv_worker_body no_faults tm" for tm
  by unfold_locales (simp add: inv_worker_body_def inv_markSentTx_def)

text \<open>The loop of the worker neither touches the stock nor loses an event.\<close>

lemma inv_worker_Run_published:
  assumes "distinct (map ob_id (inv_outbox db))" and "sent_published (inv_outbox db) log"
    and "inv_worker_Run batch evs (db, log) = (db', log')"
  shows "sent_published (inv_outbox db') log' \<and> map ob_id (inv_outbox db') = map ob_id (inv_outbox db)"
proof -
  let ?P = "\<lambda>(d, l). sent_published (inv_outbox d) l \<and> map ob_id (inv_outbox d) = map ob_id (inv_outbox db)"
  have "?P (run_worker (\<lambda>e (db, log). inv_processBatch (te_faults e) (te_locked e) (te_publish e) (te_now e) batch db log)
      evs (db, log))"
  proof (rule run_worker_inv [where P = ?P])
    fix e and st :: "inv_db \<times> message list"
    assume inv: "?P st"
    obtain d l where st: "st = (d, l)" by fastforce
    obtain r d' l' where t: "inv_processBatch (te_faults e) (te_locked e) (te_publish e) (te_now e) batch d l = (r, d', l')"
      by (metis prod.exhaust)
    have "distinct (map ob_id (inv_outbox d))" using inv assms(1) by (simp add: st)
    then show "?P (snd ((\<lambda>(db, log). inv_processBatch (te_faults e) (te_locked e) (te_publish e) (te_now e) batch db log) st))"
      using iw.tick_sent_published [OF t [unfolded inv_processBatch_def]] iw.tick_ids [OF t [unfolded inv_processBatch_def]]
        inv by (simp add: st t)
  qed (use assms in simp)
  with assms(3) show ?thesis by (simp add: inv_worker_Run_def)
qed

lemma inv_loop_other:
  "publish_loop pub (inv_worker_body f tm) k recs tx log = (Inr tx', log') \<Longrightarrow>
   stock tx' = stock tx \<and> processed tx' = processed tx"
proof (induction recs arbitrary: k tx log)
  case (Cons rec recs)
  from Cons.prems(1) obtain tx1 log1 where b: "inv_worker_body f tm k rec tx = Inr tx1"
    and rest: "publish_loop pub (inv_worker_body f tm) (Suc k) recs tx1 log1 = (Inr tx', log')"
    by (auto split: prod.splits option.splits sum.splits)
  from Cons.IH [OF rest] inv_worker_body_Inr [OF b] show ?case by simp
qed simp

section \<open>The system\<close>

record inv_sys =
  iv_db :: inv_db
  iv_past :: "inv_db list"
  iv_log :: "message list"
  iv_ledger :: "(string \<times> ReservationItem list) list"

definition inv_sys_init :: "stock_row list \<Rightarrow> inv_sys" where
  "inv_sys_init stock0 = \<lparr>iv_db = \<lparr>stock = stock0, processed = [], inv_outbox = []\<rparr>,
     iv_past = [], iv_log = [], iv_ledger = []\<rparr>"

text \<open>A reservation that rolls back changes nothing and needs no step.\<close>

inductive inv_sys_step :: "inv_sys \<Rightarrow> inv_sys \<Rightarrow> bool" where
  reserve_order:
    "old \<in> set (iv_db s # iv_past s) \<Longrightarrow>
     rid \<notin> set (map ob_id (inv_outbox (iv_db s))) \<Longrightarrow>
     ReserveAll f (\<lambda>_. iv_db s) rid now oid items old = Returns (r, db') \<Longrightarrow>
     db' \<noteq> old \<Longrightarrow> db' \<noteq> iv_db s \<Longrightarrow>
     inv_sys_step s (s\<lparr>iv_db := db', iv_past := iv_db s # iv_past s, iv_ledger := iv_ledger s @ [(oid, items)]\<rparr>)"
| record_failure:
    "rid \<notin> set (map ob_id (inv_outbox (iv_db s))) \<Longrightarrow>
     RecordFailure f rid now oid reason (iv_db s) = (r, db') \<Longrightarrow>
     inv_sys_step s (s\<lparr>iv_db := db', iv_past := iv_db s # iv_past s\<rparr>)"
| worker_tick:
    "inv_processBatch f locked pub tm batch (iv_db s) (iv_log s) = (r, db', log') \<Longrightarrow>
     inv_sys_step s (s\<lparr>iv_db := db', iv_past := iv_db s # iv_past s, iv_log := log'\<rparr>)"

inductive inv_sys_reachable :: "stock_row list \<Rightarrow> inv_sys \<Rightarrow> bool" for stock0 where
  init: "inv_sys_reachable stock0 (inv_sys_init stock0)"
| step: "inv_sys_reachable stock0 s \<Longrightarrow> inv_sys_step s s' \<Longrightarrow> inv_sys_reachable stock0 s'"

inductive_cases inv_sys_stepE: "inv_sys_step s s'"

definition ledger_total :: "(string \<times> ReservationItem list) list \<Rightarrow> string \<Rightarrow> int" where
  "ledger_total ledger sku = (\<Sum>(oid, items)\<leftarrow>ledger. ordered items sku)"

text \<open>A row of today from the row of the start and what has been reserved since.\<close>

definition accounts_for :: "stock_row \<Rightarrow> (string \<times> ReservationItem list) list \<Rightarrow> stock_row \<Rightarrow> bool" where
  "accounts_for r0 ledger r \<longleftrightarrow> sr_sku r = sr_sku r0
     \<and> sr_available r = sr_available r0 - ledger_total ledger (sr_sku r0)
     \<and> sr_reserved r = sr_reserved r0 + ledger_total ledger (sr_sku r0)"

definition inv_inv :: "stock_row list \<Rightarrow> inv_sys \<Rightarrow> bool" where
  "inv_inv stock0 s \<longleftrightarrow> stock_ok (iv_db s)
     \<and> list_all2 (\<lambda>r0 r. accounts_for r0 (iv_ledger s) r) stock0 (stock (iv_db s))
     \<and> distinct (map fst (iv_ledger s)) \<and> processed (iv_db s) = map fst (iv_ledger s)
     \<and> (\<forall>(oid, items) \<in> set (iv_ledger s). \<forall>it \<in> set items. 0 < sint (ri_Qty it))
     \<and> distinct (map ob_id (inv_outbox (iv_db s)))
     \<and> map ob_aggregate (filter (\<lambda>e. ob_type e = EventTypeStockReserved) (inv_outbox (iv_db s)))
         = processed (iv_db s)
     \<and> sent_published (inv_outbox (iv_db s)) (iv_log s)"

lemma stock_events_distinct [simp]:
  "EventTypeStockFailed \<noteq> EventTypeStockReserved" "EventTypeStockReserved \<noteq> EventTypeStockFailed"
  by (simp_all add: EventTypeStockFailed_def EventTypeStockReserved_def)

lemma ledger_total_snoc: "ledger_total (ledger @ [(oid, items)]) sku = ledger_total ledger sku + ordered items sku"
  by (simp add: ledger_total_def)

lemma accounts_for_reserve:
  "accounts_for r0 ledger r \<Longrightarrow> accounts_for r0 (ledger @ [(oid, items)]) (reserve_row items r)"
  by (simp add: accounts_for_def ledger_total_snoc reserve_row_def)

lemma ob_types_mark_sent:
  "map ob_aggregate (filter (\<lambda>e. ob_type e = ty) (mark_sent now rid box))
   = map ob_aggregate (filter (\<lambda>e. ob_type e = ty) box)"
  by (induction box) (auto simp: mark_sent_def update_where_Cons)

lemma ob_types_mark_all:
  "map ob_aggregate (filter (\<lambda>e. ob_type e = ty) (mark_all now k ids box))
   = map ob_aggregate (filter (\<lambda>e. ob_type e = ty) box)"
  by (induction ids arbitrary: k box) (simp_all add: ob_types_mark_sent)

lemma sent_published_new:
  "sent_published box log \<Longrightarrow> sent_published (box @ [new_outbox_row rid a ty p now]) log"
  by (auto simp: sent_published_def new_outbox_row_def)

lemma RecordFailure_cases:
  assumes "RecordFailure f rid now oid reason db = (r, db')"
  obtains (unchanged) "db' = db" "r \<noteq> None"
  | (recorded) "db' = db\<lparr>inv_outbox := inv_outbox db
      @ [new_outbox_row rid oid EventTypeStockFailed (marshal_StockFailedEvent oid reason) now]\<rparr>"
  using assms
  by (cases "f_commit f")
    (auto simp: RecordFailure_def inv_insert_outbox_def split: option.splits)

lemma inv_step_inv:
  assumes "inv_sys_step s s'" and "inv_inv stock0 s"
  shows "inv_inv stock0 s'"
  using assms
proof (induction rule: inv_sys_step.induct)
  case (reserve_order old s rid f now oid items r db')
  have "stock_ok ((\<lambda>_. iv_db s) old)" using reserve_order.prems by (simp add: inv_inv_def)
  from reserve_order.hyps(3) this show ?case
  proof (cases rule: ReserveAll_cases)
    case rolled_back
    with reserve_order.hyps show ?thesis by simp
  next
    case reserved
    have "list_all2 (\<lambda>r0 r. accounts_for r0 (iv_ledger s @ [(oid, items)]) r) stock0
        (map (reserve_row items) (stock (iv_db s)))"
      using reserve_order.prems
      by (auto simp: inv_inv_def list_all2_conv_all_nth accounts_for_reserve)
    with reserved reserve_order.prems reserve_order.hyps(2) show ?thesis
      by (auto simp: inv_inv_def reserved_db_def sent_published_new new_outbox_row_def)
        (auto simp: sent_published_def)
  qed
next
  case (record_failure rid s f now oid reason r db')
  from record_failure.hyps(2) show ?case
  proof (cases rule: RecordFailure_cases)
    case unchanged
    with record_failure.prems show ?thesis by (simp add: inv_inv_def)
  next
    case recorded
    have "sent_published (inv_outbox db') (iv_log s)"
      using record_failure.prems by (simp add: recorded sent_published_new inv_inv_def)
    with recorded record_failure.prems record_failure.hyps(1) show ?thesis
      by (auto simp: inv_inv_def stock_ok_def new_outbox_row_def)
  qed
next
  case (worker_tick f locked pub tm batch s r db' log')
  note tick = worker_tick.hyps [unfolded inv_processBatch_def]
  have dist: "distinct (map ob_id (inv_outbox (iv_db s)))"
    and pub: "sent_published (inv_outbox (iv_db s)) (iv_log s)"
    using worker_tick.prems by (simp_all add: inv_inv_def)
  note pub' = iw.tick_sent_published [OF tick pub dist]
  have "stock db' = stock (iv_db s) \<and> processed db' = processed (iv_db s)
    \<and> map ob_id (inv_outbox db') = map ob_id (inv_outbox (iv_db s))
    \<and> map ob_aggregate (filter (\<lambda>e. ob_type e = EventTypeStockReserved) (inv_outbox db'))
      = map ob_aggregate (filter (\<lambda>e. ob_type e = EventTypeStockReserved) (inv_outbox (iv_db s)))"
    using tick
  proof (cases rule: iw.tick_cases)
    case (sent rs)
    then show ?thesis using inv_loop_other [OF sent(2)] by (simp add: ob_types_mark_all)
  qed simp
  with pub' worker_tick.prems show ?case by (auto simp: inv_inv_def stock_ok_def)
qed

lemma reachable_inv_inv:
  "inv_sys_reachable stock0 s \<Longrightarrow> stock_ok (iv_db (inv_sys_init stock0)) \<Longrightarrow> inv_inv stock0 s"
proof (induction rule: inv_sys_reachable.induct)
  case init
  then show ?case
    by (simp add: inv_inv_def inv_sys_init_def accounts_for_def ledger_total_def list_all2_same sent_published_def)
qed (blast intro: inv_step_inv)

lemma ledger_total_nonneg:
  "\<forall>(oid, items) \<in> set ledger. \<forall>it \<in> set items. 0 < sint (ri_Qty it) \<Longrightarrow> 0 \<le> ledger_total ledger sku"
  by (induction ledger) (auto simp: ledger_total_def intro!: add_nonneg_nonneg ordered_nonneg)

text \<open>The row of a SKU accounts for the ledger, and the ledger is covered.\<close>

lemma ledger_row:
  assumes "inv_inv stock0 s" and "r0 \<in> set stock0"
  obtains r where "r \<in> set (stock (iv_db s))" "accounts_for r0 (iv_ledger s) r" "0 \<le> sr_available r"
proof -
  obtain i where i: "i < length stock0" "r0 = stock0 ! i" using assms(2) by (metis in_set_conv_nth)
  have "list_all2 (\<lambda>r0 r. accounts_for r0 (iv_ledger s) r) stock0 (stock (iv_db s))"
    using assms(1) by (simp add: inv_inv_def)
  then have r: "stock (iv_db s) ! i \<in> set (stock (iv_db s))" "accounts_for r0 (iv_ledger s) (stock (iv_db s) ! i)"
    using i by (auto simp: list_all2_conv_all_nth)
  then have "0 \<le> sr_available (stock (iv_db s) ! i)"
    using assms(1) by (auto simp: inv_inv_def stock_ok_def quantity_column_def)
  with r show thesis by (rule that)
qed

lemma ledger_covered:
  assumes "inv_inv stock0 s" and "r0 \<in> set stock0"
  shows "ledger_total (iv_ledger s) (sr_sku r0) \<le> sr_available r0"
  using ledger_row [OF assms] by (auto simp: accounts_for_def)

section \<open>Guarantees of inventory-service\<close>

text \<open>
  Property C10 (safety). Stock is never oversold: in every state reachable by reservations,
  failures, retries and worker ticks with any failures and with checks of an outdated state, each
  SKU's reserved quantity has grown and its available quantity has shrunk by exactly what the
  reserved orders ask for, each counted once, and the orders together ask for no more than there
  was at the start.
\<close>

theorem stock_never_oversold:
  assumes "inv_sys_reachable stock0 s" and "stock_ok (iv_db (inv_sys_init stock0))" and "r0 \<in> set stock0"
  shows "distinct (map fst (iv_ledger s))
    \<and> 0 \<le> ledger_total (iv_ledger s) (sr_sku r0) \<and> ledger_total (iv_ledger s) (sr_sku r0) \<le> sr_available r0
    \<and> (\<exists>r \<in> set (stock (iv_db s)). accounts_for r0 (iv_ledger s) r)"
proof -
  have inv: "inv_inv stock0 s" using reachable_inv_inv [OF assms(1,2)] .
  have "0 \<le> ledger_total (iv_ledger s) (sr_sku r0)"
    using inv by (intro ledger_total_nonneg) (simp add: inv_inv_def)
  moreover have "distinct (map fst (iv_ledger s))" using inv by (simp add: inv_inv_def)
  ultimately show ?thesis
    using ledger_covered [OF inv assms(3)] ledger_row [OF inv assms(3)] by blast
qed

definition sample_reserved :: inv_sys where
  "sample_reserved = \<lparr>iv_db = reserved_db ''r1'' (GoTime 2024 1 1 0 0 0 0) ''o1'' sample_reservation sample_stock,
     iv_past = [sample_stock], iv_log = [], iv_ledger = [(''o1'', sample_reservation)]\<rparr>"

lemma init_sample_stock: "iv_db (inv_sys_init (stock sample_stock)) = sample_stock"
  by (simp add: inv_sys_init_def sample_stock_def)

lemma reachable_sample_reserved: "inv_sys_reachable (stock sample_stock) sample_reserved"
proof -
  let ?s = "inv_sys_init (stock sample_stock)"
  let ?t = "GoTime 2024 1 1 0 0 0 0"
  have "ReserveAll no_faults (\<lambda>db. db) ''r1'' ?t ''o1'' sample_reservation sample_stock
      = Returns (None, reserved_db ''r1'' ?t ''o1'' sample_reservation sample_stock)"
    by (rule ReserveAll_fits) (simp_all add: sample_stock_ok)
  then have "ReserveAll no_faults (\<lambda>_. iv_db ?s) ''r1'' ?t ''o1'' sample_reservation (iv_db ?s)
      = Returns (None, reserved_db ''r1'' ?t ''o1'' sample_reservation sample_stock)"
    by (simp add: init_sample_stock ReserveAll_def)
  moreover have "reserved_db ''r1'' ?t ''o1'' sample_reservation sample_stock \<noteq> iv_db ?s"
    unfolding init_sample_stock by (simp add: reserved_db_def sample_stock_def)
  ultimately have "inv_sys_step ?s sample_reserved"
    using inv_sys_step.reserve_order [of "iv_db ?s" ?s "''r1''" no_faults ?t "''o1''" sample_reservation None]
    by (simp add: sample_reserved_def inv_sys_init_def sample_stock_def)
  then show ?thesis by (rule inv_sys_reachable.step [OF inv_sys_reachable.init])
qed

theorem stock_never_oversold_witness:
  "\<exists>r \<in> set (stock (iv_db sample_reserved)). sr_sku r = ''a'' \<and> sr_available r = 0 \<and> sr_reserved r = 5"
proof -
  let ?r0 = "\<lparr>sr_sku = ''a'', sr_available = 5, sr_reserved = 0, sr_version = 1\<rparr>"
  have ok: "stock_ok (iv_db (inv_sys_init (stock sample_stock)))"
    by (simp add: init_sample_stock sample_stock_ok)
  have "?r0 \<in> set (stock sample_stock)" by (simp add: sample_stock_def)
  from stock_never_oversold [OF reachable_sample_reserved ok this] show ?thesis
    by (auto simp: accounts_for_def sample_reserved_def ledger_total_def sample_reservation_def ordered_def)
qed

text \<open>
  The reserved orders are exactly those marked as processed, none
  twice, and exactly those with a \<open>stock.reserved\<close> event, one event each; what is marked as sent
  is in Kafka.
\<close>

theorem one_event_per_reservation:
  assumes "inv_sys_reachable stock0 s" and "stock_ok (iv_db (inv_sys_init stock0))"
  shows "processed (iv_db s) = map fst (iv_ledger s) \<and> distinct (processed (iv_db s))
    \<and> map ob_aggregate (filter (\<lambda>e. ob_type e = EventTypeStockReserved) (inv_outbox (iv_db s))) = processed (iv_db s)
    \<and> sent_published (inv_outbox (iv_db s)) (iv_log s)"
  using reachable_inv_inv [OF assms] by (simp add: inv_inv_def)

theorem one_event_per_reservation_witness:
  "processed (iv_db sample_reserved) = [''o1''] \<and> length (inv_outbox (iv_db sample_reserved)) = 1
    \<and> map ob_aggregate (filter (\<lambda>e. ob_type e = EventTypeStockReserved) (inv_outbox (iv_db sample_reserved))) = [''o1'']"
proof -
  have ok: "stock_ok (iv_db (inv_sys_init (stock sample_stock)))"
    by (simp add: init_sample_stock sample_stock_ok)
  have "length (inv_outbox (iv_db sample_reserved)) = 1"
    by (simp add: sample_reserved_def reserved_db_def sample_stock_def)
  with one_event_per_reservation [OF reachable_sample_reserved ok] show ?thesis
    by (simp add: sample_reserved_def)
qed

text \<open>The consumer over PostgreSQL's repository.\<close>

definition pg_handleMessage ::
  "inv_env \<Rightarrow> message \<Rightarrow> inv_db \<times> inv_counts \<Rightarrow> (inv_error option \<times> inv_db \<times> inv_counts) call" where
  "pg_handleMessage e = inv_handleMessage (ReserveStock (pg_reserve e) (pg_record e))"

definition inv_Run ::
  "inv_env visit list \<Rightarrow> inv_db \<times> inv_counts \<Rightarrow> (inv_db \<times> inv_counts) \<times> inv_sentinel action list" where
  "inv_Run visits st = consume_loop pg_handleMessage visits st"

text \<open>
  Property C26 (safety). When the consumer counts a well-formed \<open>order.created\<close> message as
  handled, its order is settled: its stock is reserved, by this message or before, or a
  \<open>stock.failed\<close> event with the reason is in the outbox.
\<close>

theorem handled_orders_settled:
  assumes "pg_handleMessage e msg (db, counts) = Returns (None, db', counts')"
    and "unmarshal fields_InvOrderCreatedEvent zero_InvOrderCreatedEvent (msg_value msg) = Some event"
    and "stock_ok (ie_meanwhile e db)"
  shows "ic_OrderID event \<in> set (processed db')
    \<or> (\<exists>reason. (ic_OrderID event, EventTypeStockFailed, marshal_StockFailedEvent (ic_OrderID event) reason)
         \<in> set (inv_events db'))"
  using pgs.handled_settled [OF assms(1) [unfolded pg_handleMessage_def] assms(2,3)]
  by (simp add: pgs.settled_def)

definition sample_env :: inv_env where
  "sample_env = \<lparr>ie_reserve = no_faults, ie_record = no_faults, ie_meanwhile = (\<lambda>db. db), ie_rid = ''r1'',
     ie_now = GoTime 2024 1 1 0 0 0 0\<rparr>"

definition created_message :: "string \<Rightarrow> string \<Rightarrow> int \<Rightarrow> message" where
  "created_message oid sku qty = \<lparr>msg_topic = ''order.created'', msg_key = oid, msg_value = Doc (JObj
     [(''order_id'', JStr oid), (''items'', JArr [JObj [(''sku'', JStr sku), (''quantity'', JInt qty)]])])\<rparr>"

lemma unmarshal_created_message:
  "int64_range qty \<Longrightarrow>
   unmarshal fields_InvOrderCreatedEvent zero_InvOrderCreatedEvent (msg_value (created_message oid sku qty))
   = Some \<lparr>ic_OrderID = oid, ic_CustomerID = [],
       ic_Items = [\<lparr>ci_SKU = sku, ci_Name = [], ci_Quantity = word_of_int qty\<rparr>], ic_CreatedAt = []\<rparr>"
  by (simp add: created_message_def fields_InvOrderCreatedEvent_def zero_InvOrderCreatedEvent_def
      fields_OrderCreatedItem_def zero_OrderCreatedItem_def find_field_def upper_def)

lemmas run_inventory = pg_handleMessage_def inv_handleMessage_def ReserveStock_def pg_reserve_def pg_record_def
  ReserveAll_def RecordFailure_def inv_insert_outbox_def reservation_items_def sample_env_def Let_def

theorem handled_orders_settled_witness:
  "\<exists>db' counts'. pg_handleMessage sample_env (created_message ''o1'' ''zz'' 1) (sample_stock, \<lambda>_. 0)
      = Returns (None, db', counts') \<and> ''o1'' \<notin> set (processed db')
    \<and> (\<exists>reason. (''o1'', EventTypeStockFailed, marshal_StockFailedEvent ''o1'' reason) \<in> set (inv_events db'))"
proof -
  have u: "unmarshal fields_InvOrderCreatedEvent zero_InvOrderCreatedEvent (msg_value (created_message ''o1'' ''zz'' 1))
   = Some \<lparr>ic_OrderID = ''o1'', ic_CustomerID = [],
       ic_Items = [\<lparr>ci_SKU = ''zz'', ci_Name = [], ci_Quantity = word_of_int 1\<rparr>], ic_CreatedAt = []\<rparr>"
    by (rule unmarshal_created_message) (simp add: int64_range_def)
  obtain db' counts' where h: "pg_handleMessage sample_env (created_message ''o1'' ''zz'' 1) (sample_stock, \<lambda>_. 0)
      = Returns (None, db', counts')" and n: "''o1'' \<notin> set (processed db')"
    by (simp add: run_inventory u sample_stock_def go_simps)
  have "stock_ok (ie_meanwhile sample_env sample_stock)" by (simp add: sample_env_def sample_stock_ok)
  from handled_orders_settled [OF h u this] h n show ?thesis by auto
qed

text \<open>
  Property C35 (safety). The consumer of \<open>order.created\<close> never crashes, commits the offset of a
  message only once its handler returned nil for it, and does not stop at a message whose handler
  failed: with the increasing offsets of a partition, the first commit after the failure is beyond
  that message, and a restart does not deliver it again.
\<close>

theorem inventory_consumer_commits:
  assumes "inv_Run visits st = (st', acts)" and "sorted_wrt (<) (fetched_offsets visits)"
  shows "(\<forall>off. Crashed off \<notin> set acts) \<and> (\<forall>off. CommitOk off \<in> set acts \<longrightarrow> Handled off None \<in> set acts)
    \<and> (\<forall>before off e after off'. acts = before @ Handled off (Some e) # after \<and> CommitOk off' \<in> set after
         \<longrightarrow> off < resume_at start acts)"
proof -
  have "pg_handleMessage e m st1 \<noteq> Panics" for e m st1
    unfolding pg_handleMessage_def by (rule pgs.handle_no_panic)
  from consume_loop_no_crash [OF this assms(1) [unfolded inv_Run_def]]
    consume_loop_commits [OF assms(1) [unfolded inv_Run_def] assms(2)]
  show ?thesis by blast
qed

theorem inventory_consumer_commits_witness:
  "\<exists>e acts. snd (inv_Run [\<lparr>vi_fetch = Fetched 7 (created_message ''o1'' ''a'' 0), vi_env = sample_env, vi_commit = True\<rparr>,
       \<lparr>vi_fetch = Fetched 8 (created_message ''o2'' ''a'' 1), vi_env = sample_env, vi_commit = True\<rparr>]
      (sample_stock, \<lambda>_. 0)) = acts
    \<and> acts = [Handled 7 (Some e), Handled 8 None, CommitOk 8] \<and> 7 < resume_at 7 acts"
proof -
  let ?vs = "[\<lparr>vi_fetch = Fetched 7 (created_message ''o1'' ''a'' 0), vi_env = sample_env, vi_commit = True\<rparr>,
       \<lparr>vi_fetch = Fetched 8 (created_message ''o2'' ''a'' 1), vi_env = sample_env, vi_commit = True\<rparr>]"
  have u: "unmarshal fields_InvOrderCreatedEvent zero_InvOrderCreatedEvent (msg_value (created_message oid sku qty))
     = Some \<lparr>ic_OrderID = oid, ic_CustomerID = [],
         ic_Items = [\<lparr>ci_SKU = sku, ci_Name = [], ci_Quantity = word_of_int qty\<rparr>], ic_CreatedAt = []\<rparr>"
    if "qty = 0 \<or> qty = 1" for oid sku qty
    by (rule unmarshal_created_message) (use that in \<open>auto simp: int64_range_def\<close>)
  obtain st' acts where r: "inv_Run ?vs (sample_stock, \<lambda>_. 0) = (st', acts)" by fastforce
  then obtain e where acts: "acts = [Handled 7 (Some e), Handled 8 None, CommitOk 8]"
    by (auto simp: inv_Run_def run_inventory u sample_stock_def go_simps row_to_stock_def Reserve_def
        exec_update_stock_def quantity_column_def int4_range_def finish_reservation_def insert_processed_def)
  from inventory_consumer_commits [OF r, of 7] have "7 < resume_at 7 acts"
    using acts by fastforce
  with r acts show ?thesis by auto
qed

end
