(* ===== verification/Notification.thy ===== *)
theory Notification
  imports Kafka_Consumer
begin

text \<open>
  notification-service: the texts of \<open>internal/domain/notification.go\<close>, the use case of
  \<open>internal/usecase/usecase.go\<close>, the consumer of the three order events
  (\<open>internal/consumer/order-events-consumer.go\<close>) and PostgreSQL's repository
  \<open>internal/repository/postgres/inbox_repo.go\<close> over the table \<open>inbox_events\<close>.

  A notification is \<open>sent\<close> by writing it to the service's log inside the transaction, where
  no rollback reaches it; the list of what was sent is part of the state. The theorems show that an
  event that counts as handled has been notified, and when it is notified exactly once.
\<close>

section \<open>Domain\<close>

definition msg_your_order :: string where
  "msg_your_order = utf8 [208, 146, 208, 176, 209, 136, 32, 208, 183, 208, 176, 208, 186, 208, 176, 208, 183, 32]"

definition msg_accepted :: string where
  "msg_accepted = utf8 [32, 208, 191, 209, 128, 208, 184, 208, 189, 209, 143, 209, 130, 32, 208, 178, 32, 208,
     190, 208, 177, 209, 128, 208, 176, 208, 177, 208, 190, 209, 130, 208, 186, 209, 131]"

definition msg_confirmed :: string where
  "msg_confirmed = utf8 [32, 208, 191, 208, 190, 208, 180, 209, 130, 208, 178, 208, 181, 209, 128, 208, 182, 208,
     180, 209, 145, 208, 189, 44, 32, 209, 130, 208, 190, 208, 178, 208, 176, 209, 128, 32,
     208, 183, 208, 176, 209, 128, 208, 181, 208, 183, 208, 181, 209, 128, 208, 178, 208,
     184, 209, 128, 208, 190, 208, 178, 208, 176, 208, 189]"

definition msg_cancelled :: string where
  "msg_cancelled = utf8 [32, 208, 190, 209, 130, 208, 188, 208, 181, 208, 189, 209, 145, 208, 189, 58, 32]"

definition msg_update :: string where
  "msg_update = utf8 [208, 158, 208, 177, 208, 189, 208, 190, 208, 178, 208, 187, 208, 181, 208, 189, 208,
     184, 208, 181, 32, 208, 191, 208, 190, 32, 208, 183, 208, 176, 208, 186, 208, 176, 208,
     183, 209, 131, 32]"


definition BuildMessage :: "string \<Rightarrow> string \<Rightarrow> string \<Rightarrow> string" where
  "BuildMessage eventType orderID reason =
     (if eventType = ''order.created'' then msg_your_order @ orderID @ msg_accepted
      else if eventType = ''order.confirmed'' then msg_your_order @ orderID @ msg_confirmed
      else if eventType = ''order.cancelled'' then msg_your_order @ orderID @ msg_cancelled @ reason
      else msg_update @ orderID)"

datatype notif_sentinel = ErrAlreadyNotified

text \<open>\<open>ErrAlreadyNotified\<close> is \<open>ports.ErrAlreadyProcessed\<close> of this service.\<close>

type_synonym notif_error = "notif_sentinel go_error"

section \<open>Repository\<close>

record NotificationLine =
  nl_order :: string
  nl_event :: string
  nl_text :: string

record notif_state =
  inbox :: "(string \<times> string) list"
  sent_lines :: "NotificationLine list"

definition MarkProcessedAndNotify ::
  "db_faults \<Rightarrow> string \<Rightarrow> string \<Rightarrow> string \<Rightarrow> notif_state \<Rightarrow> notif_error option \<times> notif_state" where
  "MarkProcessedAndNotify f orderID eventType msg st =
     (case f_begin f of
        Some m \<Rightarrow> (Some (Wrapf ''begin tx: '' (Opaque m) []), st)
      | None \<Rightarrow>
     (case f_exec f 0 of
        Some m \<Rightarrow> (Some (Wrapf ''insert inbox event: '' (Opaque m) []), st)
      | None \<Rightarrow>
     (if (orderID, eventType) \<in> set (inbox st) then (Some (Sentinel ErrAlreadyNotified), st)
      else
       (let st1 = st\<lparr>sent_lines := sent_lines st @ [\<lparr>nl_order = orderID, nl_event = eventType, nl_text = msg\<rparr>]\<rparr>
        in commit (f_commit f) st1 (st1\<lparr>inbox := inbox st1 @ [(orderID, eventType)]\<rparr>)))))"

section \<open>Use case and consumer\<close>

definition Notify ::
  "(string \<Rightarrow> string \<Rightarrow> string \<Rightarrow> 'st \<Rightarrow> notif_error option \<times> 'st) \<Rightarrow> string \<Rightarrow> string \<Rightarrow> string \<Rightarrow> 'st
   \<Rightarrow> notif_error option \<times> 'st" where
  "Notify mark orderID eventType reason st = mark orderID eventType (BuildMessage eventType orderID reason) st"

record OrderEvent =
  oe_OrderID :: string
  oe_Reason :: string

definition fields_OrderEvent :: "OrderEvent fields" where
  "fields_OrderEvent =
     [(''order_id'', \<lambda>j e. map_option (\<lambda>s. e\<lparr>oe_OrderID := s\<rparr>) (decode_string (oe_OrderID e) j)),
      (''reason'', \<lambda>j e. map_option (\<lambda>s. e\<lparr>oe_Reason := s\<rparr>) (decode_string (oe_Reason e) j))]"

definition zero_OrderEvent :: OrderEvent where
  "zero_OrderEvent = \<lparr>oe_OrderID = [], oe_Reason = []\<rparr>"

datatype notif_result = N_unmarshal_error | N_already_processed | N_error | N_sent

type_synonym notif_counts = "string \<times> notif_result \<Rightarrow> nat"

definition notif_handleMessage ::
  "(string \<Rightarrow> string \<Rightarrow> string \<Rightarrow> 'st \<Rightarrow> notif_error option \<times> 'st) \<Rightarrow> string \<Rightarrow> message
   \<Rightarrow> 'st \<times> notif_counts \<Rightarrow> notif_error option \<times> 'st \<times> notif_counts" where
  "notif_handleMessage notify topic msg s =
     (case s of (st, counts) \<Rightarrow>
      let count = (\<lambda>res. counts((topic, res) := Suc (counts (topic, res)))) in
      case unmarshal fields_OrderEvent zero_OrderEvent (msg_value msg) of
        None \<Rightarrow> (None, st, count N_unmarshal_error)
      | Some event \<Rightarrow>
          (case notify (oe_OrderID event) topic (oe_Reason event) st of
             (None, st') \<Rightarrow> (None, st', count N_sent)
           | (Some e, st') \<Rightarrow>
               if errors_is e ErrAlreadyNotified then (None, st', count N_already_processed)
               else (Some e, st', count N_error)))"

text \<open>One of the three loops; the visits carry the failures of each message's transaction.\<close>

definition consumeLoop ::
  "string \<Rightarrow> db_faults visit list \<Rightarrow> notif_state \<times> notif_counts
   \<Rightarrow> (notif_state \<times> notif_counts) \<times> notif_sentinel action list" where
  "consumeLoop topic visits s =
     consume_loop (\<lambda>f m s. Returns (notif_handleMessage (Notify (MarkProcessedAndNotify f)) topic m s)) visits s"

section \<open>The contract of an inbox\<close>

text \<open>
  \<open>marked\<close>: the events the inbox has; \<open>notified\<close>: the notifications that went out, in
  order.
\<close>

locale inbox_repository =
  fixes mark :: "'e \<Rightarrow> string \<Rightarrow> string \<Rightarrow> string \<Rightarrow> 'st \<Rightarrow> notif_error option \<times> 'st"
    and marked :: "'st \<Rightarrow> (string \<times> string) set"
    and notified :: "'st \<Rightarrow> NotificationLine list"
  assumes mark_ok: "mark e oid ety m st = (None, st') \<Longrightarrow>
      (oid, ety) \<notin> marked st \<and> marked st' = insert (oid, ety) (marked st)
      \<and> notified st' = notified st @ [\<lparr>nl_order = oid, nl_event = ety, nl_text = m\<rparr>]"
    and mark_known: "mark e oid ety m st = (Some err, st') \<Longrightarrow> errors_is err ErrAlreadyNotified \<Longrightarrow>
      st' = st \<and> (oid, ety) \<in> marked st"
begin

lemma handled_marked:
  assumes "notif_handleMessage (Notify (mark e)) topic msg (st, counts) = (None, st', counts')"
    and "unmarshal fields_OrderEvent zero_OrderEvent (msg_value msg) = Some event"
  shows "(oe_OrderID event, topic) \<in> marked st' \<and>
    (if (oe_OrderID event, topic) \<in> marked st then st' = st
     else marked st' = insert (oe_OrderID event, topic) (marked st)
       \<and> notified st' = notified st @ [\<lparr>nl_order = oe_OrderID event, nl_event = topic,
           nl_text = BuildMessage topic (oe_OrderID event) (oe_Reason event)\<rparr>])"
proof -
  obtain r st1 where m: "mark e (oe_OrderID event) topic
      (BuildMessage topic (oe_OrderID event) (oe_Reason event)) st = (r, st1)" by fastforce
  show ?thesis
  proof (cases r)
    case None
    with assms m have "st' = st1" by (simp add: notif_handleMessage_def Notify_def Let_def)
    with mark_ok [OF m [unfolded None]] show ?thesis by auto
  next
    case (Some err)
    with assms m have "st' = st1" "errors_is err ErrAlreadyNotified"
      by (auto simp: notif_handleMessage_def Notify_def Let_def split: if_splits)
    with mark_known [OF m [unfolded Some]] show ?thesis by auto
  qed
qed

end

interpretation pgi: inbox_repository MarkProcessedAndNotify "\<lambda>st. set (inbox st)" sent_lines
proof unfold_locales
  fix e oid ety m st st'
  assume "MarkProcessedAndNotify e oid ety m st = (None, st')"
  then show "(oid, ety) \<notin> set (inbox st) \<and> set (inbox st') = insert (oid, ety) (set (inbox st))
      \<and> sent_lines st' = sent_lines st @ [\<lparr>nl_order = oid, nl_event = ety, nl_text = m\<rparr>]"
    by (cases "f_commit e") (auto simp: MarkProcessedAndNotify_def Let_def split: option.splits if_splits)
next
  fix e oid ety m st err st'
  assume "MarkProcessedAndNotify e oid ety m st = (Some err, st')" "errors_is err ErrAlreadyNotified"
  then show "st' = st \<and> (oid, ety) \<in> set (inbox st)"
    by (cases "f_commit e") (auto simp: MarkProcessedAndNotify_def Let_def split: option.splits if_splits)
qed

section \<open>Notified once\<close>

definition line_key :: "NotificationLine \<Rightarrow> string \<times> string" where
  "line_key l = (nl_order l, nl_event l)"

text \<open>Every event of the inbox was notified; and, as long as commits work, exactly once.\<close>

definition inbox_inv :: "notif_state \<Rightarrow> bool" where
  "inbox_inv st \<longleftrightarrow> distinct (inbox st) \<and> set (inbox st) \<subseteq> line_key ` set (sent_lines st)"

definition once_inv :: "notif_state \<Rightarrow> bool" where
  "once_inv st \<longleftrightarrow> distinct (inbox st) \<and> map line_key (sent_lines st) = inbox st"

lemma MarkProcessedAndNotify_inbox_inv:
  "MarkProcessedAndNotify f oid ety m st = (r, st') \<Longrightarrow> inbox_inv st \<Longrightarrow> inbox_inv st'"
  by (cases "f_commit f")
    (auto simp: MarkProcessedAndNotify_def Let_def inbox_inv_def line_key_def split: option.splits if_splits)

lemma MarkProcessedAndNotify_once_inv:
  "MarkProcessedAndNotify f oid ety m st = (r, st') \<Longrightarrow> once_inv st \<Longrightarrow> \<forall>m. f_commit f \<noteq> CommitFailed m \<Longrightarrow>
   once_inv st'"
  by (cases "f_commit f")
    (auto simp: MarkProcessedAndNotify_def Let_def once_inv_def line_key_def split: option.splits if_splits)

lemma handleMessage_state:
  assumes "notif_handleMessage (Notify mark) topic msg (st, counts) = (r, st', counts')"
  shows "st' = st \<or> (\<exists>oid text r. mark oid topic text st = (r, st'))"
  using assms by (auto simp: notif_handleMessage_def Notify_def Let_def split: option.splits prod.splits if_splits)

text \<open>
  The three loops run at once; what they do to the state is the sequence of their handler calls,
  in some order: for each its topic, the failures of its transaction and the message.
\<close>

fun handle_all ::
  "(string \<times> db_faults \<times> message) list \<Rightarrow> notif_state \<times> notif_counts \<Rightarrow> notif_state \<times> notif_counts" where
  "handle_all [] s = s"
| "handle_all ((topic, f, m) # calls) s =
     handle_all calls (snd (notif_handleMessage (Notify (MarkProcessedAndNotify f)) topic m s))"

definition empty_notif_state :: notif_state where
  "empty_notif_state = \<lparr>inbox = [], sent_lines = []\<rparr>"

lemma empty_invs: "inbox_inv empty_notif_state" "once_inv empty_notif_state"
  by (simp_all add: inbox_inv_def once_inv_def empty_notif_state_def)

lemma handle_all_inv:
  assumes "\<And>f oid ety m st r st'. MarkProcessedAndNotify f oid ety m st = (r, st') \<Longrightarrow> ok f \<Longrightarrow> P st \<Longrightarrow> P st'"
  shows "handle_all calls (st, counts) = (st', counts') \<Longrightarrow> \<forall>(topic, f, m) \<in> set calls. ok f \<Longrightarrow> P st \<Longrightarrow> P st'"
proof (induction calls arbitrary: st counts)
  case (Cons c calls)
  obtain topic f m where c: "c = (topic, f, m)" by (cases c)
  obtain r st1 counts1 where h: "notif_handleMessage (Notify (MarkProcessedAndNotify f)) topic m (st, counts)
      = (r, st1, counts1)" by (metis prod.exhaust)
  have "P st1"
    using handleMessage_state [OF h] assms Cons.prems(2,3) by (auto simp: c)
  with Cons show ?case by (simp add: c h)
qed simp

section \<open>Guarantees of notification-service\<close>

text \<open>
  A well-formed event that the consumer counts as handled is in the
  inbox afterwards; if it was not there before, exactly one notification went out for it, with the
  text for its order, its kind and its reason, and otherwise nothing changed.
\<close>

theorem event_handled_notified:
  assumes "notif_handleMessage (Notify (MarkProcessedAndNotify f)) topic msg (st, counts) = (None, st', counts')"
    and "unmarshal fields_OrderEvent zero_OrderEvent (msg_value msg) = Some event"
  shows "(oe_OrderID event, topic) \<in> set (inbox st') \<and>
    (if (oe_OrderID event, topic) \<in> set (inbox st) then st' = st
     else sent_lines st' = sent_lines st @ [\<lparr>nl_order = oe_OrderID event, nl_event = topic,
           nl_text = BuildMessage topic (oe_OrderID event) (oe_Reason event)\<rparr>])"
  using pgi.handled_marked [OF assms] by (auto split: if_splits)

definition sample_cancelled :: message where
  "sample_cancelled = \<lparr>msg_topic = ''order.cancelled'', msg_key = ''o1'',
     msg_value = Doc (JObj [(''order_id'', JStr ''o1''), (''reason'', JStr ''sold out'')])\<rparr>"

lemma unmarshal_sample_cancelled:
  "unmarshal fields_OrderEvent zero_OrderEvent (msg_value sample_cancelled)
   = Some \<lparr>oe_OrderID = ''o1'', oe_Reason = ''sold out''\<rparr>"
  by (simp add: sample_cancelled_def fields_OrderEvent_def zero_OrderEvent_def find_field_def upper_def)

theorem event_handled_notified_witness:
  "\<exists>st' counts'. notif_handleMessage (Notify (MarkProcessedAndNotify no_faults)) ''order.cancelled'' sample_cancelled
      (empty_notif_state, \<lambda>_. 0) = (None, st', counts')
    \<and> map nl_text (sent_lines st') = [msg_your_order @ ''o1'' @ msg_cancelled @ ''sold out'']"
proof -
  obtain st' counts' where h: "notif_handleMessage (Notify (MarkProcessedAndNotify no_faults)) ''order.cancelled''
      sample_cancelled (empty_notif_state, \<lambda>_. 0) = (None, st', counts')"
    by (simp add: notif_handleMessage_def unmarshal_sample_cancelled Notify_def MarkProcessedAndNotify_def
        empty_notif_state_def Let_def)
  from event_handled_notified [OF h unmarshal_sample_cancelled] h show ?thesis
    by (simp add: empty_notif_state_def BuildMessage_def)
qed

text \<open>
  Property C28 (safety). However the loops interleave, whatever fails and however often a message
  is delivered: the inbox has no event twice and none that was not notified; and if no commit is
  refused by the database, the notifications that went out are exactly the events of the inbox, in
  order, each once.
\<close>

theorem notified_once:
  assumes "handle_all calls (empty_notif_state, counts) = (st', counts')"
  shows "distinct (inbox st') \<and> set (inbox st') \<subseteq> line_key ` set (sent_lines st')
    \<and> ((\<forall>(topic, f, m) \<in> set calls. \<forall>e. f_commit f \<noteq> CommitFailed e)
        \<longrightarrow> map line_key (sent_lines st') = inbox st')"
proof -
  have "inbox_inv st'"
    by (rule handle_all_inv [where ok = "\<lambda>_. True" and P = inbox_inv, OF _ assms])
      (auto intro: MarkProcessedAndNotify_inbox_inv simp: empty_invs)
  moreover have "once_inv st'" if "\<forall>(topic, f, m) \<in> set calls. \<forall>e. f_commit f \<noteq> CommitFailed e"
    by (rule handle_all_inv [where ok = "\<lambda>f. \<forall>e. f_commit f \<noteq> CommitFailed e" and P = once_inv, OF _ assms that])
      (auto intro: MarkProcessedAndNotify_once_inv simp: empty_invs)
  ultimately show ?thesis by (auto simp: inbox_inv_def once_inv_def)
qed

theorem notified_once_witness:
  "\<exists>st' counts'. handle_all [(''order.cancelled'', no_faults, sample_cancelled),
      (''order.cancelled'', no_faults, sample_cancelled)] (empty_notif_state, \<lambda>_. 0) = (st', counts')
    \<and> inbox st' = [(''o1'', ''order.cancelled'')] \<and> map line_key (sent_lines st') = [(''o1'', ''order.cancelled'')]"
proof -
  let ?calls = "[(''order.cancelled'', no_faults, sample_cancelled), (''order.cancelled'', no_faults, sample_cancelled)]"
  obtain st' counts' where h: "handle_all ?calls (empty_notif_state, \<lambda>_. 0) = (st', counts')" by fastforce
  then have "inbox st' = [(''o1'', ''order.cancelled'')]"
    by (auto simp: notif_handleMessage_def unmarshal_sample_cancelled Notify_def MarkProcessedAndNotify_def
        empty_notif_state_def Let_def)
  with notified_once [OF h] h show ?thesis by auto
qed

text \<open>
  Sending inside the transaction does not make the pair atomic: when the
  commit fails after the notification went out, the next delivery sends it again.
\<close>

theorem failed_commit_notifies_again:
  "map line_key (sent_lines (fst (handle_all
      [(''order.cancelled'', no_faults\<lparr>f_commit := CommitFailed ''lost''\<rparr>, sample_cancelled),
       (''order.cancelled'', no_faults, sample_cancelled)] (empty_notif_state, \<lambda>_. 0))))
   = [(''o1'', ''order.cancelled''), (''o1'', ''order.cancelled'')]"
  by (simp add: notif_handleMessage_def unmarshal_sample_cancelled Notify_def MarkProcessedAndNotify_def
      empty_notif_state_def Let_def line_key_def)

end
