(* ===== verification/Saga.thy ===== *)
theory Saga
  imports Order_Consumer Inventory_System Notification
begin

text \<open>
  The three services behind the gateway as one saga: order-service announces an order,
  inventory-service answers with a stock result, order-service closes the order, and
  notification-service tells the customer. The services share no code; what ties them together is
  that each decodes what another encodes.

  The locale \<open>event_contract\<close> is that tie: an encoder of one service, a decoder of another and
  the view the second has of the first one's event. It is interpreted for each of the six
  pairs the topics carry.
\<close>

section \<open>The contract of a topic\<close>

locale event_contract =
  fixes encode :: "'a \<Rightarrow> json option" and members :: "'b fields" and zero :: 'b and view :: "'a \<Rightarrow> 'b"
  assumes decodes: "encode e = Some j \<Longrightarrow> decode_struct members zero j = Some (view e)"
begin

lemma row_decodes:
  "encode e = Some (ob_payload r) \<Longrightarrow> unmarshal members zero (msg_value (row_message r)) = Some (view e)"
  by (simp add: row_message_def decodes)

text \<open>An event whose row is marked as sent has reached the topic in a form the reader understands.\<close>

lemma sent_decodes:
  assumes "sent_published box log" and "r \<in> set box" and "ob_status r = SENT" and "encode e = Some (ob_payload r)"
  shows "\<exists>m \<in> set log. msg_topic m = ob_type r \<and> msg_key m = ob_aggregate r
    \<and> unmarshal members zero (msg_value m) = Some (view e)"
proof -
  have "row_message r \<in> set log" using assms(1-3) by (simp add: sent_published_def)
  with row_decodes [OF assms(4)] show ?thesis
    by (intro bexI [of _ "row_message r"]) (simp_all add: row_message_def)
qed

end

section \<open>What each reader sees\<close>

definition item_seen :: "OrderItem \<Rightarrow> OrderCreatedItem" where
  "item_seen it = \<lparr>ci_SKU = SKU it, ci_Name = Name it, ci_Quantity = Quantity it\<rparr>"

definition created_seen :: "OrderCreatedEvent \<Rightarrow> InvOrderCreatedEvent" where
  "created_seen e = \<lparr>ic_OrderID = oce_OrderID e, ic_CustomerID = oce_CustomerID e,
     ic_Items = map item_seen (oce_Items e), ic_CreatedAt = rfc3339_nano (oce_CreatedAt e)\<rparr>"

lemma decode_item: "decode_struct fields_OrderCreatedItem zero_OrderCreatedItem (marshal_OrderItem it) = Some (item_seen it)"
  by (simp add: marshal_OrderItem_def fields_OrderCreatedItem_def zero_OrderCreatedItem_def find_field_def
      upper_def item_seen_def)

lemma decode_items:
  "decode_slice (decode_struct fields_OrderCreatedItem zero_OrderCreatedItem) (JArr (map marshal_OrderItem its))
   = Some (map item_seen its)"
  by (simp add: o_def decode_item those_map_Some)

lemma marshal_created_Some:
  assumes "marshal_OrderCreatedEvent e = Some j"
  obtains members where "j = JObj members" "members =
      [(''order_id'', JStr (oce_OrderID e)), (''customer_id'', JStr (oce_CustomerID e)),
       (''items'', JArr (map marshal_OrderItem (oce_Items e))),
       (''total_cost'', marshal_Money (oce_TotalCost e)),
       (''created_at'', JStr (rfc3339_nano (oce_CreatedAt e)))]"
  using assms by (auto simp: marshal_OrderCreatedEvent_def marshal_time_def split: option.splits if_splits)

interpretation created_inv: event_contract marshal_OrderCreatedEvent fields_InvOrderCreatedEvent
  zero_InvOrderCreatedEvent created_seen
proof unfold_locales
  fix e j assume "marshal_OrderCreatedEvent e = Some j"
  then show "decode_struct fields_InvOrderCreatedEvent zero_InvOrderCreatedEvent j = Some (created_seen e)"
    by (rule marshal_created_Some)
      (simp add: fields_InvOrderCreatedEvent_def zero_InvOrderCreatedEvent_def find_field_def upper_def
        created_seen_def decode_items del: decode_slice.simps)
qed

interpretation reserved_ord: event_contract "\<lambda>oid. Some (marshal_StockReservedEvent oid)" fields_StockReservedEvent
  "\<lparr>sre_OrderID = []\<rparr>" "\<lambda>oid. \<lparr>sre_OrderID = oid\<rparr>"
  by unfold_locales (auto simp: marshal_StockReservedEvent_def fields_StockReservedEvent_def find_field_def)

interpretation failed_ord: event_contract "\<lambda>(oid, reason). Some (marshal_StockFailedEvent oid reason)"
  fields_StockFailedEvent "\<lparr>sfe_OrderID = [], sfe_Reason = []\<rparr>" "\<lambda>(oid, reason). \<lparr>sfe_OrderID = oid, sfe_Reason = reason\<rparr>"
  by unfold_locales (auto simp: marshal_StockFailedEvent_def fields_StockFailedEvent_def find_field_def upper_def)

interpretation created_notif: event_contract marshal_OrderCreatedEvent fields_OrderEvent zero_OrderEvent
  "\<lambda>e. \<lparr>oe_OrderID = oce_OrderID e, oe_Reason = []\<rparr>"
proof unfold_locales
  fix e j assume "marshal_OrderCreatedEvent e = Some j"
  then show "decode_struct fields_OrderEvent zero_OrderEvent j = Some \<lparr>oe_OrderID = oce_OrderID e, oe_Reason = []\<rparr>"
    by (rule marshal_created_Some)
      (simp add: fields_OrderEvent_def zero_OrderEvent_def find_field_def upper_def)
qed

interpretation confirmed_notif: event_contract "\<lambda>e. Some (marshal_OrderConfirmedEvent e)" fields_OrderEvent
  zero_OrderEvent "\<lambda>e. \<lparr>oe_OrderID = ofe_OrderID e, oe_Reason = []\<rparr>"
  by unfold_locales
    (auto simp: marshal_OrderConfirmedEvent_def fields_OrderEvent_def zero_OrderEvent_def find_field_def upper_def)

interpretation cancelled_notif: event_contract "\<lambda>e. Some (marshal_OrderCancelledEvent e)" fields_OrderEvent
  zero_OrderEvent "\<lambda>e. \<lparr>oe_OrderID = oxe_OrderID e, oe_Reason = oxe_Reason e\<rparr>"
  by unfold_locales
    (auto simp: marshal_OrderCancelledEvent_def fields_OrderEvent_def zero_OrderEvent_def find_field_def upper_def)

section \<open>The undisturbed saga\<close>

definition ordered_items :: "Order \<Rightarrow> ReservationItem list" where
  "ordered_items ord = map (\<lambda>it. \<lparr>ri_SKU = SKU it, ri_Qty = Quantity it\<rparr>) (Items ord)"

lemma reservation_items_created: "reservation_items (created_seen (created_event ord)) = ordered_items ord"
  by (simp add: reservation_items_def created_seen_def created_event_def item_seen_def ordered_items_def)

definition calm_env :: "string \<Rightarrow> gotime \<Rightarrow> inv_env" where
  "calm_env rid now = \<lparr>ie_reserve = no_faults, ie_record = no_faults, ie_meanwhile = (\<lambda>db. db),
     ie_rid = rid, ie_now = now\<rparr>"

text \<open>inventory-service's answer to an order.\<close>

definition answer_row :: "string \<Rightarrow> gotime \<Rightarrow> string \<Rightarrow> string option \<Rightarrow> outbox_row" where
  "answer_row rid now oid refusal = (case refusal of
     None \<Rightarrow> new_outbox_row rid oid EventTypeStockReserved (marshal_StockReservedEvent oid) now
   | Some reason \<Rightarrow> new_outbox_row rid oid EventTypeStockFailed (marshal_StockFailedEvent oid reason) now)"

lemma inventory_answers:
  assumes "marshal_OrderCreatedEvent (created_event ord) = Some (ob_payload row)"
    and "stock_ok db" and "roomy db" and "ID ord \<notin> set (processed db)"
    and "\<forall>it \<in> set (Items ord). 0 < sint (Quantity it)"
  shows "\<exists>db' counts' refusal. pg_handleMessage (calm_env rid now) (row_message row) (db, counts) = Returns (None, db', counts')
    \<and> inv_outbox db' = inv_outbox db @ [answer_row rid now (ID ord) refusal]
    \<and> (if fits (ordered_items ord) db
       then refusal = None \<and> stock db' = map (reserve_row (ordered_items ord)) (stock db)
       else refusal \<noteq> None \<and> stock db' = stock db)"
proof -
  note event = created_inv.row_decodes [OF assms(1)]
  have oid: "ic_OrderID (created_seen (created_event ord)) = ID ord"
    by (simp add: created_seen_def created_event_def)
  have handle: "pg_handleMessage (calm_env rid now) (row_message row) (db, counts)
    = (case ReserveStock (pg_reserve (calm_env rid now)) (pg_record (calm_env rid now)) (ID ord) (ordered_items ord) db of
         Panics \<Rightarrow> Panics
       | Returns (None, db') \<Rightarrow> Returns (None, db', count_result R_reserved counts)
       | Returns (Some e, db') \<Rightarrow>
           if errors_is e ErrAlreadyProcessed then Returns (None, db', count_result R_already_processed counts)
           else if errors_is e ErrInsufficientStock \<or> errors_is e ErrStockNotFound
           then Returns (None, db', count_result R_insufficient_stock counts)
           else Returns (Some e, db', count_result R_error counts))"
    by (simp add: pg_handleMessage_def inv_handleMessage_def event oid reservation_items_created)
  show ?thesis
  proof (cases "fits (ordered_items ord) db")
    case True
    let ?db' = "reserved_db rid now (ID ord) (ordered_items ord) db"
    have "pg_handleMessage (calm_env rid now) (row_message row) (db, counts)
        = Returns (None, ?db', count_result R_reserved counts)"
      unfolding handle by (simp add: ReserveStock_def pg_reserve_def calm_env_def ReserveAll_fits [OF assms(2) True assms(4)])
    moreover have "inv_outbox ?db' = inv_outbox db @ [answer_row rid now (ID ord) None]"
      "stock ?db' = map (reserve_row (ordered_items ord)) (stock db)"
      by (simp_all add: reserved_db_def answer_row_def)
    ultimately show ?thesis using True by auto
  next
    case False
    have "\<forall>it \<in> set (ordered_items ord). 0 < sint (ri_Qty it)" using assms(5) by (auto simp: ordered_items_def)
    from ReserveAll_unfit [OF assms(2-4) this False, of rid now] obtain e where
      e: "ReserveAll no_faults (\<lambda>db. db) rid now (ID ord) (ordered_items ord) db = Returns (Some e, db)"
        "errors_is e ErrInsufficientStock \<or> errors_is e ErrStockNotFound" by blast
    then have "\<not> errors_is e ErrAlreadyProcessed"
      using errors_is_unique [of e ErrInsufficientStock ErrAlreadyProcessed]
        errors_is_unique [of e ErrStockNotFound ErrAlreadyProcessed] by auto
    let ?reason = "error_text inv_error_msg e"
    let ?db' = "db\<lparr>inv_outbox := inv_outbox db @ [answer_row rid now (ID ord) (Some ?reason)]\<rparr>"
    have rec: "pg_record (calm_env rid now) (ID ord) ?reason db = (None, ?db')"
      by (simp add: pg_record_def calm_env_def RecordFailure_def inv_insert_outbox_def answer_row_def)
    have res: "pg_reserve (calm_env rid now) (ID ord) (ordered_items ord) db = Returns (Some e, db)"
      using e(1) by (simp add: pg_reserve_def calm_env_def)
    have "pg_handleMessage (calm_env rid now) (row_message row) (db, counts)
        = Returns (None, ?db', count_result R_insufficient_stock counts)"
      unfolding handle using e(2) \<open>\<not> errors_is e ErrAlreadyProcessed\<close> by (simp add: ReserveStock_def res rec)
    moreover have "inv_outbox ?db' = inv_outbox db @ [answer_row rid now (ID ord) (Some ?reason)]" "stock ?db' = stock db"
      by simp_all
    ultimately show ?thesis
      using False by (intro exI [of _ ?db'] exI [of _ "count_result R_insufficient_stock counts"] exI [of _ "Some ?reason"]) simp
  qed
qed

text \<open>The two loops of order-service's consumer, each on its topic.\<close>

definition deliver_result ::
  "(string \<Rightarrow> OrderStatus \<Rightarrow> string \<Rightarrow> 'db \<Rightarrow> order_error option \<times> 'db) \<Rightarrow> message \<Rightarrow> 'db
   \<Rightarrow> order_error option \<times> 'db" where
  "deliver_result upd msg db =
     (if msg_topic msg = ''stock.reserved'' then handleReserved upd msg db else handleFailed upd msg db)"

lemma deliver_answer:
  assumes "primary_key db" and "stored_order db oid = Some (StatusAwaitingStock, v)"
  shows "\<exists>db'. deliver_result (pg_update (calm_attempts rids tm now)) (row_message (answer_row rid t oid refusal)) db = (None, db')
    \<and> (let final = (if refusal = None then StatusConfirmed else StatusCancelled) in
       stored_order db' = (stored_order db)(oid \<mapsto> (final, v + 1))
       \<and> outbox_events db' = outbox_events db @ [(oid, final_event oid final (case refusal of None \<Rightarrow> [] | Some r \<Rightarrow> r))])"
proof (cases refusal)
  case None
  have msg: "row_message (answer_row rid t oid refusal) = reserved_message oid"
    by (simp add: None answer_row_def row_message_def new_outbox_row_def reserved_message_def EventTypeStockReserved_def
        marshal_StockReservedEvent_def)
  from handleReserved_applied [OF assms(1), of oid rids tm now] show ?thesis
    unfolding msg by (auto simp: deliver_result_def reserved_message_def result_applied_def assms(2) None Let_def)
next
  case (Some reason)
  have msg: "row_message (answer_row rid t oid refusal) = failed_message oid reason"
    by (simp add: Some answer_row_def row_message_def new_outbox_row_def failed_message_def EventTypeStockFailed_def
        marshal_StockFailedEvent_def)
  from handleFailed_applied [OF assms(1), of oid reason rids tm now] show ?thesis
    unfolding msg by (auto simp: deliver_result_def failed_message_def result_applied_def assms(2) Some Let_def)
qed

text \<open>The customer learns of an event once its message is handled.\<close>

definition event_message :: "string \<Rightarrow> string \<times> json \<Rightarrow> message" where
  "event_message oid ev = \<lparr>msg_topic = fst ev, msg_key = oid, msg_value = Doc (snd ev)\<rparr>"

lemma customer_told:
  assumes "final = StatusConfirmed \<and> reason = [] \<or> final = StatusCancelled"
    and "(oid, fst (final_event oid final reason)) \<notin> set (inbox st)"
  shows "\<exists>st' counts'. notif_handleMessage (Notify (MarkProcessedAndNotify no_faults)) (fst (final_event oid final reason))
      (event_message oid (final_event oid final reason)) (st, counts) = (None, st', counts')
    \<and> sent_lines st' = sent_lines st @ [\<lparr>nl_order = oid, nl_event = fst (final_event oid final reason),
         nl_text = BuildMessage (fst (final_event oid final reason)) oid reason\<rparr>]"
proof -
  have "unmarshal fields_OrderEvent zero_OrderEvent (msg_value (event_message oid (final_event oid final reason)))
      = Some \<lparr>oe_OrderID = oid, oe_Reason = reason\<rparr>"
    using assms(1) confirmed_notif.decodes [OF refl] cancelled_notif.decodes [OF refl]
    by (auto simp: event_message_def)
  with assms(2) show ?thesis
    by (simp add: notif_handleMessage_def Notify_def MarkProcessedAndNotify_def Let_def)
qed

section \<open>Guarantees of the saga\<close>

text \<open>
  Property C33 (roundtrip). What order-service writes about a new order is what the other services
  read: for every \<open>order.created\<close> row that its worker has marked as sent, Kafka holds a message
  from which inventory-service decodes the order's id and exactly its items' SKUs and quantities, and
  notification-service the same id and no reason.
\<close>

theorem created_event_understood:
  assumes "sent_published box log" and "row \<in> set box" and "ob_status row = SENT"
    and "marshal_OrderCreatedEvent (created_event ord) = Some (ob_payload row)"
  shows "(\<exists>m \<in> set log. msg_topic m = ob_type row \<and> msg_key m = ob_aggregate row
      \<and> unmarshal fields_InvOrderCreatedEvent zero_InvOrderCreatedEvent (msg_value m)
        = Some (created_seen (created_event ord)))
    \<and> ic_OrderID (created_seen (created_event ord)) = ID ord
    \<and> reservation_items (created_seen (created_event ord)) = ordered_items ord
    \<and> (\<exists>m \<in> set log. msg_topic m = ob_type row
      \<and> unmarshal fields_OrderEvent zero_OrderEvent (msg_value m) = Some \<lparr>oe_OrderID = ID ord, oe_Reason = []\<rparr>)"
  using created_inv.sent_decodes [OF assms] created_notif.sent_decodes [OF assms]
  by (auto simp: reservation_items_created) (auto simp: created_seen_def created_event_def)

theorem created_event_understood_witness:
  "let row = (new_outbox_row ''r1'' ''o1'' EventTypeOrderCreated sample_payload sample_time)
     \<lparr>ob_status := SENT, ob_sent := Some sample_time\<rparr> in
   \<exists>m \<in> set [row_message row]. msg_topic m = ''order.created''
     \<and> unmarshal fields_OrderEvent zero_OrderEvent (msg_value m) = Some \<lparr>oe_OrderID = ''o1'', oe_Reason = []\<rparr>"
proof -
  let ?row = "(new_outbox_row ''r1'' ''o1'' EventTypeOrderCreated sample_payload sample_time)
     \<lparr>ob_status := SENT, ob_sent := Some sample_time\<rparr>"
  have "sent_published [?row] [row_message ?row]" by (simp add: sent_published_def)
  from created_event_understood [OF this, of ?row sample_order] marshal_sample show ?thesis
    by (simp add: new_outbox_row_def EventTypeOrderCreated_def sample_order_def)
qed

text \<open>
  Property C13 (liveness). An order that awaits its stock, whose quantities are all positive, reaches a
  final status when every service handles its next message without failures and undisturbed, and no
  sum of reserved stock exceeds its column (\<open>roomy\<close>): inventory-service answers the order's message
  with one event, reserving exactly the order's quantities if they fit the stock and touching no
  stock otherwise; order-service, on that event, confirms the order in the first case and cancels
  it in the second, touching no other order and announcing it; and notification-service, on that
  announcement, sends the customer one notification with the matching text.
\<close>

theorem saga_closes_order:
  assumes "marshal_OrderCreatedEvent (created_event ord) = Some (ob_payload row)"
    and "stock_ok idb" and "roomy idb" and "ID ord \<notin> set (processed idb)"
    and "\<forall>it \<in> set (Items ord). 0 < sint (Quantity it)"
    and "primary_key odb" and "stored_order odb (ID ord) = Some (StatusAwaitingStock, v)"
    and "\<forall>ty. (ID ord, ty) \<notin> set (inbox st)"
  shows "\<exists>idb' counts' refusal odb' reason st' ncounts'.
    (let final = (if fits (ordered_items ord) idb then StatusConfirmed else StatusCancelled);
         announced = final_event (ID ord) final reason in
     pg_handleMessage (calm_env rid t) (row_message row) (idb, counts) = Returns (None, idb', counts')
     \<and> inv_outbox idb' = inv_outbox idb @ [answer_row rid t (ID ord) refusal]
     \<and> stock idb' = (if final = StatusConfirmed then map (reserve_row (ordered_items ord)) (stock idb) else stock idb)
     \<and> deliver_result (pg_update (calm_attempts rids tm now)) (row_message (answer_row rid t (ID ord) refusal)) odb
         = (None, odb')
     \<and> stored_order odb' = (stored_order odb)(ID ord \<mapsto> (final, v + 1))
     \<and> outbox_events odb' = outbox_events odb @ [(ID ord, announced)]
     \<and> notif_handleMessage (Notify (MarkProcessedAndNotify no_faults)) (fst announced)
         (event_message (ID ord) announced) (st, ncounts) = (None, st', ncounts')
     \<and> sent_lines st' = sent_lines st @ [\<lparr>nl_order = ID ord, nl_event = fst announced,
          nl_text = BuildMessage (fst announced) (ID ord) reason\<rparr>])"
proof -
  let ?final = "if fits (ordered_items ord) idb then StatusConfirmed else StatusCancelled"
  obtain idb' counts' refusal where
    inv: "pg_handleMessage (calm_env rid t) (row_message row) (idb, counts) = Returns (None, idb', counts')"
      "inv_outbox idb' = inv_outbox idb @ [answer_row rid t (ID ord) refusal]"
    and fit: "if fits (ordered_items ord) idb
       then refusal = None \<and> stock idb' = map (reserve_row (ordered_items ord)) (stock idb)
       else refusal \<noteq> None \<and> stock idb' = stock idb"
    using inventory_answers [OF assms(1-5)] by blast
  let ?reason = "case refusal of None \<Rightarrow> [] | Some r \<Rightarrow> r"
  have final: "(if refusal = None then StatusConfirmed else StatusCancelled) = ?final"
    using fit by (simp split: if_splits)
  obtain odb' where
    ord: "deliver_result (pg_update (calm_attempts rids tm now)) (row_message (answer_row rid t (ID ord) refusal)) odb
        = (None, odb')"
      "stored_order odb' = (stored_order odb)(ID ord \<mapsto> (?final, v + 1))"
      "outbox_events odb' = outbox_events odb @ [(ID ord, final_event (ID ord) ?final ?reason)]"
    using deliver_answer [OF assms(6,7), of rids tm now rid t refusal] unfolding Let_def final by blast
  have "?final = StatusConfirmed \<and> ?reason = [] \<or> ?final = StatusCancelled" using fit by auto
  from customer_told [OF this] assms(8) obtain st' ncounts' where
    "notif_handleMessage (Notify (MarkProcessedAndNotify no_faults)) (fst (final_event (ID ord) ?final ?reason))
      (event_message (ID ord) (final_event (ID ord) ?final ?reason)) (st, ncounts) = (None, st', ncounts')"
    "sent_lines st' = sent_lines st @ [\<lparr>nl_order = ID ord, nl_event = fst (final_event (ID ord) ?final ?reason),
         nl_text = BuildMessage (fst (final_event (ID ord) ?final ?reason)) (ID ord) ?reason\<rparr>]"
    by blast
  moreover have "stock idb' = (if ?final = StatusConfirmed then map (reserve_row (ordered_items ord)) (stock idb) else stock idb)"
    using fit by simp
  ultimately show ?thesis
    using inv ord unfolding Let_def by blast
qed

text \<open>
  What the saga does not provide for: the domain takes a line whose quantity is not positive, the check of
  the stock passes it, and the reservation refuses it with an error that is no business error.
\<close>

lemma reserve_nonpositive:
  assumes "sint (ri_Qty it) \<le> 0"
  shows "\<exists>m. reserve_items f k stocks (it # items) tx
    = Returns (Inl (Wrapf (''reserve sku '' @ ri_SKU it @ '': '') (Opaque m) []))"
  using assms by (cases "stocks (ri_SKU it)") (simp_all add: Reserve_def)

lemma ReserveAll_nonpositive:
  assumes "sint (ri_Qty it) \<le> 0" and "oid \<notin> set (processed db)" and "stock_ok (meanwhile db)"
    and "\<forall>i \<in> set (it # items). has_key sr_sku (ri_SKU i) (stock (meanwhile db))
      \<and> (\<forall>r \<in> set (stock (meanwhile db)). sr_sku r = ri_SKU i \<longrightarrow> sint (ri_Qty i) \<le> sr_available r)"
  shows "\<exists>e db'. ReserveAll f meanwhile rid now oid (it # items) db = Returns (Some e, db')
    \<and> (\<forall>s. \<not> errors_is e s) \<and> db' \<in> {db, meanwhile db}"
proof -
  let ?items = "it # items"
  let ?found = "filter (\<lambda>r. sr_sku r \<in> set (map ri_SKU ?items)) (stock (meanwhile db))"
  have "agrees (stock_map ?found Map.empty) (meanwhile db)" by (rule agrees_stock_map [OF assms(3)]) auto
  moreover have "stock_map ?found Map.empty (ri_SKU i) \<noteq> None" if i: "i \<in> set ?items" for i
  proof -
    obtain r where r: "r \<in> set (stock (meanwhile db))" "sr_sku r = ri_SKU i"
      using bspec [OF assms(4) i] by (auto simp: has_key_def)
    then have "r \<in> set ?found" using i by auto
    with r(2) show ?thesis unfolding stock_map_None by force
  qed
  ultimately have check: "check_items (stock_map ?found Map.empty) ?items = None"
    unfolding check_items_None agrees_def using assms(4) by (metis not_None_eq)
  show ?thesis
  proof (cases "f_begin f = None \<and> f_exec f 0 = None \<and> f_exec f 1 = None")
    case False
    with assms(2) show ?thesis by (auto simp: ReserveAll_def Let_def split: option.split)
  next
    case True
    show ?thesis
    proof (cases "scan_rows (f_scan f) 0 (delivered (f_rows f) ?found) :: inv_error + stock_row list")
      case (Inl e)
      with True assms(2) scan_rows_Inl [OF Inl] show ?thesis by (auto simp: ReserveAll_def Let_def)
    next
      case (Inr rows)
      show ?thesis
      proof (cases "f_rows f")
        case (Some n)
        with True assms(2) Inr show ?thesis by (simp add: ReserveAll_def Let_def)
      next
        case None
        with scan_rows_Inr [OF Inr] have rows: "rows = ?found" by (simp add: delivered_def)
        obtain m where "reserve_items f 2 (stock_map ?found Map.empty) ?items (meanwhile db)
          = Returns (Inl (Wrapf (''reserve sku '' @ ri_SKU it @ '': '') (Opaque m) []))"
          using reserve_nonpositive [OF assms(1)] by blast
        with True None assms(2) Inr check rows show ?thesis
          by (simp add: ReserveAll_def Let_def del: check_items.simps reserve_items.simps)
      qed
    qed
  qed
qed

text \<open>
  Property C40 (error). An order whose first line has a quantity that is not positive is accepted by
  order-service's domain, but no delivery of its \<open>order.created\<close> message ever settles it: as long as its
  lines are of known SKUs and within the stock, the handler neither reserves it nor records a failure,
  whatever fails and whatever commits meanwhile; it returns an error, so the message is not
  committed, and counts an error every time. Nothing has to fail for it.
\<close>

theorem nonpositive_quantity_stuck:
  assumes "marshal_OrderCreatedEvent (created_event ord) = Some (ob_payload row)"
    and "Items ord = it # its" and "sint (Quantity it) \<le> 0"
    and "ID ord \<notin> set (processed db)" and "stock_ok (ie_meanwhile e db)"
    and "\<forall>i \<in> set (Items ord). has_key sr_sku (SKU i) (stock (ie_meanwhile e db))
      \<and> (\<forall>r \<in> set (stock (ie_meanwhile e db)). sr_sku r = SKU i \<longrightarrow> sint (Quantity i) \<le> sr_available r)"
  shows "(\<exists>ord'. NewOrder (ID ord) (CustomerID ord) (Items ord) t = Inr ord' \<and> Items ord' = Items ord)
    \<and> (\<exists>err db'. pg_handleMessage e (row_message row) (db, counts) = Returns (Some err, db', count_result R_error counts)
        \<and> db' \<in> {db, ie_meanwhile e db})"
proof
  obtain ord' where new: "NewOrder (ID ord) (CustomerID ord) (Items ord) t = Inr ord'"
    unfolding assms(2) NewOrder_Cons by auto
  with NewOrder_fields [OF new]
  show "\<exists>ord'. NewOrder (ID ord) (CustomerID ord) (Items ord) t = Inr ord' \<and> Items ord' = Items ord" by auto
  have items: "ordered_items ord = \<lparr>ri_SKU = SKU it, ri_Qty = Quantity it\<rparr>
      # map (\<lambda>it. \<lparr>ri_SKU = SKU it, ri_Qty = Quantity it\<rparr>) its"
    by (simp add: ordered_items_def assms(2))
  have "\<exists>e1 db'. pg_reserve e (ID ord) (ordered_items ord) db = Returns (Some e1, db')
      \<and> (\<forall>s. \<not> errors_is e1 s) \<and> db' \<in> {db, ie_meanwhile e db}"
    unfolding pg_reserve_def items
    by (rule ReserveAll_nonpositive) (use assms(2-6) in \<open>auto simp: assms(2)\<close>)
  then obtain e1 db' where res: "pg_reserve e (ID ord) (ordered_items ord) db = Returns (Some e1, db')"
    "\<And>s. \<not> errors_is e1 s" "db' \<in> {db, ie_meanwhile e db}" by blast
  have oid: "ic_OrderID (created_seen (created_event ord)) = ID ord"
    by (simp add: created_seen_def created_event_def)
  from res show "\<exists>err db'. pg_handleMessage e (row_message row) (db, counts) = Returns (Some err, db', count_result R_error counts)
      \<and> db' \<in> {db, ie_meanwhile e db}"
    by (simp add: pg_handleMessage_def inv_handleMessage_def created_inv.row_decodes [OF assms(1)] oid
        reservation_items_created ReserveStock_def go_simps)
qed

definition refund :: Order where
  "refund = sample_order\<lparr>Items := [\<lparr>SKU = ''s1'', Name = ''n'', Price = NewMoney 5 ''USD'', Quantity = - 1\<rparr>]\<rparr>"

definition saga_stock :: inv_db where
  "saga_stock = \<lparr>stock = [\<lparr>sr_sku = ''s1'', sr_available = 5, sr_reserved = 0, sr_version = 1\<rparr>],
     processed = [], inv_outbox = []\<rparr>"

theorem nonpositive_quantity_stuck_witness:
  "\<exists>payload err. marshal_OrderCreatedEvent (created_event refund) = Some payload
    \<and> pg_handleMessage (calm_env ''r7'' sample_time)
        (row_message (new_outbox_row ''r1'' ''o1'' EventTypeOrderCreated payload sample_time)) (saga_stock, \<lambda>_. 0)
      = Returns (Some err, saga_stock, count_result R_error (\<lambda>_. 0))"
proof -
  have "marshal_time sample_time \<noteq> None"
    using marshal_sample by (cases "marshal_time sample_time")
      (auto simp: marshal_OrderCreatedEvent_def created_event_def sample_order_def)
  then obtain payload where p: "marshal_OrderCreatedEvent (created_event refund) = Some payload"
    by (auto simp: marshal_OrderCreatedEvent_def created_event_def refund_def sample_order_def)
  let ?row = "new_outbox_row ''r1'' ''o1'' EventTypeOrderCreated payload sample_time"
  have row: "marshal_OrderCreatedEvent (created_event refund) = Some (ob_payload ?row)" using p by simp
  have items: "Items refund = [\<lparr>SKU = ''s1'', Name = ''n'', Price = NewMoney 5 ''USD'', Quantity = - 1\<rparr>]"
    by (simp add: refund_def)
  have "ID refund \<notin> set (processed saga_stock)" "stock_ok (ie_meanwhile (calm_env ''r7'' sample_time) saga_stock)"
    by (simp_all add: saga_stock_def calm_env_def stock_ok_def quantity_column_def int4_range_def)
  from nonpositive_quantity_stuck [OF row items _ this] p show ?thesis
    by (auto simp: items calm_env_def saga_stock_def has_key_def)
qed

theorem saga_closes_order_witness:
  "\<exists>idb' counts' odb'.
     pg_handleMessage (calm_env ''r7'' sample_time)
       (row_message (new_outbox_row ''r1'' ''o1'' EventTypeOrderCreated sample_payload sample_time)) (saga_stock, \<lambda>_. 0)
       = Returns (None, idb', counts')
     \<and> map sr_available (stock idb') = [3]
     \<and> stored_order odb' ''o1'' = Some (StatusConfirmed, 3)"
proof -
  let ?row = "new_outbox_row ''r1'' ''o1'' EventTypeOrderCreated sample_payload sample_time"
  let ?odb = "\<lparr>orders = [sample_order_row StatusAwaitingStock 2], order_items = [], order_outbox = []\<rparr>"
  have id: "ID sample_order = ''o1''" by (simp add: sample_order_def)
  have row: "marshal_OrderCreatedEvent (created_event sample_order) = Some (ob_payload ?row)"
    by (simp add: new_outbox_row_def marshal_sample)
  have inv: "stock_ok saga_stock" "roomy saga_stock" "ID sample_order \<notin> set (processed saga_stock)"
    by (simp_all add: saga_stock_def stock_ok_def roomy_def quantity_column_def int4_range_def)
  have items: "\<forall>it \<in> set (Items sample_order). 0 < sint (Quantity it)"
    by (simp add: sample_order_def sample_items_def)
  have fit: "fits (ordered_items sample_order) saga_stock"
    by (simp add: fits_def saga_stock_def ordered_items_def sample_order_def sample_items_def ordered_def
        has_key_def quantity_column_def int4_range_def)
  have odb: "primary_key ?odb" "stored_order ?odb (ID sample_order) = Some (StatusAwaitingStock, 2)"
    by (simp_all add: primary_key_def stored_order_def find_row_Cons sample_order_row_def id)
  have st: "\<forall>ty. (ID sample_order, ty) \<notin> set (inbox empty_notif_state)" by (simp add: empty_notif_state_def)
  from saga_closes_order [OF row inv items odb st, of "''r7''" sample_time "\<lambda>_. 0" "\<lambda>_. ''r9''" "\<lambda>_ _. sample_time"
      "\<lambda>_. sample_time" "\<lambda>_. 0"]
  obtain idb' counts' odb' where r: "pg_handleMessage (calm_env ''r7'' sample_time) (row_message ?row) (saga_stock, \<lambda>_. 0)
       = Returns (None, idb', counts')"
    "stock idb' = map (reserve_row (ordered_items sample_order)) (stock saga_stock)"
    "stored_order odb' = (stored_order ?odb)(ID sample_order \<mapsto> (StatusConfirmed, 2 + 1))"
    unfolding Let_def using fit by auto
  have "map sr_available (stock idb') = [3]"
    by (simp add: r(2) saga_stock_def reserve_row_def ordered_items_def sample_order_def sample_items_def ordered_def)
  moreover have "stored_order odb' ''o1'' = Some (StatusConfirmed, 3)" using r(3) by (simp add: id)
  ultimately show ?thesis
    using r(1) by (intro exI [of _ idb'] exI [of _ counts'] exI [of _ odb']) simp
qed

end
