(* ===== verification/Marketplace.thy ===== *)
theory Marketplace
  imports Saga
begin

text \<open>
  The services as one system. The joint state holds order-service's database, its reads in flight
  and what it has written to Kafka, the same for inventory-service, and the inbox and the sent lines
  of notification-service. A step is one transaction of one service, with any failures; a consumer
  may handle any message its topics have ever held, in any order and any number of times, as Kafka's
  redeliveries allow.

  Each step of the joint system is a step of one component, so the components' invariants carry
  over; what is added is agreement between the services: what order-service calls confirmed is
  reserved in inventory-service, line by line, and no customer is told anything else.
\<close>

section \<open>What a message asks for\<close>

text \<open>The update that a stock result asks \<open>UpdateOrderStatus\<close> for.\<close>

definition stock_result :: "message \<Rightarrow> (string \<times> OrderStatus \<times> string) option" where
  "stock_result m =
     (if msg_topic m = EventTypeStockReserved
      then map_option (\<lambda>e. (sre_OrderID e, StatusConfirmed, []))
             (unmarshal fields_StockReservedEvent \<lparr>sre_OrderID = []\<rparr> (msg_value m))
      else if msg_topic m = EventTypeStockFailed
      then map_option (\<lambda>e. (sfe_OrderID e, StatusCancelled, sfe_Reason e))
             (unmarshal fields_StockFailedEvent \<lparr>sfe_OrderID = [], sfe_Reason = []\<rparr> (msg_value m))
      else None)"

lemma deliver_result_update:
  assumes "msg_topic m \<in> {EventTypeStockReserved, EventTypeStockFailed}"
  shows "deliver_result upd m db = (case stock_result m of
      None \<Rightarrow> (None, db) | Some (oid, new, reason) \<Rightarrow> swallow (upd oid new reason db))"
  using assms
  by (auto simp: deliver_result_def stock_result_def handleReserved_def handleFailed_def swallow_def
      EventTypeStockReserved_def EventTypeStockFailed_def split: option.splits)

text \<open>The order that an \<open>order.created\<close> message asks inventory-service for.\<close>

definition created_order :: "message \<Rightarrow> InvOrderCreatedEvent option" where
  "created_order m =
     (if msg_topic m = EventTypeOrderCreated
      then unmarshal fields_InvOrderCreatedEvent zero_InvOrderCreatedEvent (msg_value m) else None)"

section \<open>The joint system\<close>

record market =
  mk_orders :: order_sys
  mk_stock :: inv_sys
  mk_notif :: notif_state

definition market_init :: "stock_row list \<Rightarrow> market" where
  "market_init stock0 = \<lparr>mk_orders = order_sys_init, mk_stock = inv_sys_init stock0, mk_notif = empty_notif_state\<rparr>"

inductive market_step :: "market \<Rightarrow> market \<Rightarrow> bool" where
  new_order:
    "NewOrder oid cust items t = Inr ord \<Longrightarrow>
     marshal_OrderCreatedEvent (created_event ord) = Some payload \<Longrightarrow>
     rid \<notin> set (map ob_id (order_outbox (os_db (mk_orders s)))) \<Longrightarrow>
     SaveWithEvent f rid now ord EventTypeOrderCreated payload (os_db (mk_orders s)) = (r, db') \<Longrightarrow>
     market_step s (s\<lparr>mk_orders := (mk_orders s)\<lparr>os_db := db'\<rparr>\<rparr>)"
| take_order:
    "GetByID f oid (os_db (mk_orders s)) = Inr ord \<Longrightarrow>
     market_step s (s\<lparr>mk_orders := (mk_orders s)\<lparr>os_reads := ord # os_reads (mk_orders s)\<rparr>\<rparr>)"
| apply_result:
    "m \<in> set (iv_log (mk_stock s)) \<Longrightarrow> stock_result m = Some (oid, new, reason) \<Longrightarrow>
     ord \<in> set (os_reads (mk_orders s)) \<Longrightarrow> ID ord = oid \<Longrightarrow> TransitionTo ord new t = Inr ord' \<Longrightarrow>
     buildStatusEvent ord' new reason = Inr (ty, payload) \<Longrightarrow>
     rid \<notin> set (map ob_id (order_outbox (os_db (mk_orders s)))) \<Longrightarrow>
     UpdateStatusWithEvent f rid tm ord' ty payload (os_db (mk_orders s)) = (r, db') \<Longrightarrow>
     market_step s (s\<lparr>mk_orders := (mk_orders s)\<lparr>os_db := db'\<rparr>\<rparr>)"
| order_tick:
    "order_processBatch f fq locked pub tm batch (os_db (mk_orders s)) (os_log (mk_orders s)) gauge
       = (r, db', log', gauge') \<Longrightarrow>
     market_step s (s\<lparr>mk_orders := (mk_orders s)\<lparr>os_db := db', os_log := log'\<rparr>\<rparr>)"
| reserve_stock:
    "m \<in> set (os_log (mk_orders s)) \<Longrightarrow> created_order m = Some event \<Longrightarrow>
     old \<in> set (iv_db (mk_stock s) # iv_past (mk_stock s)) \<Longrightarrow>
     rid \<notin> set (map ob_id (inv_outbox (iv_db (mk_stock s)))) \<Longrightarrow>
     ReserveAll f (\<lambda>_. iv_db (mk_stock s)) rid now (ic_OrderID event) (reservation_items event) old
       = Returns (r, db') \<Longrightarrow>
     db' \<noteq> old \<Longrightarrow> db' \<noteq> iv_db (mk_stock s) \<Longrightarrow>
     market_step s (s\<lparr>mk_stock := (mk_stock s)\<lparr>iv_db := db', iv_past := iv_db (mk_stock s) # iv_past (mk_stock s),
       iv_ledger := iv_ledger (mk_stock s) @ [(ic_OrderID event, reservation_items event)]\<rparr>\<rparr>)"
| refuse_stock:
    "m \<in> set (os_log (mk_orders s)) \<Longrightarrow> created_order m = Some event \<Longrightarrow>
     rid \<notin> set (map ob_id (inv_outbox (iv_db (mk_stock s)))) \<Longrightarrow>
     RecordFailure f rid now (ic_OrderID event) reason (iv_db (mk_stock s)) = (r, db') \<Longrightarrow>
     market_step s (s\<lparr>mk_stock := (mk_stock s)\<lparr>iv_db := db', iv_past := iv_db (mk_stock s) # iv_past (mk_stock s)\<rparr>\<rparr>)"
| stock_tick:
    "inv_processBatch f locked pub tm batch (iv_db (mk_stock s)) (iv_log (mk_stock s)) = (r, db', log') \<Longrightarrow>
     market_step s (s\<lparr>mk_stock := (mk_stock s)\<lparr>iv_db := db', iv_past := iv_db (mk_stock s) # iv_past (mk_stock s),
       iv_log := log'\<rparr>\<rparr>)"
| notify_customer:
    "m \<in> set (os_log (mk_orders s)) \<Longrightarrow>
     notif_handleMessage (Notify (MarkProcessedAndNotify f)) (msg_topic m) m (mk_notif s, counts) = (r, st', counts') \<Longrightarrow>
     market_step s (s\<lparr>mk_notif := st'\<rparr>)"

inductive market_reachable :: "stock_row list \<Rightarrow> market \<Rightarrow> bool" for stock0 where
  init: "market_reachable stock0 (market_init stock0)"
| step: "market_reachable stock0 s \<Longrightarrow> market_step s s' \<Longrightarrow> market_reachable stock0 s'"

section \<open>Steps of the joint system are steps of the components\<close>

lemma market_step_orders:
  "market_step s s' \<Longrightarrow> mk_orders s' = mk_orders s \<or> order_sys_step (mk_orders s) (mk_orders s')"
proof (induction rule: market_step.induct)
  case (new_order oid cust items t ord payload rid s f now r db')
  from order_sys_step.create_order [OF new_order] show ?case by simp
next
  case (apply_result m s oid new reason ord t ord' ty payload rid f tm r db')
  from order_sys_step.write_status [OF apply_result(3,5-8)] show ?case by simp
qed (auto intro: order_sys_step.intros)

lemma market_step_stock:
  "market_step s s' \<Longrightarrow> mk_stock s' = mk_stock s \<or> inv_sys_step (mk_stock s) (mk_stock s')"
proof (induction rule: market_step.induct)
  case (reserve_stock m s event old rid f now r db')
  from inv_sys_step.reserve_order [OF reserve_stock(3-7)] show ?case by simp
next
  case (refuse_stock m s event rid f now reason r db')
  from inv_sys_step.record_failure [OF refuse_stock(3,4)] show ?case by simp
qed (auto intro: inv_sys_step.worker_tick)

lemma market_orders_reachable: "market_reachable stock0 s \<Longrightarrow> order_sys_reachable (mk_orders s)"
proof (induction rule: market_reachable.induct)
  case init
  show ?case by (simp add: market_init_def order_sys_reachable.init)
next
  case (step s s')
  then show ?case using market_step_orders [OF step.hyps(2)] by (auto intro: order_sys_reachable.step)
qed

lemma market_stock_reachable: "market_reachable stock0 s \<Longrightarrow> inv_sys_reachable stock0 (mk_stock s)"
proof (induction rule: market_reachable.induct)
  case init
  show ?case by (simp add: market_init_def inv_sys_reachable.init)
next
  case (step s s')
  then show ?case using market_step_stock [OF step.hyps(2)] by (auto intro: inv_sys_reachable.step)
qed

section \<open>What the topics hold\<close>

text \<open>The items of a stored order, as inventory-service counts them.\<close>

definition order_lines :: "string \<Rightarrow> order_db \<Rightarrow> ReservationItem list" where
  "order_lines oid db = map (\<lambda>it. \<lparr>ri_SKU = SKU it, ri_Qty = Quantity it\<rparr>) (map row_to_item (items_of oid db))"

text \<open>A message of order-service: a stored order's snapshot, or a final event.\<close>

definition order_message_ok :: "order_db \<Rightarrow> message \<Rightarrow> bool" where
  "order_message_ok db m \<longleftrightarrow>
     (\<exists>ord p. m = event_message (ID ord) (EventTypeOrderCreated, p)
        \<and> marshal_OrderCreatedEvent (created_event ord) = Some p \<and> ordered_items ord = order_lines (ID ord) db)
   \<or> (\<exists>oid new reason. (new = StatusConfirmed \<or> new = StatusCancelled)
        \<and> m = event_message oid (final_event oid new reason))"

definition order_messages :: "order_sys \<Rightarrow> message set" where
  "order_messages s = row_message ` set (order_outbox (os_db s))"

definition orders_told :: "order_sys \<Rightarrow> bool" where
  "orders_told s \<longleftrightarrow> (\<forall>m \<in> order_messages s. order_message_ok (os_db s) m) \<and> set (os_log s) \<subseteq> order_messages s"

lemma order_items_processBatch:
  assumes "order_processBatch f fq locked pub tm batch db log gauge = (r, db', log', gauge')"
  shows "order_items db' = order_items db"
  using processBatch_tick [OF assms]
proof (cases rule: ow.tick_cases)
  case (sent rs)
  have "publish_loop pub (order_worker_body f tm) k recs tx log = (Inr tx', log') \<Longrightarrow> order_items tx' = order_items tx"
    for k recs tx log tx'
    by (induction recs arbitrary: k tx log)
      (auto split: prod.splits option.splits sum.splits dest!: order_worker_body_Inr(2))
  with sent(2) show ?thesis by blast
qed simp

text \<open>No step takes a message back or touches the lines of an order that is there.\<close>

lemma order_step_grows:
  assumes "order_sys_step s s'" and "order_sys_reachable s"
  shows "order_messages s \<subseteq> order_messages s'
    \<and> (\<forall>oid. has_key or_id oid (orders (os_db s)) \<longrightarrow>
         has_key or_id oid (orders (os_db s')) \<and> order_lines oid (os_db s') = order_lines oid (os_db s))"
  using assms
proof (induction rule: order_sys_step.induct)
  case (create_order oid cust items t ord payload rid s f now r db')
  from create_order.hyps(4) show ?case
  proof (cases rule: SaveWithEvent_cases)
    case saved
    have "order_lines k (saved rid now ord EventTypeOrderCreated payload (os_db s)) = order_lines k (os_db s)"
      if "has_key or_id k (orders (os_db s))" for k
    proof -
      have "k \<noteq> ID ord" using that saved(2) by metis
      then show ?thesis by (auto simp: order_lines_def items_of_def saved_def item_to_row_def)
    qed
    moreover have "order_messages s \<subseteq> order_messages (s\<lparr>os_db := db'\<rparr>)"
      using saved(1) by (auto simp: order_messages_def saved_def)
    moreover have "has_key or_id k (orders db')" if "has_key or_id k (orders (os_db s))" for k
      using saved(1) that by (auto simp: saved_def has_key_def)
    ultimately show ?thesis using saved by (auto simp del: set_map)
  qed (simp add: order_messages_def)
next
  case (write_status ord s new t ord' reason ty payload rid f tm r db')
  from write_status.hyps(5) show ?case
    by (cases rule: UpdateStatusWithEvent_cases)
      (auto simp: order_messages_def status_updated_def order_lines_def items_of_def has_key_update_where)
next
  case (worker_tick f fq locked pub tm batch s gauge r db' log' gauge')
  note tick = processBatch_tick [OF worker_tick.hyps]
  have "order_messages (s\<lparr>os_db := db', os_log := log'\<rparr>) = order_messages s"
    using ow.tick_rows [OF tick] unfolding order_messages_def by (simp flip: set_map)
  moreover have "has_key or_id oid (orders db') = has_key or_id oid (orders (os_db s))" for oid
    using order_ids_processBatch [OF worker_tick.hyps] by (simp add: has_key_def del: set_map)
  ultimately show ?case
    using order_items_processBatch [OF worker_tick.hyps] by (simp add: order_lines_def items_of_def)
qed (simp add: order_messages_def)

lemma event_message_simps [simp]:
  "msg_topic (event_message oid ev) = fst ev" "msg_key (event_message oid ev) = oid"
  "msg_value (event_message oid ev) = Doc (snd ev)"
  by (simp_all add: event_message_def)

lemma order_message_ok_grows:
  assumes "order_message_ok db m" and "has_key or_id (msg_key m) (orders db)"
    and "\<forall>oid. has_key or_id oid (orders db) \<longrightarrow> order_lines oid db' = order_lines oid db"
  shows "order_message_ok db' m"
proof -
  consider (created) ord p where "m = event_message (ID ord) (EventTypeOrderCreated, p)"
      "marshal_OrderCreatedEvent (created_event ord) = Some p" "ordered_items ord = order_lines (ID ord) db"
    | (final) "\<exists>oid new reason. (new = StatusConfirmed \<or> new = StatusCancelled)
        \<and> m = event_message oid (final_event oid new reason)"
    using assms(1) unfolding order_message_ok_def by blast
  then show ?thesis
  proof cases
    case created
    then have "ordered_items ord = order_lines (ID ord) db'" using assms(2,3) by simp
    with created show ?thesis unfolding order_message_ok_def by blast
  next
    case final
    then show ?thesis unfolding order_message_ok_def by (rule disjI2)
  qed
qed

lemma order_messages_have_orders:
  assumes "order_sys_reachable s" and "m \<in> order_messages s"
  shows "has_key or_id (msg_key m) (orders (os_db s))"
  using reachable_invs [OF assms(1)] assms(2) by (auto simp: order_messages_def order_inv_def row_message_def)

lemma row_message_new: "row_message (new_outbox_row rid oid ty p now) = event_message oid (ty, p)"
  by (simp add: row_message_def new_outbox_row_def event_message_def)

text \<open>The messages after a step: those before and at most one new one, which is well-formed.\<close>

lemma order_step_messages:
  assumes "order_sys_step s s'" and "order_sys_reachable s"
  shows "\<forall>m \<in> order_messages s'. m \<in> order_messages s \<or> order_message_ok (os_db s') m"
  using assms
proof (induction rule: order_sys_step.induct)
  case (create_order oid cust items t ord payload rid s f now r db')
  have inv: "order_inv (os_db s)" using reachable_invs [OF create_order.prems] by blast
  from create_order.hyps(4) show ?case
  proof (cases rule: SaveWithEvent_cases)
    case saved
    have "ordered_items ord = order_lines (ID ord) db'"
      using items_of_saved [OF inv saved(2)] by (simp add: saved(1) order_lines_def ordered_items_def)
    then have "order_message_ok db' (event_message (ID ord) (EventTypeOrderCreated, payload))"
      using create_order.hyps(2) by (auto simp: order_message_ok_def)
    then show ?thesis using saved(1) by (auto simp: order_messages_def saved_def row_message_new)
  qed (simp add: order_messages_def)
next
  case (write_status ord s new t ord' reason ty payload rid f tm r db')
  have new: "new = StatusConfirmed \<or> new = StatusCancelled" using buildStatusEvent_Inr [OF write_status.hyps(3)] by auto
  have "(ty, payload) = final_event (ID ord') new reason"
    using write_status.hyps(3) buildStatusEvent_final [OF new, of ord' reason] by simp
  then have "order_message_ok db (event_message (ID ord') (ty, payload))" for db
    using new unfolding order_message_ok_def by metis
  with write_status.hyps(5) show ?case
    by (cases rule: UpdateStatusWithEvent_cases)
      (auto simp: order_messages_def status_updated_def row_message_new)
next
  case (worker_tick f fq locked pub tm batch s gauge r db' log' gauge')
  have "order_messages (s\<lparr>os_db := db', os_log := log'\<rparr>) = order_messages s"
    using ow.tick_rows [OF processBatch_tick [OF worker_tick.hyps]] unfolding order_messages_def by (simp flip: set_map)
  then show ?case by simp
qed (simp add: order_messages_def)

lemma order_step_log:
  assumes "order_sys_step s s'" and "set (os_log s) \<subseteq> order_messages s"
  shows "set (os_log s') \<subseteq> set (os_log s) \<or> set (os_log s') \<subseteq> order_messages s'"
  using assms
  by (induction rule: order_sys_step.induct)
    (auto simp: order_messages_def dest!: processBatch_tick dest: ow.tick_log_sound)

lemma orders_told_step:
  assumes "order_sys_step s s'" and "order_sys_reachable s" and "orders_told s"
  shows "orders_told s'"
proof -
  note grows = order_step_grows [OF assms(1,2)]
  have "order_message_ok (os_db s') m" if "m \<in> order_messages s" for m
    using order_message_ok_grows [of "os_db s" m "os_db s'"] order_messages_have_orders [OF assms(2) that]
      assms(3) that grows by (auto simp: orders_told_def)
  then show ?thesis
    using order_step_messages [OF assms(1,2)] order_step_log [OF assms(1)] grows assms(3)
    unfolding orders_told_def by blast
qed

lemma reachable_orders_told: "order_sys_reachable s \<Longrightarrow> orders_told s"
proof (induction rule: order_sys_reachable.induct)
  case init
  show ?case by (simp add: orders_told_def order_messages_def order_sys_init_def empty_order_db_def)
qed (rule orders_told_step)

text \<open>A message of inventory-service: one of its two answers.\<close>

definition stock_messages :: "inv_sys \<Rightarrow> message set" where
  "stock_messages s = row_message ` set (inv_outbox (iv_db s))"

definition stock_told :: "inv_sys \<Rightarrow> bool" where
  "stock_told s \<longleftrightarrow> (\<forall>m \<in> stock_messages s. (\<exists>oid. m = reserved_message oid) \<or> (\<exists>oid reason. m = failed_message oid reason))
     \<and> set (iv_log s) \<subseteq> stock_messages s"

lemma answer_messages:
  "event_message oid (EventTypeStockReserved, marshal_StockReservedEvent oid) = reserved_message oid"
  "event_message oid (EventTypeStockFailed, marshal_StockFailedEvent oid reason) = failed_message oid reason"
  by (simp_all add: event_message_def reserved_message_def failed_message_def EventTypeStockReserved_def
      EventTypeStockFailed_def marshal_StockReservedEvent_def marshal_StockFailedEvent_def)

lemma stock_step_told:
  assumes "inv_sys_step s s'" and "inv_inv stock0 s" and "stock_told s"
  shows "stock_messages s \<subseteq> stock_messages s' \<and> stock_told s'"
  using assms
proof (induction rule: inv_sys_step.induct)
  case (reserve_order old s rid f now oid items r db')
  have "stock_ok ((\<lambda>_. iv_db s) old)" using reserve_order.prems by (simp add: inv_inv_def)
  from reserve_order.hyps(3) this show ?case
  proof (cases rule: ReserveAll_cases)
    case reserved
    with reserve_order.prems(2) show ?thesis
      by (auto simp: stock_told_def stock_messages_def reserved_db_def row_message_new answer_messages)
  qed (use reserve_order.hyps(4,5) in simp)
next
  case (record_failure rid s f now oid reason r db')
  from record_failure.hyps(2) show ?case
    by (cases rule: RecordFailure_cases)
      (use record_failure.prems(2) in \<open>auto simp: stock_told_def stock_messages_def row_message_new answer_messages\<close>)
next
  case (worker_tick f locked pub tm batch s r db' log')
  note tick = worker_tick.hyps [unfolded inv_processBatch_def]
  have "row_message ` set (inv_outbox db') = row_message ` set (inv_outbox (iv_db s))"
    using iw.tick_rows [OF tick] by (metis set_map)
  with iw.tick_log_sound [OF tick] worker_tick.prems(2) show ?case
    by (auto simp: stock_told_def stock_messages_def)
qed

lemma reachable_stock_told:
  "inv_sys_reachable stock0 s \<Longrightarrow> stock_ok (iv_db (inv_sys_init stock0)) \<Longrightarrow> stock_told s"
proof (induction rule: inv_sys_reachable.induct)
  case init
  show ?case by (simp add: stock_told_def stock_messages_def inv_sys_init_def)
qed (use stock_step_told reachable_inv_inv in blast)

section \<open>Agreement\<close>

text \<open>
  Each reservation in the ledger is a stored order's, line by line; a confirmed order is reserved,
  a cancelled one was refused.
\<close>

definition agreement :: "order_sys \<Rightarrow> inv_sys \<Rightarrow> bool" where
  "agreement os iv \<longleftrightarrow>
     (\<forall>(oid, items) \<in> set (iv_ledger iv). has_key or_id oid (orders (os_db os)) \<and> items = order_lines oid (os_db os))
   \<and> (\<forall>oid v. stored_order (os_db os) oid = Some (StatusConfirmed, v) \<longrightarrow> oid \<in> fst ` set (iv_ledger iv))
   \<and> (\<forall>oid v. stored_order (os_db os) oid = Some (StatusCancelled, v) \<longrightarrow>
        (\<exists>reason. failed_message oid reason \<in> stock_messages iv))"

text \<open>Every line sent to a customer is about an event of an order.\<close>

definition line_told :: "order_sys \<Rightarrow> NotificationLine \<Rightarrow> bool" where
  "line_told os l \<longleftrightarrow> (\<exists>m \<in> order_messages os. msg_topic m = nl_event l \<and> msg_key m = nl_order l
     \<and> (\<exists>event. unmarshal fields_OrderEvent zero_OrderEvent (msg_value m) = Some event
          \<and> nl_text l = BuildMessage (nl_event l) (nl_order l) (oe_Reason event)))"

definition told_truly :: "order_sys \<Rightarrow> notif_state \<Rightarrow> bool" where
  "told_truly os nt \<longleftrightarrow> (\<forall>l \<in> set (sent_lines nt). line_told os l)"

lemma created_order_ok:
  assumes "order_message_ok db m" and "created_order m = Some event"
  shows "ic_OrderID event = msg_key m \<and> reservation_items event = order_lines (msg_key m) db"
proof -
  have "msg_topic m = EventTypeOrderCreated" using assms(2) by (simp add: created_order_def split: if_splits)
  moreover have "fst (final_event oid new reason) \<noteq> EventTypeOrderCreated"
    if "new = StatusConfirmed \<or> new = StatusCancelled" for oid new reason
    using that by auto
  ultimately obtain ord p where m: "m = event_message (ID ord) (EventTypeOrderCreated, p)"
    "marshal_OrderCreatedEvent (created_event ord) = Some p" "ordered_items ord = order_lines (ID ord) db"
    using assms(1) unfolding order_message_ok_def by fastforce
  then have "event = created_seen (created_event ord)"
    using assms(2) created_inv.decodes [OF m(2)] by (simp add: created_order_def)
  with m show ?thesis
    using reservation_items_created [of ord] by (simp add: created_seen_def created_event_def)
qed

lemma stock_result_simps [simp]:
  "stock_result (reserved_message oid) = Some (oid, StatusConfirmed, [])"
  "stock_result (failed_message oid reason) = Some (oid, StatusCancelled, reason)"
proof -
  have "msg_topic (reserved_message oid) = EventTypeStockReserved" "msg_topic (failed_message oid reason) = EventTypeStockFailed"
    by (simp_all add: reserved_message_def failed_message_def EventTypeStockReserved_def EventTypeStockFailed_def)
  then have topics: "stock_result (reserved_message oid) = map_option (\<lambda>e. (sre_OrderID e, StatusConfirmed, []))
      (unmarshal fields_StockReservedEvent \<lparr>sre_OrderID = []\<rparr> (msg_value (reserved_message oid)))"
    "stock_result (failed_message oid reason) = map_option (\<lambda>e. (sfe_OrderID e, StatusCancelled, sfe_Reason e))
      (unmarshal fields_StockFailedEvent \<lparr>sfe_OrderID = [], sfe_Reason = []\<rparr> (msg_value (failed_message oid reason)))"
    by (simp_all add: stock_result_def EventTypeStockReserved_def EventTypeStockFailed_def)
  show "stock_result (reserved_message oid) = Some (oid, StatusConfirmed, [])"
    "stock_result (failed_message oid reason) = Some (oid, StatusCancelled, reason)"
    unfolding topics unfolding reserved_message_def failed_message_def message.simps
      decode_StockReservedEvent decode_StockFailedEvent by simp_all
qed

lemma reserved_in_ledger:
  assumes "inv_inv stock0 iv" and "reserved_message oid \<in> stock_messages iv"
  shows "oid \<in> fst ` set (iv_ledger iv)"
proof -
  obtain e where "e \<in> set (inv_outbox (iv_db iv))" "ob_type e = EventTypeStockReserved" "ob_aggregate e = oid"
    using assms(2) by (auto simp: stock_messages_def row_message_def reserved_message_def EventTypeStockReserved_def)
  then have "oid \<in> set (map ob_aggregate (filter (\<lambda>e. ob_type e = EventTypeStockReserved) (inv_outbox (iv_db iv))))"
    by force
  with assms(1) show ?thesis by (simp add: inv_inv_def del: set_map) simp
qed

text \<open>The final statuses after a step of order-service, but for the write of a result.\<close>

lemma confirmed_before_saved:
  assumes "SaveWithEvent f rid now ord ty payload db = (r, db')" and "Status ord = StatusCreated"
    and "stored_order db' oid = Some (st, v)" and "st \<noteq> StatusCreated"
  shows "stored_order db oid = Some (st, v)"
  using assms(1)
  by (cases rule: SaveWithEvent_cases) (use assms(2-4) in \<open>auto simp: stored_order_saved split: if_splits\<close>)

lemma confirmed_before_tick:
  assumes "order_processBatch f fq locked pub tm batch db log gauge = (r, db', log', gauge')"
    and "stored_order db' oid = Some (st, v)" and "st \<noteq> StatusAwaitingStock"
  shows "stored_order db oid = Some (st, v)"
  using released_processBatch [OF assms(1), of oid] assms(2,3) by (auto simp: released_def)

lemma confirmed_before_result:
  assumes "UpdateStatusWithEvent f rid tm ord ty payload db = (r, db')" and "primary_key db"
    and "stored_order db' oid = Some (st, v)"
  shows "stored_order db oid = Some (st, v) \<or> (oid = ID ord \<and> st = Status ord)"
  using assms(1)
proof (cases rule: UpdateStatusWithEvent_cases)
  case updated
  with stored_order_locked(2) [OF assms(2) updated(2)] assms(3) show ?thesis by (auto split: if_splits)
qed (use assms(3) in simp)

text \<open>What a step of order-service must not do to the agreement, as one rule.\<close>

lemma agreement_orders:
  assumes "agreement os iv"
    and "\<forall>oid. has_key or_id oid (orders (os_db os)) \<longrightarrow>
         has_key or_id oid (orders (os_db os')) \<and> order_lines oid (os_db os') = order_lines oid (os_db os)"
    and "\<And>oid v. stored_order (os_db os') oid = Some (StatusConfirmed, v) \<Longrightarrow>
         (\<exists>v. stored_order (os_db os) oid = Some (StatusConfirmed, v)) \<or> oid \<in> fst ` set (iv_ledger iv)"
    and "\<And>oid v. stored_order (os_db os') oid = Some (StatusCancelled, v) \<Longrightarrow>
         (\<exists>v. stored_order (os_db os) oid = Some (StatusCancelled, v))
         \<or> (\<exists>reason. failed_message oid reason \<in> stock_messages iv)"
  shows "agreement os' iv"
  unfolding agreement_def
proof (intro conjI allI impI ballI)
  note old = assms(1) [unfolded agreement_def]
  show "case x of (oid, items) \<Rightarrow> has_key or_id oid (orders (os_db os')) \<and> items = order_lines oid (os_db os')"
    if "x \<in> set (iv_ledger iv)" for x
    using old that assms(2) by (auto split: prod.splits)
  show "oid \<in> fst ` set (iv_ledger iv)" if "stored_order (os_db os') oid = Some (StatusConfirmed, v)" for oid v
    using assms(3) [OF that] old by blast
  show "\<exists>reason. failed_message oid reason \<in> stock_messages iv"
    if "stored_order (os_db os') oid = Some (StatusCancelled, v)" for oid v
    using assms(4) [OF that] old by blast
qed

section \<open>The joint invariant\<close>

lemma agreement_order_step:
  assumes "agreement os iv" and "order_sys_step os os'" and "order_sys_reachable os"
    and "\<And>oid v st. stored_order (os_db os') oid = Some (st, v) \<Longrightarrow> st = StatusConfirmed \<or> st = StatusCancelled \<Longrightarrow>
         stored_order (os_db os) oid = Some (st, v)
         \<or> st = StatusConfirmed \<and> reserved_message oid \<in> stock_messages iv
         \<or> st = StatusCancelled \<and> (\<exists>reason. failed_message oid reason \<in> stock_messages iv)"
    and "inv_inv stock0 iv"
  shows "agreement os' iv"
proof (rule agreement_orders [OF assms(1)])
  show "\<forall>oid. has_key or_id oid (orders (os_db os)) \<longrightarrow>
      has_key or_id oid (orders (os_db os')) \<and> order_lines oid (os_db os') = order_lines oid (os_db os)"
    using order_step_grows [OF assms(2,3)] by blast
  fix oid v
  show "(\<exists>v. stored_order (os_db os) oid = Some (StatusConfirmed, v)) \<or> oid \<in> fst ` set (iv_ledger iv)"
    if "stored_order (os_db os') oid = Some (StatusConfirmed, v)"
    using assms(4) [OF that] reserved_in_ledger [OF assms(5), of oid] by auto
  show "(\<exists>v. stored_order (os_db os) oid = Some (StatusCancelled, v))
      \<or> (\<exists>reason. failed_message oid reason \<in> stock_messages iv)"
    if "stored_order (os_db os') oid = Some (StatusCancelled, v)"
    using assms(4) [OF that] by auto
qed

lemma agreement_stock:
  assumes "agreement os iv" and "stock_messages iv \<subseteq> stock_messages iv'"
    and "iv_ledger iv' = iv_ledger iv @ new"
    and "\<forall>(oid, items) \<in> set new. has_key or_id oid (orders (os_db os)) \<and> items = order_lines oid (os_db os)"
  shows "agreement os iv'"
proof -
  have "\<forall>(oid, items) \<in> set (iv_ledger iv'). has_key or_id oid (orders (os_db os)) \<and> items = order_lines oid (os_db os)"
    using assms(1,3,4) by (auto simp: agreement_def)
  moreover have "fst ` set (iv_ledger iv) \<subseteq> fst ` set (iv_ledger iv')" using assms(3) by auto
  ultimately show ?thesis using assms(1,2) unfolding agreement_def by blast
qed

lemma told_truly_grows:
  "told_truly os nt \<Longrightarrow> order_messages os \<subseteq> order_messages os' \<Longrightarrow> told_truly os' nt"
  unfolding told_truly_def line_told_def by blast

text \<open>What notification-service decodes from a message of order-service is about its order.\<close>

lemma order_event_seen:
  assumes "order_message_ok db m"
  shows "\<exists>event. unmarshal fields_OrderEvent zero_OrderEvent (msg_value m) = Some event \<and> oe_OrderID event = msg_key m"
  using assms unfolding order_message_ok_def
proof (elim disjE exE conjE)
  fix ord p
  assume "m = event_message (ID ord) (EventTypeOrderCreated, p)" "marshal_OrderCreatedEvent (created_event ord) = Some p"
  then show ?thesis using created_notif.decodes by (simp add: created_event_def)
next
  fix oid new reason
  assume "m = event_message oid (final_event oid new reason)" "new = StatusConfirmed"
  then show ?thesis using confirmed_notif.decodes [OF refl] by simp
next
  fix oid new reason
  assume "m = event_message oid (final_event oid new reason)" "new = StatusCancelled"
  then show ?thesis using cancelled_notif.decodes [OF refl] by simp
qed

lemma MarkProcessedAndNotify_lines:
  "MarkProcessedAndNotify f oid ety text st = (r, st') \<Longrightarrow>
   sent_lines st' = sent_lines st \<or> sent_lines st' = sent_lines st @ [\<lparr>nl_order = oid, nl_event = ety, nl_text = text\<rparr>]"
  by (cases "f_commit f") (auto simp: MarkProcessedAndNotify_def Let_def split: option.splits if_splits)

lemma told_truly_notify:
  assumes "told_truly os nt" and "orders_told os" and "m \<in> set (os_log os)"
    and "notif_handleMessage (Notify (MarkProcessedAndNotify f)) (msg_topic m) m (nt, counts) = (r, nt', counts')"
  shows "told_truly os nt'"
proof -
  have m: "m \<in> order_messages os" "order_message_ok (os_db os) m"
    using assms(2,3) by (auto simp: orders_told_def)
  from order_event_seen [OF m(2)] obtain event where
    event: "unmarshal fields_OrderEvent zero_OrderEvent (msg_value m) = Some event" "oe_OrderID event = msg_key m"
    by blast
  obtain r1 st1 where mark: "MarkProcessedAndNotify f (msg_key m) (msg_topic m)
      (BuildMessage (msg_topic m) (msg_key m) (oe_Reason event)) nt = (r1, st1)" by fastforce
  have "nt' = st1"
    using assms(4) event mark by (auto simp: notif_handleMessage_def Notify_def Let_def split: option.splits if_splits)
  moreover have "line_told os \<lparr>nl_order = msg_key m, nl_event = msg_topic m,
      nl_text = BuildMessage (msg_topic m) (msg_key m) (oe_Reason event)\<rparr>"
    unfolding line_told_def using m(1) event(1) by (intro bexI [of _ m]) auto
  ultimately show ?thesis
    using MarkProcessedAndNotify_lines [OF mark] assms(1) by (auto simp: told_truly_def)
qed

definition market_inv :: "market \<Rightarrow> bool" where
  "market_inv s \<longleftrightarrow> agreement (mk_orders s) (mk_stock s) \<and> told_truly (mk_orders s) (mk_notif s)"

text \<open>A step of order-service alone, and one of inventory-service alone.\<close>

lemma market_inv_orders:
  assumes "market_inv s" and "order_sys_step (mk_orders s) os'" and "order_sys_reachable (mk_orders s)"
    and "\<And>oid v st. stored_order (os_db os') oid = Some (st, v) \<Longrightarrow> st = StatusConfirmed \<or> st = StatusCancelled \<Longrightarrow>
         stored_order (os_db (mk_orders s)) oid = Some (st, v)
         \<or> st = StatusConfirmed \<and> reserved_message oid \<in> stock_messages (mk_stock s)
         \<or> st = StatusCancelled \<and> (\<exists>reason. failed_message oid reason \<in> stock_messages (mk_stock s))"
    and "inv_inv stock0 (mk_stock s)"
  shows "market_inv (s\<lparr>mk_orders := os'\<rparr>)"
  using agreement_order_step [OF _ assms(2-5)] told_truly_grows order_step_grows [OF assms(2,3)] assms(1)
  by (auto simp: market_inv_def)

lemma market_inv_stock:
  assumes "market_inv s" and "inv_sys_step (mk_stock s) iv'" and "inv_inv stock0 (mk_stock s)" and "stock_told (mk_stock s)"
    and "iv_ledger iv' = iv_ledger (mk_stock s) @ new"
    and "\<forall>(oid, items) \<in> set new. has_key or_id oid (orders (os_db (mk_orders s)))
           \<and> items = order_lines oid (os_db (mk_orders s))"
  shows "market_inv (s\<lparr>mk_stock := iv'\<rparr>)"
  using agreement_stock [OF _ _ assms(5,6)] stock_step_told [OF assms(2-4)] assms(1) by (auto simp: market_inv_def)

lemma market_inv_result:
  assumes "market_inv s" and "order_sys_reachable (mk_orders s)" and "inv_inv stock0 (mk_stock s)" and "stock_told (mk_stock s)"
    and "m \<in> set (iv_log (mk_stock s))" and "stock_result m = Some (oid, new, reason)"
    and "ord \<in> set (os_reads (mk_orders s))" and "ID ord = oid" and "TransitionTo ord new t = Inr ord'"
    and "buildStatusEvent ord' new reason = Inr (ty, payload)"
    and "rid \<notin> set (map ob_id (order_outbox (os_db (mk_orders s))))"
    and "UpdateStatusWithEvent f rid tm ord' ty payload (os_db (mk_orders s)) = (r, db')"
  shows "market_inv (s\<lparr>mk_orders := (mk_orders s)\<lparr>os_db := db'\<rparr>\<rparr>)"
proof -
  have "m \<in> stock_messages (mk_stock s)" using assms(4,5) by (auto simp: stock_told_def)
  then have asked: "new = StatusConfirmed \<and> reserved_message oid \<in> stock_messages (mk_stock s)
      \<or> new = StatusCancelled \<and> (\<exists>reason. failed_message oid reason \<in> stock_messages (mk_stock s))"
    using assms(4,6) by (auto simp: stock_told_def)
  have ord': "ID ord' = oid" "Status ord' = new" using assms(8,9) by (auto simp: go_simps split: if_splits)
  have "primary_key (os_db (mk_orders s))" using reachable_invs [OF assms(2)] by (simp add: order_inv_def)
  note before = confirmed_before_result [OF assms(12) this]
  have keeps: "stored_order (os_db (mk_orders s)) k = Some (st, v)
      \<or> st = StatusConfirmed \<and> reserved_message k \<in> stock_messages (mk_stock s)
      \<or> st = StatusCancelled \<and> (\<exists>reason. failed_message k reason \<in> stock_messages (mk_stock s))"
    if "stored_order db' k = Some (st, v)" for k st v
    using before [OF that] asked ord' by auto
  then show ?thesis
    using market_inv_orders [OF assms(1) order_sys_step.write_status [OF assms(7,9-12)] assms(2) _ assms(3)] by simp
qed

lemma market_step_inv:
  assumes "market_step s s'" and "market_inv s" and "order_sys_reachable (mk_orders s)" and "inv_sys_reachable stock0 (mk_stock s)"
    and "stock_ok (iv_db (inv_sys_init stock0))"
  shows "market_inv s'"
  using assms(1-4)
proof (induction rule: market_step.induct)
  case (new_order oid cust items t ord payload rid s f now r db')
  note inv = reachable_inv_inv [OF new_order.prems(3) assms(5)]
  have "Status ord = StatusCreated" using new_order.hyps(1) by (rule NewOrder_fields)
  from confirmed_before_saved [OF new_order.hyps(4) this]
  show ?case
    using market_inv_orders [OF new_order.prems(1) order_sys_step.create_order [OF new_order.hyps] new_order.prems(2) _ inv]
    by auto
next
  case (take_order f oid s ord)
  note inv = reachable_inv_inv [OF take_order.prems(3) assms(5)]
  show ?case
    using market_inv_orders [OF take_order.prems(1) order_sys_step.read_order [OF take_order.hyps] take_order.prems(2) _ inv]
    by simp
next
  case (apply_result m s oid new reason ord t ord' ty payload rid f tm r db')
  show ?case
    by (rule market_inv_result [OF apply_result.prems(1,2) reachable_inv_inv [OF apply_result.prems(3) assms(5)]
        reachable_stock_told [OF apply_result.prems(3) assms(5)] apply_result.hyps])
next
  case (order_tick f fq locked pub tm batch s gauge r db' log' gauge')
  note inv = reachable_inv_inv [OF order_tick.prems(3) assms(5)]
  show ?case
    using market_inv_orders [OF order_tick.prems(1) order_sys_step.worker_tick [OF order_tick.hyps] order_tick.prems(2) _ inv]
      confirmed_before_tick [OF order_tick.hyps] by auto
next
  case (reserve_stock m s event old rid f now r db')
  note inv = reachable_inv_inv [OF reserve_stock.prems(3) assms(5)]
  have m: "m \<in> order_messages (mk_orders s)" "order_message_ok (os_db (mk_orders s)) m"
    using reachable_orders_told [OF reserve_stock.prems(2)] reserve_stock.hyps(1) by (auto simp: orders_told_def)
  note event = created_order_ok [OF m(2) reserve_stock.hyps(2)]
  have "has_key or_id (ic_OrderID event) (orders (os_db (mk_orders s)))"
    using order_messages_have_orders [OF reserve_stock.prems(2) m(1)] event by simp
  with event show ?case
    by (intro market_inv_stock [OF reserve_stock.prems(1) inv_sys_step.reserve_order [OF reserve_stock.hyps(3-7)] inv
        reachable_stock_told [OF reserve_stock.prems(3) assms(5)]]) auto
next
  case (refuse_stock m s event rid f now reason r db')
  note inv = reachable_inv_inv [OF refuse_stock.prems(3) assms(5)]
  show ?case
    by (rule market_inv_stock [OF refuse_stock.prems(1) inv_sys_step.record_failure [OF refuse_stock.hyps(3,4)] inv
        reachable_stock_told [OF refuse_stock.prems(3) assms(5)], where new = "[]"]) simp_all
next
  case (stock_tick f locked pub tm batch s r db' log')
  note inv = reachable_inv_inv [OF stock_tick.prems(3) assms(5)]
  show ?case
    by (rule market_inv_stock [OF stock_tick.prems(1) inv_sys_step.worker_tick [OF stock_tick.hyps] inv
        reachable_stock_told [OF stock_tick.prems(3) assms(5)], where new = "[]"]) simp_all
next
  case (notify_customer m s f counts r st' counts')
  with told_truly_notify [OF _ reachable_orders_told [OF notify_customer.prems(2)] notify_customer.hyps]
  show ?case by (auto simp: market_inv_def)
qed

lemma reachable_market_inv:
  assumes "market_reachable stock0 s" and "stock_ok (iv_db (inv_sys_init stock0))"
  shows "market_inv s"
  using assms(1)
proof (induction rule: market_reachable.induct)
  case init
  show ?case
    by (simp add: market_inv_def market_init_def agreement_def told_truly_def inv_sys_init_def order_sys_init_def
        empty_order_db_def stored_order_def empty_notif_state_def)
next
  case (step s s')
  show ?case
    by (rule market_step_inv [OF step.hyps(2) step.IH market_orders_reachable [OF step.hyps(1)]
        market_stock_reachable [OF step.hyps(1)] assms(2)])
qed

section \<open>Why an order was cancelled\<close>

text \<open>Each announced cancellation carries the reason of a refusal of that order.\<close>

definition reasons_given :: "order_sys \<Rightarrow> inv_sys \<Rightarrow> bool" where
  "reasons_given os iv \<longleftrightarrow> (\<forall>m \<in> order_messages os. msg_topic m = EventTypeOrderCancelled \<longrightarrow>
     (\<exists>reason. m = event_message (msg_key m) (final_event (msg_key m) StatusCancelled reason)
        \<and> failed_message (msg_key m) reason \<in> stock_messages iv))"

lemma reasons_given_new:
  assumes "reasons_given os iv" and "order_messages os' \<subseteq> insert m (order_messages os)"
    and "msg_topic m = EventTypeOrderCancelled \<Longrightarrow>
      \<exists>reason. m = event_message (msg_key m) (final_event (msg_key m) StatusCancelled reason)
        \<and> failed_message (msg_key m) reason \<in> stock_messages iv"
  shows "reasons_given os' iv"
  using assms unfolding reasons_given_def by blast

lemma reasons_given_same:
  "reasons_given os iv \<Longrightarrow> order_messages os' \<subseteq> order_messages os \<Longrightarrow> stock_messages iv \<subseteq> stock_messages iv' \<Longrightarrow>
   reasons_given os' iv'"
  unfolding reasons_given_def by blast

lemma order_tick_messages:
  assumes "order_processBatch f fq locked pub tm batch (os_db os) log gauge = (r, db', log', gauge')"
  shows "order_messages (os\<lparr>os_db := db', os_log := log'\<rparr>) = order_messages os"
  using ow.tick_rows [OF processBatch_tick [OF assms]] unfolding order_messages_def by (simp flip: set_map)

lemma market_step_reasons:
  assumes "market_step s s'" and "reasons_given (mk_orders s) (mk_stock s)" and "inv_sys_reachable stock0 (mk_stock s)"
    and "stock_ok (iv_db (inv_sys_init stock0))"
  shows "reasons_given (mk_orders s') (mk_stock s')"
proof -
  note told = reachable_stock_told [OF assms(3,4)]
  have stock: "stock_messages (mk_stock s) \<subseteq> stock_messages (mk_stock s')"
    using market_step_stock [OF assms(1)] stock_step_told [OF _ reachable_inv_inv [OF assms(3,4)] told] by auto
  show ?thesis
    using assms(1)
  proof cases
    case (new_order oid cust items t ord payload rid f now r db')
    have "order_messages ((mk_orders s)\<lparr>os_db := db'\<rparr>)
        \<subseteq> insert (event_message (ID ord) (EventTypeOrderCreated, payload)) (order_messages (mk_orders s))"
      using new_order(5) by (cases rule: SaveWithEvent_cases) (auto simp: order_messages_def saved_def row_message_new)
    from reasons_given_new [OF assms(2) this] new_order(1) show ?thesis by simp
  next
    case (take_order f oid ord)
    with assms(2) show ?thesis by (simp add: reasons_given_def order_messages_def)
  next
    case (apply_result m oid new reason ord t ord' ty payload rid f tm r db')
    have "ID ord' = oid" using apply_result(5,6) by (auto simp: go_simps split: if_splits)
    have asked: "new = StatusConfirmed \<or> new = StatusCancelled" using buildStatusEvent_Inr [OF apply_result(7)] by auto
    then have ev: "(ty, payload) = final_event oid new reason"
      using apply_result(7) buildStatusEvent_final [OF asked, of ord' reason] \<open>ID ord' = oid\<close> by simp
    have "m \<in> stock_messages (mk_stock s)" using told apply_result(2) by (auto simp: stock_told_def)
    then have "failed_message oid reason \<in> stock_messages (mk_stock s)" if "new = StatusCancelled"
      using told apply_result(3) that by (auto simp: stock_told_def)
    moreover have "order_messages ((mk_orders s)\<lparr>os_db := db'\<rparr>)
        \<subseteq> insert (event_message oid (final_event oid new reason)) (order_messages (mk_orders s))"
      using apply_result(9) \<open>ID ord' = oid\<close> ev [symmetric]
      by (cases rule: UpdateStatusWithEvent_cases) (auto simp: order_messages_def status_updated_def row_message_new)
    ultimately have "reasons_given ((mk_orders s)\<lparr>os_db := db'\<rparr>) (mk_stock s)"
      by (intro reasons_given_new [OF assms(2)]) (use asked in \<open>auto\<close>)
    then show ?thesis by (simp add: apply_result(1))
  next
    case (order_tick f fq locked pub tm batch gauge r db' log' gauge')
    show ?thesis
      using reasons_given_same [OF assms(2) _ stock] order_tick_messages [OF order_tick(2)] by (simp add: order_tick(1))
  qed (use reasons_given_same [OF assms(2) _ stock] in simp_all)
qed

lemma reachable_reasons_given:
  assumes "market_reachable stock0 s" and "stock_ok (iv_db (inv_sys_init stock0))"
  shows "reasons_given (mk_orders s) (mk_stock s)"
  using assms(1)
proof (induction rule: market_reachable.induct)
  case init
  show ?case by (simp add: reasons_given_def order_messages_def market_init_def order_sys_init_def empty_order_db_def)
next
  case (step s s')
  show ?case
    by (rule market_step_reasons [OF step.hyps(2) step.IH market_stock_reachable [OF step.hyps(1)] assms(2)])
qed

section \<open>A run of the joint system\<close>

lemmas order_run = order_processBatch_def process_batch_def
  fetch_pending_def pending_batch_def pending_def saved_def empty_order_db_def new_outbox_row_def
  outbox_record_def Publish_def order_worker_body_def markSentTx_def transitionToAwaitingStockTx_def
  stored_order_def find_row_update_where find_row_Cons mark_sent_def update_where_def updateBacklogMetric_def

definition sample_confirmed :: Order where
  "sample_confirmed = (row_to_order (set_status StatusAwaitingStock sample_time (order_to_row sample_order)) sample_items)
     \<lparr>Status := StatusConfirmed, UpdatedAt := sample_time\<rparr>"

definition sample_log :: "message list" where
  "sample_log = [event_message ''o1'' (EventTypeOrderCreated, sample_payload)]"

lemma sample_publishes:
  "order_processBatch no_faults None (\<lambda>_. False) (\<lambda>_. Acked) (\<lambda>_. sample_time) 10 (os_db sample_created) [] 0
   = (None, os_db sample_published, sample_log, 0)"
  by (simp add: sample_published_def sample_created_def order_run sample_order_def sample_log_def event_message_def)

lemma sample_read:
  "GetByID no_faults ''o1'' (os_db sample_published)
   = Inr (row_to_order (set_status StatusAwaitingStock sample_time (order_to_row sample_order)) sample_items)"
  by (simp add: GetByID_no_faults sample_published_def sample_created_def order_run sample_order_def items_of_def
      item_to_row_def sample_items_def row_to_item_def order_to_row_def set_status_def)

lemma sample_transition:
  "TransitionTo (row_to_order (set_status StatusAwaitingStock sample_time (order_to_row sample_order)) sample_items)
     StatusConfirmed sample_time = Inr sample_confirmed" "ID sample_confirmed = ''o1''" "Status sample_confirmed = StatusConfirmed"
  by (simp_all add: go_simps sample_confirmed_def set_status_def row_to_order_def order_to_row_def sample_order_def)

lemma sample_update:
  "\<exists>db'. UpdateStatusWithEvent no_faults ''r2'' (\<lambda>_. sample_time) sample_confirmed EventTypeOrderConfirmed
      (marshal_OrderConfirmedEvent \<lparr>ofe_OrderID = ''o1''\<rparr>) (os_db sample_published) = (None, db')
    \<and> stored_order db' ''o1'' = Some (StatusConfirmed, 3)
    \<and> (\<exists>db'' . order_processBatch no_faults None (\<lambda>_. False) (\<lambda>_. Acked) (\<lambda>_. sample_time) 10 db' sample_log 0
         = (None, db'', sample_log @ [event_message ''o1'' (final_event ''o1'' StatusConfirmed [])], 0)
         \<and> stored_order db'' ''o1'' = Some (StatusConfirmed, 3))"
  by (simp add: UpdateStatusWithEvent_no_faults sample_published_def sample_created_def order_run
     sample_confirmed_def sample_order_def row_to_order_def order_to_row_def set_status_def status_updated_def locked_row_def
      event_message_def rows_affected_def)

definition sample_reserved_db :: inv_db where
  "sample_reserved_db = reserved_db ''r5'' sample_time ''o1'' (ordered_items sample_order) saga_stock"

lemma saga_stock_fits: "inv_outbox saga_stock = []" "stock_ok saga_stock" "fits (ordered_items sample_order) saga_stock" "processed saga_stock = []"
  "inv_sys_init (stock saga_stock) = \<lparr>iv_db = saga_stock, iv_past = [], iv_log = [], iv_ledger = []\<rparr>"
  by (simp_all add: saga_stock_def stock_ok_def quantity_column_def int4_range_def fits_def inv_sys_init_def
      ordered_items_def sample_order_def sample_items_def ordered_def has_key_def)

lemma sample_reserves:
  "ReserveAll no_faults (\<lambda>_. saga_stock) ''r5'' sample_time ''o1'' (ordered_items sample_order) saga_stock
   = Returns (None, sample_reserved_db)"
  using ReserveAll_fits [OF saga_stock_fits(2,3), of "''o1''" "''r5''" sample_time] saga_stock_fits(4)
  by (simp add: ReserveAll_def sample_reserved_db_def)

lemma sample_stock_answers:
  "\<exists>db'. inv_processBatch no_faults (\<lambda>_. False) (\<lambda>_. Acked) (\<lambda>_. sample_time) 10 sample_reserved_db []
     = (None, db', [reserved_message ''o1''])"
proof -
  have "map row_message (pending_batch (\<lambda>_. False) 10 (inv_outbox sample_reserved_db)) = [reserved_message ''o1'']"
    by (simp add: sample_reserved_db_def reserved_db_def saga_stock_def pending_batch_def pending_def row_message_new
        answer_messages)
  then show ?thesis
    using iwr.tick_no_faults [where pub = "\<lambda>_. Acked" and locked = "\<lambda>_. False" and batch = 10 and db = sample_reserved_db
        and log = "[]" and tm = "\<lambda>_. sample_time"]
    by (auto simp: inv_processBatch_def)
qed

lemma sample_created_seen:
  "created_order (event_message ''o1'' (EventTypeOrderCreated, sample_payload)) = Some (created_seen (created_event sample_order))"
  using created_inv.decodes [OF marshal_sample] by (simp add: created_order_def)

text \<open>A run of all services: created, announced, reserved and answered, then confirmed and told.\<close>

lemma sample_market_answered:
  "\<exists>idb past ledger. market_reachable (stock saga_stock)
     \<lparr>mk_orders = \<lparr>os_db = os_db sample_published, os_reads = [], os_log = sample_log\<rparr>,
      mk_stock = \<lparr>iv_db = idb, iv_past = past, iv_log = [reserved_message ''o1''], iv_ledger = ledger\<rparr>,
      mk_notif = empty_notif_state\<rparr>"
proof -
  let ?m = "event_message ''o1'' (EventTypeOrderCreated, sample_payload)"
  let ?s0 = "market_init (stock saga_stock)"
  let ?s1 = "?s0\<lparr>mk_orders := sample_created\<rparr>"
  have s1: "market_reachable (stock saga_stock) ?s1"
    using market_step.new_order [OF NewOrder_sample marshal_sample, of "''r1''" ?s0 no_faults sample_time None
        "saved ''r1'' sample_time sample_order EventTypeOrderCreated sample_payload empty_order_db"] save_sample
    by (intro market_reachable.step [OF market_reachable.init])
      (simp add: market_init_def order_sys_init_def sample_created_def empty_order_db_def)
  let ?s2 = "?s1\<lparr>mk_orders := \<lparr>os_db = os_db sample_published, os_reads = [], os_log = sample_log\<rparr>\<rparr>"
  have s2: "market_reachable (stock saga_stock) ?s2"
    using market_step.order_tick [of no_faults None "\<lambda>_. False" "\<lambda>_. Acked" "\<lambda>_. sample_time" 10 ?s1 0] sample_publishes
    by (intro market_reachable.step [OF s1]) (simp add: sample_created_def)
  have iv: "mk_stock ?s2 = \<lparr>iv_db = saga_stock, iv_past = [], iv_log = [], iv_ledger = []\<rparr>"
    by (simp add: market_init_def saga_stock_fits)
  let ?s3 = "?s2\<lparr>mk_stock := \<lparr>iv_db = sample_reserved_db, iv_past = [saga_stock], iv_log = [],
    iv_ledger = [(''o1'', ordered_items sample_order)]\<rparr>\<rparr>"
  have ev: "ic_OrderID (created_seen (created_event sample_order)) = ''o1''"
    by (simp add: created_seen_def created_event_def sample_order_def)
  have new: "sample_reserved_db \<noteq> saga_stock" by (simp add: sample_reserved_db_def reserved_db_def saga_stock_def)
  have s3: "market_reachable (stock saga_stock) ?s3"
    using market_step.reserve_stock [of ?m ?s2 _ saga_stock "''r5''" no_faults sample_time None sample_reserved_db,
        OF _ sample_created_seen] sample_reserves new ev
    by (intro market_reachable.step [OF s2])
      (simp add: market_init_def saga_stock_fits sample_log_def reservation_items_created)
  obtain idb where idb: "inv_processBatch no_faults (\<lambda>_. False) (\<lambda>_. Acked) (\<lambda>_. sample_time) 10 sample_reserved_db []
     = (None, idb, [reserved_message ''o1''])" using sample_stock_answers by blast
  let ?s4 = "?s3\<lparr>mk_stock := \<lparr>iv_db = idb, iv_past = [sample_reserved_db, saga_stock], iv_log = [reserved_message ''o1''],
    iv_ledger = [(''o1'', ordered_items sample_order)]\<rparr>\<rparr>"
  have s4: "market_reachable (stock saga_stock) ?s4"
    using market_step.stock_tick [of no_faults "\<lambda>_. False" "\<lambda>_. Acked" "\<lambda>_. sample_time" 10 ?s3] idb
    by (intro market_reachable.step [OF s3]) simp
  moreover have "?s4 = \<lparr>mk_orders = \<lparr>os_db = os_db sample_published, os_reads = [], os_log = sample_log\<rparr>,
      mk_stock = mk_stock ?s4, mk_notif = empty_notif_state\<rparr>" by (simp add: market_init_def)
  ultimately show ?thesis by auto
qed

lemma sample_market:
  "\<exists>s. market_reachable (stock saga_stock) s
     \<and> stored_order (os_db (mk_orders s)) ''o1'' = Some (StatusConfirmed, 3)
     \<and> sent_lines (mk_notif s) = [\<lparr>nl_order = ''o1'', nl_event = EventTypeOrderConfirmed,
          nl_text = BuildMessage EventTypeOrderConfirmed ''o1'' []\<rparr>]"
proof -
  let ?ord = "row_to_order (set_status StatusAwaitingStock sample_time (order_to_row sample_order)) sample_items"
  let ?fin = "final_event ''o1'' StatusConfirmed []"
  obtain idb past ledger where s4: "market_reachable (stock saga_stock)
     \<lparr>mk_orders = \<lparr>os_db = os_db sample_published, os_reads = [], os_log = sample_log\<rparr>,
      mk_stock = \<lparr>iv_db = idb, iv_past = past, iv_log = [reserved_message ''o1''], iv_ledger = ledger\<rparr>,
      mk_notif = empty_notif_state\<rparr>" (is "market_reachable _ ?s4")
    using sample_market_answered by blast
  let ?s5 = "?s4\<lparr>mk_orders := \<lparr>os_db = os_db sample_published, os_reads = [?ord], os_log = sample_log\<rparr>\<rparr>"
  have s5: "market_reachable (stock saga_stock) ?s5"
    using market_step.take_order [of no_faults "''o1''" ?s4 ?ord] sample_read
    by (intro market_reachable.step [OF s4]) simp
  obtain odb odb' where odb: "UpdateStatusWithEvent no_faults ''r2'' (\<lambda>_. sample_time) sample_confirmed (fst ?fin) (snd ?fin)
      (os_db sample_published) = (None, odb)"
    and tick: "order_processBatch no_faults None (\<lambda>_. False) (\<lambda>_. Acked) (\<lambda>_. sample_time) 10 odb sample_log 0
         = (None, odb', sample_log @ [event_message ''o1'' ?fin], 0)"
    and conf: "stored_order odb' ''o1'' = Some (StatusConfirmed, 3)"
    using sample_update by auto
  let ?s6 = "?s5\<lparr>mk_orders := \<lparr>os_db = odb, os_reads = [?ord], os_log = sample_log\<rparr>\<rparr>"
  have build: "buildStatusEvent sample_confirmed StatusConfirmed [] = Inr (fst ?fin, snd ?fin)"
    using buildStatusEvent_final [of StatusConfirmed sample_confirmed "[]"] sample_transition(2) by simp
  have fresh: "''r2'' \<notin> set (map ob_id (order_outbox (os_db (mk_orders ?s5))))"
    by (simp add: sample_published_def sample_created_def order_run sample_order_def)
  have "ID ?ord = ''o1''" by (simp add: row_to_order_def set_status_def order_to_row_def sample_order_def)
  then have s6: "market_reachable (stock saga_stock) ?s6"
    using market_step.apply_result [of "reserved_message ''o1''" ?s5 "''o1''" StatusConfirmed "[]" ?ord, OF _ _ _ _
        sample_transition(1) build fresh, of no_faults "\<lambda>_. sample_time" None odb] odb
    by (intro market_reachable.step [OF s5]) simp
  let ?s7 = "?s6\<lparr>mk_orders := \<lparr>os_db = odb', os_reads = [?ord], os_log = sample_log @ [event_message ''o1'' ?fin]\<rparr>\<rparr>"
  have s7: "market_reachable (stock saga_stock) ?s7"
    using market_step.order_tick [of no_faults None "\<lambda>_. False" "\<lambda>_. Acked" "\<lambda>_. sample_time" 10 ?s6 0] tick
    by (intro market_reachable.step [OF s6]) simp
  have "(''o1'', fst ?fin) \<notin> set (inbox empty_notif_state)" by (simp add: empty_notif_state_def)
  from customer_told [OF _ this, of "\<lambda>_. 0"] obtain nt counts where
    told: "notif_handleMessage (Notify (MarkProcessedAndNotify no_faults)) (fst ?fin) (event_message ''o1'' ?fin)
        (empty_notif_state, \<lambda>_. 0) = (None, nt, counts)"
      "sent_lines nt = sent_lines empty_notif_state
        @ [\<lparr>nl_order = ''o1'', nl_event = fst ?fin, nl_text = BuildMessage (fst ?fin) ''o1'' []\<rparr>]"
    by auto
  have "market_step ?s7 (?s7\<lparr>mk_notif := nt\<rparr>)"
    using told(1) by (intro market_step.notify_customer [of "event_message ''o1'' ?fin"]) simp_all
  from market_reachable.step [OF s7 this] conf told(2) show ?thesis
    by (intro exI [of _ "?s7\<lparr>mk_notif := nt\<rparr>"]) (simp add: empty_notif_state_def)
qed

section \<open>Guarantees of the joint system\<close>

lemma stored_order_key: "stored_order db oid = Some (st, v) \<Longrightarrow> has_key or_id oid (orders db)"
  using find_row_Some by (fastforce simp: stored_order_def has_key_def)

lemma stored_order_row:
  assumes "primary_key db" and "r \<in> set (orders db)"
  shows "stored_order db (or_id r) = Some (or_status r, or_version r)"
  using find_row_distinct [OF assms(1) [unfolded primary_key_def], of "or_id r" r] assms(2) by (simp add: stored_order_def)

text \<open>What the confirmed orders together ask of a SKU.\<close>

definition confirmed_total :: "order_db \<Rightarrow> string \<Rightarrow> int" where
  "confirmed_total db sku =
     (\<Sum>r\<leftarrow>filter (\<lambda>r. or_status r = StatusConfirmed) (orders db). ordered (order_lines (or_id r) db) sku)"

lemma confirmed_in_ledger:
  assumes "agreement os iv" and "stored_order (os_db os) oid = Some (StatusConfirmed, v)"
  shows "(oid, order_lines oid (os_db os)) \<in> set (iv_ledger iv)"
  using assms unfolding agreement_def by fastforce

lemma sum_list_sub:
  fixes g :: "'a \<Rightarrow> int"
  assumes "distinct xs" and "set xs \<subseteq> set ys" and "distinct ys" and "\<forall>y \<in> set ys. 0 \<le> g y"
  shows "sum_list (map g xs) \<le> sum_list (map g ys)"
proof -
  have "sum g (set xs) \<le> sum g (set ys)" by (rule sum_mono2) (use assms in auto)
  with assms(1,3) show ?thesis by (simp add: sum_list_distinct_conv_sum_set)
qed

lemma confirmed_total_le:
  assumes "agreement os iv" and "primary_key (os_db os)" and "inv_inv stock0 iv"
  shows "confirmed_total (os_db os) sku \<le> ledger_total (iv_ledger iv) sku"
proof -
  let ?conf = "filter (\<lambda>r. or_status r = StatusConfirmed) (orders (os_db os))"
  let ?entry = "\<lambda>r. (or_id r, order_lines (or_id r) (os_db os))"
  let ?asks = "\<lambda>(oid, items). ordered items sku"
  have "distinct (map or_id ?conf)" using assms(2) by (simp add: primary_key_def distinct_map_filter)
  then have "distinct (map ?entry ?conf)" by (auto simp: distinct_map inj_on_def)
  moreover have "set (map ?entry ?conf) \<subseteq> set (iv_ledger iv)"
  proof
    fix x assume "x \<in> set (map ?entry ?conf)"
    then obtain r where r: "x = ?entry r" "r \<in> set (orders (os_db os))" "or_status r = StatusConfirmed" by auto
    from stored_order_row [OF assms(2) r(2)] r(3) confirmed_in_ledger [OF assms(1)] r(1)
    show "x \<in> set (iv_ledger iv)" by simp
  qed
  moreover have "distinct (iv_ledger iv)" using assms(3) by (simp add: inv_inv_def distinct_map)
  moreover have "\<forall>x \<in> set (iv_ledger iv). 0 \<le> ?asks x"
  proof
    fix x assume "x \<in> set (iv_ledger iv)"
    moreover obtain oid items where "x = (oid, items)" by fastforce
    ultimately have "\<forall>it \<in> set items. 0 < sint (ri_Qty it)" using assms(3) unfolding inv_inv_def by fast
    then show "0 \<le> ?asks x" by (simp add: \<open>x = (oid, items)\<close> ordered_nonneg)
  qed
  ultimately have "sum_list (map ?asks (map ?entry ?conf)) \<le> sum_list (map ?asks (iv_ledger iv))"
    by (rule sum_list_sub)
  then show ?thesis by (simp add: confirmed_total_def ledger_total_def o_def)
qed

text \<open>A final event is there only for an order in that status.\<close>

lemma final_message_status:
  assumes "order_inv db" and "m \<in> row_message ` set (order_outbox db)"
    and "msg_topic m = EventTypeOrderConfirmed \<and> st = StatusConfirmed \<or> msg_topic m = EventTypeOrderCancelled \<and> st = StatusCancelled"
  shows "\<exists>v. stored_order db (msg_key m) = Some (st, v)"
proof -
  obtain e where e: "e \<in> set (order_outbox db)" "m = row_message e" using assms(2) by blast
  then obtain r where r: "r \<in> set (orders db)" "or_id r = msg_key m"
    using assms(1) by (auto simp: order_inv_def has_key_def row_message_def)
  have "e \<in> set (box_events (or_id r) (msg_topic m) (order_outbox db))"
    using e r by (simp add: box_events_def row_message_def)
  then have "length (box_events (or_id r) (msg_topic m) (order_outbox db)) \<noteq> 0" by auto
  moreover have "row_inv (order_outbox db) r" using assms(1) r by (simp add: order_inv_def)
  ultimately have "or_status r = st" using assms(3) by (auto simp: row_inv_def split: if_splits)
  with stored_order_row [of db r] assms(1) r show ?thesis by (simp add: order_inv_def)
qed

text \<open>
  The services agree. In every state the marketplace can reach, with any
  failures, interleavings and redeliveries: an order that order-service calls confirmed is reserved
  in inventory-service with exactly the lines order-service has stored, an order it calls cancelled
  was refused by inventory-service, and nothing is reserved but the lines of a stored order.
\<close>

theorem services_agree:
  assumes "market_reachable stock0 s" and "stock_ok (iv_db (inv_sys_init stock0))"
  shows "(\<forall>oid v. stored_order (os_db (mk_orders s)) oid = Some (StatusConfirmed, v)
          \<longrightarrow> (oid, order_lines oid (os_db (mk_orders s))) \<in> set (iv_ledger (mk_stock s)))
    \<and> (\<forall>oid v. stored_order (os_db (mk_orders s)) oid = Some (StatusCancelled, v)
          \<longrightarrow> (\<exists>reason. failed_message oid reason \<in> stock_messages (mk_stock s)))
    \<and> (\<forall>(oid, items) \<in> set (iv_ledger (mk_stock s)). has_key or_id oid (orders (os_db (mk_orders s)))
          \<and> items = order_lines oid (os_db (mk_orders s)))"
proof -
  have "agreement (mk_orders s) (mk_stock s)" using reachable_market_inv [OF assms] by (simp add: market_inv_def)
  then show ?thesis using confirmed_in_ledger [of "mk_orders s" "mk_stock s"] unfolding agreement_def by blast
qed

theorem services_agree_witness:
  "\<exists>s. market_reachable (stock saga_stock) s \<and> stored_order (os_db (mk_orders s)) ''o1'' = Some (StatusConfirmed, 3)
     \<and> (''o1'', order_lines ''o1'' (os_db (mk_orders s))) \<in> set (iv_ledger (mk_stock s))"
proof -
  obtain s where s: "market_reachable (stock saga_stock) s" "stored_order (os_db (mk_orders s)) ''o1'' = Some (StatusConfirmed, 3)"
    using sample_market by blast
  with services_agree [OF s(1)] show ?thesis by (auto simp: saga_stock_fits)
qed

text \<open>
  Property C3 (bounds). The confirmed orders of order-service together ask for no more of any SKU
  than inventory-service had available at the start, although neither service sees the other's
  tables.
\<close>

theorem confirmed_orders_covered:
  assumes "market_reachable stock0 s" and "stock_ok (iv_db (inv_sys_init stock0))" and "r0 \<in> set stock0"
  shows "confirmed_total (os_db (mk_orders s)) (sr_sku r0) \<le> sr_available r0"
proof -
  note iv = market_stock_reachable [OF assms(1)]
  have inv: "inv_inv stock0 (mk_stock s)" using reachable_inv_inv [OF iv assms(2)] .
  have "primary_key (os_db (mk_orders s))"
    using reachable_invs [OF market_orders_reachable [OF assms(1)]] by (simp add: order_inv_def)
  with reachable_market_inv [OF assms(1,2)] inv
  have "confirmed_total (os_db (mk_orders s)) (sr_sku r0) \<le> ledger_total (iv_ledger (mk_stock s)) (sr_sku r0)"
    by (intro confirmed_total_le) (simp_all add: market_inv_def)
  also have "\<dots> \<le> sr_available r0" using ledger_covered [OF inv assms(3)] .
  finally show ?thesis .
qed

theorem confirmed_orders_covered_witness:
  "\<exists>s. market_reachable (stock saga_stock) s \<and> stored_order (os_db (mk_orders s)) ''o1'' = Some (StatusConfirmed, 3)
     \<and> confirmed_total (os_db (mk_orders s)) ''s1'' \<le> 5"
proof -
  obtain s where s: "market_reachable (stock saga_stock) s" "stored_order (os_db (mk_orders s)) ''o1'' = Some (StatusConfirmed, 3)"
    using sample_market by blast
  with confirmed_orders_covered [OF s(1), of "hd (stock saga_stock)"] show ?thesis
    by (auto simp: saga_stock_fits(2,5)) (auto simp: saga_stock_def)
qed

text \<open>
  Property C4 (safety). Customers are told the truth: whatever notification-service has sent is
  the text of an event about an order that order-service has stored; who was told that an order is
  confirmed has an order that is confirmed and whose lines are reserved; who was told that it is
  cancelled has a cancelled order, and the reason in the text is one that inventory-service gave for
  refusing that order.
\<close>

theorem customers_told_truth:
  assumes "market_reachable stock0 s" and "stock_ok (iv_db (inv_sys_init stock0))"
    and "l \<in> set (sent_lines (mk_notif s))"
  shows "has_key or_id (nl_order l) (orders (os_db (mk_orders s)))
    \<and> (\<exists>reason. nl_text l = BuildMessage (nl_event l) (nl_order l) reason
        \<and> (nl_event l = EventTypeOrderCancelled \<longrightarrow> failed_message (nl_order l) reason \<in> stock_messages (mk_stock s)))
    \<and> (nl_event l = EventTypeOrderConfirmed \<longrightarrow>
        (\<exists>v. stored_order (os_db (mk_orders s)) (nl_order l) = Some (StatusConfirmed, v))
        \<and> (nl_order l, order_lines (nl_order l) (os_db (mk_orders s))) \<in> set (iv_ledger (mk_stock s)))
    \<and> (nl_event l = EventTypeOrderCancelled \<longrightarrow>
        (\<exists>v. stored_order (os_db (mk_orders s)) (nl_order l) = Some (StatusCancelled, v)))"
proof -
  note os = market_orders_reachable [OF assms(1)]
  have inv: "order_inv (os_db (mk_orders s))" using reachable_invs [OF os] by blast
  have agr: "agreement (mk_orders s) (mk_stock s)" and told: "told_truly (mk_orders s) (mk_notif s)"
    using reachable_market_inv [OF assms(1,2)] by (simp_all add: market_inv_def)
  obtain m event where m: "m \<in> order_messages (mk_orders s)" "msg_topic m = nl_event l" "msg_key m = nl_order l"
    and event: "unmarshal fields_OrderEvent zero_OrderEvent (msg_value m) = Some event"
    and sent: "nl_text l = BuildMessage (nl_event l) (nl_order l) (oe_Reason event)"
    using told assms(3) unfolding told_truly_def line_told_def by blast
  have reason: "failed_message (nl_order l) (oe_Reason event) \<in> stock_messages (mk_stock s)"
    if cancelled: "nl_event l = EventTypeOrderCancelled"
  proof -
    obtain reason where r: "m = event_message (nl_order l) (final_event (nl_order l) StatusCancelled reason)"
      "failed_message (nl_order l) reason \<in> stock_messages (mk_stock s)"
      using reachable_reasons_given [OF assms(1,2)] m cancelled unfolding reasons_given_def by metis
    then show ?thesis using event cancelled_notif.decodes [OF refl, of "\<lparr>oxe_OrderID = nl_order l, oxe_Reason = reason\<rparr>"] by auto
  qed
  have final: "\<exists>v. stored_order (os_db (mk_orders s)) (nl_order l) = Some (st, v)"
    if "nl_event l = EventTypeOrderConfirmed \<and> st = StatusConfirmed \<or> nl_event l = EventTypeOrderCancelled \<and> st = StatusCancelled"
    for st
    using final_message_status [OF inv m(1) [unfolded order_messages_def], of st] m(2,3) that by simp
  show ?thesis
    using order_messages_have_orders [OF os m(1)] m(3) sent reason final confirmed_in_ledger [OF agr]
    by (intro conjI exI [of _ "oe_Reason event"]) auto
qed

theorem customers_told_truth_witness:
  "\<exists>s l v. market_reachable (stock saga_stock) s \<and> sent_lines (mk_notif s) = [l] \<and> nl_event l = EventTypeOrderConfirmed
     \<and> stored_order (os_db (mk_orders s)) (nl_order l) = Some (StatusConfirmed, v)"
proof -
  obtain s l where s: "market_reachable (stock saga_stock) s" "sent_lines (mk_notif s) = [l]"
    "nl_event l = EventTypeOrderConfirmed"
    using sample_market by fastforce
  from customers_told_truth [OF s(1), of l] s show ?thesis by (auto simp: saga_stock_fits)
qed

end
