(* ===== verification/Marketplace_Steps.thy ===== *)
theory Marketplace_Steps
  imports Marketplace
begin

text \<open>
  The handlers as paths of the joint system: each run of a use case or of a consumer's handler,
  with any failures and conflicts of its own and with any steps of the rest of the marketplace
  between its reads and writes, is a sequence of steps of \<open>market_step\<close>. So what is proved of
  every reachable state holds after every handler, and after every transaction inside it.
\<close>

section \<open>What only grows\<close>

definition market_grows :: "market \<Rightarrow> market \<Rightarrow> bool" where
  "market_grows s s' \<longleftrightarrow> set (os_reads (mk_orders s)) \<subseteq> set (os_reads (mk_orders s'))
     \<and> set (iv_log (mk_stock s)) \<subseteq> set (iv_log (mk_stock s'))
     \<and> set (os_log (mk_orders s)) \<subseteq> set (os_log (mk_orders s'))
     \<and> set (iv_db (mk_stock s) # iv_past (mk_stock s)) \<subseteq> set (iv_db (mk_stock s') # iv_past (mk_stock s'))"

lemma order_tick_log:
  assumes "order_processBatch f fq locked pub tm batch db log gauge = (r, db', log', gauge')"
  shows "set log \<subseteq> set log'"
  using processBatch_tick [OF assms] by (cases rule: ow.tick_cases) auto

lemma stock_tick_log:
  assumes "inv_processBatch f locked pub tm batch db log = (r, db', log')"
  shows "set log \<subseteq> set log'"
  using assms unfolding inv_processBatch_def by (cases rule: iw.tick_cases) auto

lemma market_step_grows: "market_step s s' \<Longrightarrow> market_grows s s'"
  by (induction rule: market_step.induct)
    (auto simp: market_grows_def dest: order_tick_log stock_tick_log)

lemma market_path_grows: "market_step\<^sup>*\<^sup>* s s' \<Longrightarrow> market_grows s s'"
proof (induction rule: rtranclp_induct)
  case (step s1 s2)
  then show ?case using market_step_grows [OF step.hyps(2)] unfolding market_grows_def by blast
qed (simp add: market_grows_def)

section \<open>A status update\<close>

text \<open>Databases that the marketplace can come to hold: order-service's, and inventory-service's.\<close>

definition order_path :: "market \<Rightarrow> order_db \<Rightarrow> bool" where
  "order_path s db \<longleftrightarrow> (\<exists>s'. market_step\<^sup>*\<^sup>* s s' \<and> os_db (mk_orders s') = db)"

definition stock_path :: "market \<Rightarrow> inv_db \<Rightarrow> bool" where
  "stock_path s db \<longleftrightarrow> (\<exists>s'. market_step\<^sup>*\<^sup>* s s' \<and> iv_db (mk_stock s') = db)"

lemma order_path_same: "order_path s (os_db (mk_orders s))"
  by (auto simp: order_path_def)

lemma stock_path_same: "stock_path s (iv_db (mk_stock s))"
  by (auto simp: stock_path_def)

lemma order_path_trans: "market_step\<^sup>*\<^sup>* s s1 \<Longrightarrow> order_path s1 db \<Longrightarrow> order_path s db"
  unfolding order_path_def using rtranclp_trans [of market_step s s1] by blast

lemma stock_path_trans: "market_step\<^sup>*\<^sup>* s s1 \<Longrightarrow> stock_path s1 db \<Longrightarrow> stock_path s db"
  unfolding stock_path_def using rtranclp_trans [of market_step s s1] by blast

lemma order_path_step: "market_step s s1 \<Longrightarrow> order_path s (os_db (mk_orders s1))"
  unfolding order_path_def by blast

lemma stock_path_step: "market_step s s1 \<Longrightarrow> stock_path s (iv_db (mk_stock s1))"
  unfolding stock_path_def by blast

text \<open>
  The other transactions during a call of \<open>UpdateOrderStatus\<close> that starts in the marketplace \<open>s\<close>:
  before the read and between the read and the write of every attempt that is made, some steps of this
  marketplace, from where the attempt has come to, lead to the database the attempt goes on with; and the
  UUID of the attempt's event is not in the outbox then. The second stretch starts after the read.
\<close>

definition reading :: "Order \<Rightarrow> market \<Rightarrow> market" where
  "reading ord s = s\<lparr>mk_orders := (mk_orders s)\<lparr>os_reads := ord # os_reads (mk_orders s)\<rparr>\<rparr>"

lemma reading_db [simp]: "os_db (mk_orders (reading ord s)) = os_db (mk_orders s)"
  and reading_log [simp]: "iv_log (mk_stock (reading ord s)) = iv_log (mk_stock s)"
  by (simp_all add: reading_def)

fun racing_steps :: "pg_attempts \<Rightarrow> string \<Rightarrow> nat \<Rightarrow> nat \<Rightarrow> market \<Rightarrow> bool" where
  "racing_steps at oid 0 attempt s \<longleftrightarrow> True"
| "racing_steps at oid (Suc left) attempt s \<longleftrightarrow>
     (\<exists>s1. market_step\<^sup>*\<^sup>* s s1 \<and> os_db (mk_orders s1) = at_before at attempt (os_db (mk_orders s))
        \<and> (\<forall>ord. GetByID (at_get at attempt) oid (os_db (mk_orders s1)) = Inr ord \<longrightarrow>
            (\<exists>s2. market_step\<^sup>*\<^sup>* (reading ord s1) s2
               \<and> os_db (mk_orders s2) = at_between at attempt (os_db (mk_orders s1))
               \<and> fst (snd (at_write at attempt)) \<notin> set (map ob_id (order_outbox (os_db (mk_orders s2))))
               \<and> racing_steps at oid left (Suc attempt) s2)))"

definition races :: "pg_attempts \<Rightarrow> message \<Rightarrow> market \<Rightarrow> bool" where
  "races at m s \<longleftrightarrow> (\<forall>oid new reason. stock_result m = Some (oid, new, reason) \<longrightarrow> racing_steps at oid maxRetries 0 s)"

text \<open>From the read of an attempt to its write: what was read and the message are still there.\<close>

lemma attempt_read:
  assumes "GetByID g oid (os_db (mk_orders s)) = Inr ord" and "market_step\<^sup>*\<^sup>* (reading ord s) s'"
    and "m \<in> set (iv_log (mk_stock s))"
  shows "market_step\<^sup>*\<^sup>* s s' \<and> ord \<in> set (os_reads (mk_orders s')) \<and> m \<in> set (iv_log (mk_stock s'))"
proof -
  have "market_step s (reading ord s)" using market_step.take_order [OF assms(1)] by (simp add: reading_def)
  moreover have "ord \<in> set (os_reads (mk_orders s'))" "m \<in> set (iv_log (mk_stock s'))"
    using market_path_grows [OF assms(2)] assms(3) by (auto simp: market_grows_def reading_def)
  ultimately show ?thesis using assms(2) by (auto intro: converse_rtranclp_into_rtranclp)
qed

lemma update_attempts_path:
  assumes "m \<in> set (iv_log (mk_stock s))" and "stock_result m = Some (oid, new, reason)"
    and "racing_steps at oid left attempt s"
    and "update_attempts GetByID pg_upd at oid new reason left attempt (os_db (mk_orders s)) = (r, db')"
  shows "order_path s db'"
  using assms
proof (induction left arbitrary: attempt s)
  case 0
  then show ?case using order_path_same by auto
next
  case (Suc left)
  obtain s1 where s1: "market_step\<^sup>*\<^sup>* s s1" "os_db (mk_orders s1) = at_before at attempt (os_db (mk_orders s))"
    and later: "\<And>ord. GetByID (at_get at attempt) oid (os_db (mk_orders s1)) = Inr ord \<Longrightarrow>
      \<exists>s2. market_step\<^sup>*\<^sup>* (reading ord s1) s2 \<and> os_db (mk_orders s2) = at_between at attempt (os_db (mk_orders s1))
        \<and> fst (snd (at_write at attempt)) \<notin> set (map ob_id (order_outbox (os_db (mk_orders s2))))
        \<and> racing_steps at oid left (Suc attempt) s2"
    using Suc.prems(3) unfolding racing_steps.simps by blast
  have m1: "m \<in> set (iv_log (mk_stock s1))" using market_path_grows [OF s1(1)] Suc.prems(1) by (auto simp: market_grows_def)
  consider (early) "db' = os_db (mk_orders s1)"
    | (written) ord ord' ty payload where "GetByID (at_get at attempt) oid (os_db (mk_orders s1)) = Inr ord"
        "TransitionTo ord new (at_now at attempt) = Inr ord'" "buildStatusEvent ord' new reason = Inr (ty, payload)"
    using Suc.prems(4) by (auto simp: s1(2) Let_def split: sum.splits)
  then show ?case
  proof cases
    case early
    then show ?thesis using order_path_trans [OF s1(1)] order_path_same by simp
  next
    case written
    obtain f rid tm where w: "at_write at attempt = (f, rid, tm)" by (metis prod.exhaust)
    obtain s3 where read: "market_step\<^sup>*\<^sup>* (reading ord s1) s3"
      and s3_db: "os_db (mk_orders s3) = at_between at attempt (os_db (mk_orders s1))"
      and fresh: "rid \<notin> set (map ob_id (order_outbox (os_db (mk_orders s3))))"
        "racing_steps at oid left (Suc attempt) s3"
      using later [OF written(1)] w by auto
    have s3: "market_step\<^sup>*\<^sup>* s1 s3" "os_db (mk_orders s3) = at_between at attempt (os_db (mk_orders s1))"
      "ord \<in> set (os_reads (mk_orders s3))" "m \<in> set (iv_log (mk_stock s3))"
      using attempt_read [OF written(1) read m1] s3_db by blast+
    obtain r1 db1 where pu: "pg_upd (f, rid, tm) ord' ty payload (os_db (mk_orders s3)) = (r1, db1)" by fastforce
    consider (conflict) e where "r1 = Some e" "errors_is e ErrOptimisticLock"
        "update_attempts GetByID pg_upd at oid new reason left (Suc attempt) db1 = (r, db')"
      | (settled) "db' = db1"
      using Suc.prems(4) by (cases r1) (auto simp: s1(2) [symmetric] s3(2) [symmetric] Let_def written w pu split: if_splits)
    then have "order_path s3 db'"
    proof cases
      case conflict
      then have "db1 = os_db (mk_orders s3)" using pg.upd_conflict [OF pu [unfolded conflict(1)]] by simp
      with conflict(3) Suc.IH [OF s3(4) Suc.prems(2) fresh(2)] show ?thesis by simp
    next
      case settled
      have "ID ord = oid" using pg.get_stored [OF written(1)] by simp
      from order_path_step [OF market_step.apply_result [OF s3(4) Suc.prems(2) s3(3) this written(2,3) fresh(1)
          pu [unfolded pg_upd_def prod.case]]]
      show ?thesis by (simp add: settled)
    qed
    with order_path_trans [OF s3(1)] order_path_trans [OF s1(1)] show ?thesis by blast
  qed
qed

section \<open>The handlers\<close>

lemma create_path:
  assumes "CreateOrder (pg_save (f, rid, tm)) uid now input (os_db (mk_orders s)) n = (r, db', n')"
    and "rid \<notin> set (map ob_id (order_outbox (os_db (mk_orders s))))"
  shows "order_path s db'"
proof -
  consider "db' = os_db (mk_orders s)"
    | ord payload r1 where "NewOrder uid (in_CustomerID input) (in_Items input) now = Inr ord"
      "marshal_OrderCreatedEvent (created_event ord) = Some payload"
      "SaveWithEvent f rid (tm 0) ord EventTypeOrderCreated payload (os_db (mk_orders s)) = (r1, db')"
    using assms(1) by (auto simp: CreateOrder_def pg_save_def split: sum.splits option.splits prod.splits)
  then show ?thesis
  proof cases
    case 1
    then show ?thesis using order_path_same by simp
  next
    case 2
    from order_path_step [OF market_step.new_order [OF 2(1,2) assms(2) 2(3)]] show ?thesis by simp
  qed
qed

lemma result_handler_path:
  assumes "m \<in> set (iv_log (mk_stock s))" and "msg_topic m \<in> {EventTypeStockReserved, EventTypeStockFailed}"
    and "races at m s"
    and "deliver_result (pg_update at) m (os_db (mk_orders s)) = (r, db')"
  shows "order_path s db'"
proof (cases "stock_result m")
  case None
  then have "db' = os_db (mk_orders s)" using assms(4) deliver_result_update [OF assms(2), of "pg_update at"] by simp
  then show ?thesis using order_path_same by simp
next
  case (Some upd)
  obtain oid new reason where upd: "upd = (oid, new, reason)" by (metis prod.exhaust)
  obtain r1 db1 where run: "pg_update at oid new reason (os_db (mk_orders s)) = (r1, db1)" by fastforce
  with assms(4) deliver_result_update [OF assms(2), of "pg_update at"] Some upd have "db' = db1"
    by (auto simp: swallow_def split: option.splits if_splits)
  moreover have "racing_steps at oid maxRetries 0 s" using assms(3) Some upd by (auto simp: races_def)
  from update_attempts_path [OF assms(1) Some [unfolded upd] this] run have "order_path s db1"
    unfolding pg_update_def UpdateOrderStatus_def by blast
  ultimately show ?thesis by simp
qed

text \<open>A reservation, with the transactions that commit before it has locked its rows.\<close>

lemma reserve_path:
  assumes "m \<in> set (os_log (mk_orders s))" and "created_order m = Some event"
    and "market_step\<^sup>*\<^sup>* s s1" and "iv_db (mk_stock s1) = meanwhile (iv_db (mk_stock s))"
    and "rid \<notin> set (map ob_id (inv_outbox (meanwhile (iv_db (mk_stock s)))))"
    and "ReserveAll f meanwhile rid now (ic_OrderID event) (reservation_items event) (iv_db (mk_stock s)) = Returns (r, db')"
  shows "stock_path s db'"
proof -
  have run: "ReserveAll f (\<lambda>_. iv_db (mk_stock s1)) rid now (ic_OrderID event) (reservation_items event) (iv_db (mk_stock s))
      = Returns (r, db')"
    using assms(6) by (simp add: ReserveAll_def assms(4))
  have past: "m \<in> set (os_log (mk_orders s1))" "iv_db (mk_stock s) \<in> set (iv_db (mk_stock s1) # iv_past (mk_stock s1))"
    using market_path_grows [OF assms(3)] assms(1) by (auto simp: market_grows_def)
  have fresh: "rid \<notin> set (map ob_id (inv_outbox (iv_db (mk_stock s1))))" using assms(5) by (simp add: assms(4))
  consider "db' = iv_db (mk_stock s)" | "db' = iv_db (mk_stock s1)"
    | "db' \<noteq> iv_db (mk_stock s)" "db' \<noteq> iv_db (mk_stock s1)" by blast
  then show ?thesis
  proof cases
    case 1
    then show ?thesis using stock_path_same by simp
  next
    case 2
    then show ?thesis using stock_path_trans [OF assms(3) stock_path_same] by simp
  next
    case 3
    from stock_path_step [OF market_step.reserve_stock [OF past(1) assms(2) past(2) fresh run 3]]
    have "stock_path s1 db'" by simp
    with assms(3) show ?thesis by (rule stock_path_trans)
  qed
qed

lemma refuse_path:
  assumes "m \<in> set (os_log (mk_orders s))" and "created_order m = Some event" and "market_step\<^sup>*\<^sup>* s s1"
    and "rid \<notin> set (map ob_id (inv_outbox (iv_db (mk_stock s1))))"
    and "RecordFailure f rid now (ic_OrderID event) reason (iv_db (mk_stock s1)) = (r, db')"
  shows "stock_path s db'"
proof -
  have "m \<in> set (os_log (mk_orders s1))" using market_path_grows [OF assms(3)] assms(1) by (auto simp: market_grows_def)
  from stock_path_step [OF market_step.refuse_stock [OF this assms(2,4,5)]] have "stock_path s1 db'" by simp
  with assms(3) show ?thesis by (rule stock_path_trans)
qed

lemma stock_handler_path:
  assumes "m \<in> set (os_log (mk_orders s))" and "msg_topic m = EventTypeOrderCreated"
    and "stock_ok (ie_meanwhile e (iv_db (mk_stock s)))"
    and "stock_path s (ie_meanwhile e (iv_db (mk_stock s)))"
    and "ie_rid e \<notin> set (map ob_id (inv_outbox (iv_db (mk_stock s))))"
    and "ie_rid e \<notin> set (map ob_id (inv_outbox (ie_meanwhile e (iv_db (mk_stock s)))))"
    and "pg_handleMessage e m (iv_db (mk_stock s), counts) = Returns (r, db', counts')"
  shows "stock_path s db'"
proof (cases "created_order m")
  case None
  then have "db' = iv_db (mk_stock s)"
    using assms(2,7) by (simp add: created_order_def pg_handleMessage_def inv_handleMessage_def)
  then show ?thesis using stock_path_same by simp
next
  case (Some event)
  let ?db = "iv_db (mk_stock s)"
  have event: "unmarshal fields_InvOrderCreatedEvent zero_InvOrderCreatedEvent (msg_value m) = Some event"
    using Some assms(2) by (simp add: created_order_def)
  obtain s1 where s1: "market_step\<^sup>*\<^sup>* s s1" "iv_db (mk_stock s1) = ie_meanwhile e ?db"
    using assms(4) unfolding stock_path_def by blast
  obtain r1 db1 where res: "pg_reserve e (ic_OrderID event) (reservation_items event) ?db = Returns (r1, db1)"
    unfolding pg_reserve_def using ReserveAll_no_panic by (metis call.exhaust prod.exhaust)
  consider (refused) err r2 where "r1 = Some err" "errors_is err ErrInsufficientStock \<or> errors_is err ErrStockNotFound"
      "RecordFailure (ie_record e) (ie_rid e) (ie_now e) (ic_OrderID event) (error_text inv_error_msg err) db1 = (r2, db')"
    | (reserved) "db' = db1"
    using assms(7) event res
    by (auto simp: pg_handleMessage_def inv_handleMessage_def ReserveStock_def pg_record_def
        split: option.splits if_splits prod.splits)
  then show ?thesis
  proof cases
    case refused
    have "db1 = ?db \<or> db1 = iv_db (mk_stock s1)"
      using res [unfolded pg_reserve_def] assms(3) unfolding s1(2)
      by (cases rule: ReserveAll_cases) (use refused(1,2) in auto)
    then show ?thesis
      using refuse_path [OF assms(1) Some rtranclp.rtrancl_refl assms(5)] refuse_path [OF assms(1) Some s1(1)]
        assms(6) refused(3) s1(2) by auto
  next
    case reserved
    with reserve_path [OF assms(1) Some s1 assms(6) res [unfolded pg_reserve_def]] show ?thesis by simp
  qed
qed

section \<open>Guarantees of the handlers\<close>

lemma market_path_reachable: "market_step\<^sup>*\<^sup>* s s' \<Longrightarrow> market_reachable stock0 s \<Longrightarrow> market_reachable stock0 s'"
  by (induction rule: rtranclp_induct) (auto intro: market_reachable.step)


section \<open>A race\<close>

text \<open>
  Two consumers of one result: between the read and the write of the first, the second has already
  written. The first meets the version conflict, reads again and finds the order settled.
\<close>

definition raced_attempts :: "order_db \<Rightarrow> string \<Rightarrow> pg_attempts" where
  "raced_attempts odb rid = (calm_attempts (\<lambda>_. rid) (\<lambda>_ _. sample_time) (\<lambda>_. sample_time))
     \<lparr>at_between := (\<lambda>k db. if k = 0 then odb else db)\<rparr>"

lemma quiet_racing_steps:
  assumes "\<forall>k \<ge> attempt. at_before at k (os_db (mk_orders s)) = os_db (mk_orders s)
      \<and> at_between at k (os_db (mk_orders s)) = os_db (mk_orders s)
      \<and> fst (snd (at_write at k)) \<notin> set (map ob_id (order_outbox (os_db (mk_orders s))))"
  shows "racing_steps at oid left attempt s"
  using assms
proof (induction left arbitrary: attempt s)
  case (Suc left)
  have "racing_steps at oid left (Suc attempt) (reading ord s)" for ord
    by (rule Suc.IH) (use Suc.prems in \<open>simp add: Suc_leD\<close>)
  then have "\<exists>s2. market_step\<^sup>*\<^sup>* (reading ord s) s2 \<and> os_db (mk_orders s2) = at_between at attempt (os_db (mk_orders s))
      \<and> fst (snd (at_write at attempt)) \<notin> set (map ob_id (order_outbox (os_db (mk_orders s2))))
      \<and> racing_steps at oid left (Suc attempt) s2" for ord
    using Suc.prems by (intro exI [of _ "reading ord s"]) simp
  with Suc.prems show ?case unfolding racing_steps.simps by (intro exI [of _ s]) auto
qed simp

lemma raced_update:
  assumes "stored_order db oid = Some (StatusAwaitingStock, v)" and "primary_key odb"
    and "stored_order odb oid = Some (StatusConfirmed, v + 1)"
  shows "\<exists>e. pg_update (raced_attempts odb rid) oid StatusConfirmed [] db = (Some e, odb) \<and> errors_is e ErrInvalidTransition"
proof -
  obtain r where r: "find_row or_id oid (orders db) = Some r" "or_status r = StatusAwaitingStock" "or_version r = v"
    using assms(1) by (auto simp: find_row_stored)
  obtain r' where r': "find_row or_id oid (orders odb) = Some r'" "or_status r' = StatusConfirmed" "or_version r' = v + 1"
    using assms(3) by (auto simp: find_row_stored)
  note ids = find_row_Some [OF r(1)] find_row_Some [OF r'(1)]
  have "rows_affected (locked_row (row_to_order r its\<lparr>Status := StatusConfirmed, UpdatedAt := t\<rparr>)) (orders odb) = 0" for its t
  proof -
    have "or_version x \<noteq> v" if "x \<in> set (orders odb)" "or_id x = oid" for x
    proof -
      have "x = r'" using that ids assms(2) by (auto simp: primary_key_def distinct_map inj_on_def)
      then show ?thesis using r'(3) by simp
    qed
    then show ?thesis using ids r(3) by (auto simp: rows_affected_0 locked_row_def row_to_order_def)
  qed
  then show ?thesis
    by (simp add: pg_update_def raced_attempts_def calm_attempts_def UpdateOrderStatus_def maxRetries_def numeral_3_eq_3
        GetByID_no_faults r r' go_simps buildStatusEvent_def pg_upd_def UpdateStatusWithEvent_no_faults Let_def
        row_to_order_def)
qed


end
