(* ===== verification/Saga_Causality.thy ===== *)
theory Saga_Causality
  imports Marketplace_Steps
begin

text \<open>
  Cause and effect between the services. Each message of the saga answers one that was published before:
  inventory-service answers an \<open>order.created\<close> message that is in Kafka, order-service announces a
  confirmation or a cancellation after the answer it follows from is in Kafka, and never announces
  the end of an order before its beginning.
\<close>

section \<open>Causes\<close>

text \<open>What inventory-service has decided, it was asked for.\<close>

definition answers_caused :: "order_sys \<Rightarrow> inv_sys \<Rightarrow> bool" where
  "answers_caused os iv \<longleftrightarrow> (\<forall>m \<in> stock_messages iv.
     \<exists>c \<in> set (os_log os). msg_topic c = EventTypeOrderCreated \<and> msg_key c = msg_key m)"

text \<open>What ends an order follows from a published answer for that order.\<close>

definition answered_in :: "message list \<Rightarrow> message \<Rightarrow> bool" where
  "answered_in answers m \<longleftrightarrow>
     (msg_topic m = EventTypeOrderConfirmed \<longrightarrow> reserved_message (msg_key m) \<in> set answers)
   \<and> (msg_topic m = EventTypeOrderCancelled \<longrightarrow>
       (\<exists>reason. m = event_message (msg_key m) (final_event (msg_key m) StatusCancelled reason)
          \<and> failed_message (msg_key m) reason \<in> set answers))"

definition finals_caused :: "order_sys \<Rightarrow> inv_sys \<Rightarrow> bool" where
  "finals_caused os iv \<longleftrightarrow> (\<forall>m \<in> order_messages os. answered_in (iv_log iv) m)"

text \<open>In Kafka the beginning of an order comes before its end.\<close>

definition created_first :: "message list \<Rightarrow> bool" where
  "created_first log \<longleftrightarrow> (\<forall>i < length log.
     msg_topic (log ! i) = EventTypeOrderConfirmed \<or> msg_topic (log ! i) = EventTypeOrderCancelled \<longrightarrow>
     (\<exists>j < i. msg_topic (log ! j) = EventTypeOrderCreated \<and> msg_key (log ! j) = msg_key (log ! i)))"

lemma created_first_append:
  assumes "created_first log"
    and "\<And>m. m \<in> set msgs \<Longrightarrow> msg_topic m = EventTypeOrderConfirmed \<or> msg_topic m = EventTypeOrderCancelled \<Longrightarrow>
      \<exists>c \<in> set log. msg_topic c = EventTypeOrderCreated \<and> msg_key c = msg_key m"
  shows "created_first (log @ msgs)"
  unfolding created_first_def
proof (intro allI impI)
  fix i
  assume i: "i < length (log @ msgs)"
    and final: "msg_topic ((log @ msgs) ! i) = EventTypeOrderConfirmed \<or> msg_topic ((log @ msgs) ! i) = EventTypeOrderCancelled"
  show "\<exists>j < i. msg_topic ((log @ msgs) ! j) = EventTypeOrderCreated \<and> msg_key ((log @ msgs) ! j) = msg_key ((log @ msgs) ! i)"
  proof (cases "i < length log")
    case True
    with assms(1) final obtain j where "j < i" "msg_topic (log ! j) = EventTypeOrderCreated" "msg_key (log ! j) = msg_key (log ! i)"
      by (auto simp: created_first_def nth_append)
    with True show ?thesis by (intro exI [of _ j]) (simp add: nth_append)
  next
    case False
    then have "(log @ msgs) ! i \<in> set msgs" using i by (simp add: nth_append)
    with assms(2) final obtain c where c: "c \<in> set log" "msg_topic c = EventTypeOrderCreated"
      "msg_key c = msg_key ((log @ msgs) ! i)" by blast
    then obtain j where "j < length log" "log ! j = c" by (auto simp: in_set_conv_nth)
    with c False show ?thesis by (intro exI [of _ j]) (simp add: nth_append)
  qed
qed

lemma answered_in_grows: "answered_in answers m \<Longrightarrow> set answers \<subseteq> set answers' \<Longrightarrow> answered_in answers' m"
  by (auto simp: answered_in_def)

section \<open>The logs of a step\<close>

text \<open>A log only grows, by messages of the outbox.\<close>

lemma order_tick_appends:
  assumes "order_processBatch f fq locked pub tm batch (os_db os) (os_log os) gauge = (r, db', log', gauge')"
  shows "\<exists>msgs. log' = os_log os @ msgs \<and> set log' \<subseteq> set (os_log os) \<union> order_messages os"
proof -
  note tick = processBatch_tick [OF assms]
  from tick have "\<exists>msgs. log' = os_log os @ msgs" by (cases rule: ow.tick_cases) auto
  with ow.tick_log [OF tick] show ?thesis by (auto simp: order_messages_def)
qed

lemma stock_tick_messages:
  assumes "inv_processBatch f locked pub tm batch (iv_db iv) (iv_log iv) = (r, db', log')"
  shows "set (iv_log iv) \<subseteq> set log' \<and> row_message ` set (inv_outbox db') = stock_messages iv"
proof -
  note tick = assms [unfolded inv_processBatch_def]
  have "set (iv_log iv) \<subseteq> set log'" by (rule stock_tick_log [OF assms])
  moreover have "row_message ` set (inv_outbox db') = row_message ` set (inv_outbox (iv_db iv))"
    using iw.tick_rows [OF tick] by (metis set_map)
  ultimately show ?thesis by (simp add: stock_messages_def)
qed

lemma answers_caused_new:
  assumes "answers_caused os iv" and "stock_messages iv' \<subseteq> insert m (stock_messages iv)"
    and "\<exists>c \<in> set (os_log os). msg_topic c = EventTypeOrderCreated \<and> msg_key c = msg_key m"
  shows "answers_caused os iv'"
  using assms unfolding answers_caused_def by blast

text \<open>The new outbox row of a reservation and of a refusal.\<close>

lemma reservation_message:
  assumes "ReserveAll f (\<lambda>_. iv_db iv) rid now oid items old = Returns (r, db')" and "stock_ok (iv_db iv)"
    and "db' \<noteq> old" and "db' \<noteq> iv_db iv"
  shows "row_message ` set (inv_outbox db') \<subseteq> insert (reserved_message oid) (stock_messages iv)"
proof -
  have "stock_ok ((\<lambda>_. iv_db iv) old)" using assms(2) .
  from assms(1) this show ?thesis
    by (cases rule: ReserveAll_cases)
      (use assms(3,4) in \<open>auto simp: stock_messages_def reserved_db_def row_message_new answer_messages\<close>)
qed

lemma refusal_message:
  assumes "RecordFailure f rid now oid reason (iv_db iv) = (r, db')"
  shows "row_message ` set (inv_outbox db') \<subseteq> insert (failed_message oid reason) (stock_messages iv)"
  using assms by (cases rule: RecordFailure_cases) (auto simp: stock_messages_def row_message_new answer_messages)

lemma answer_keys [simp]: "msg_key (reserved_message oid) = oid" "msg_key (failed_message oid reason) = oid"
  by (simp_all add: reserved_message_def failed_message_def)

text \<open>The message asked for, by the order it names.\<close>

lemma asked_in_log:
  assumes "m \<in> set (os_log os)" and "created_order m = Some event" and "orders_told os"
  shows "\<exists>c \<in> set (os_log os). msg_topic c = EventTypeOrderCreated \<and> msg_key c = ic_OrderID event"
proof -
  have "order_message_ok (os_db os) m" using assms(1,3) by (auto simp: orders_told_def)
  from created_order_ok [OF this assms(2)] assms(1,2) show ?thesis
    by (intro bexI [of _ m]) (auto simp: created_order_def split: if_splits)
qed

section \<open>Every step keeps cause and effect\<close>

lemma market_step_answers:
  assumes "market_step s s'" and "answers_caused (mk_orders s) (mk_stock s)" and "orders_told (mk_orders s)"
    and "inv_inv stock0 (mk_stock s)"
  shows "answers_caused (mk_orders s') (mk_stock s')"
  using assms(1)
proof cases
  case (reserve_stock m event old rid f now r db')
  have "stock_ok (iv_db (mk_stock s))" using assms(4) by (simp add: inv_inv_def)
  note msgs = reservation_message [OF reserve_stock(6) this reserve_stock(7,8)]
  show ?thesis
    using answers_caused_new [OF assms(2), of "mk_stock s'" "reserved_message (ic_OrderID event)"] msgs
      asked_in_log [OF reserve_stock(2,3) assms(3)]
    by (simp add: reserve_stock(1) stock_messages_def)
next
  case (refuse_stock m event rid f now reason r db')
  note msgs = refusal_message [OF refuse_stock(5)]
  show ?thesis
    using answers_caused_new [OF assms(2), of "mk_stock s'" "failed_message (ic_OrderID event) reason"] msgs
      asked_in_log [OF refuse_stock(2,3) assms(3)]
    by (simp add: refuse_stock(1) stock_messages_def)
next
  case (order_tick f fq locked pub tm batch gauge r db' log' gauge')
  from order_tick_appends [OF order_tick(2)] assms(2) show ?thesis
    by (simp add: order_tick(1) answers_caused_def) (metis Un_iff set_append)
next
  case (stock_tick f locked pub tm batch r db' log')
  from stock_tick_messages [OF stock_tick(2)] assms(2) show ?thesis
    by (auto simp: stock_tick(1) answers_caused_def stock_messages_def)
qed (use assms(2) in \<open>simp_all add: answers_caused_def stock_messages_def\<close>)

lemma finals_caused_new:
  assumes "finals_caused os iv" and "order_messages os' \<subseteq> insert m (order_messages os)" and "answered_in (iv_log iv) m"
  shows "finals_caused os' iv"
  using assms unfolding finals_caused_def by blast

lemma result_answered:
  assumes "m \<in> set (iv_log iv)" and "stock_told iv" and "stock_result m = Some (oid, new, reason)"
    and "buildStatusEvent ord' new reason = Inr (ty, payload)" and "ID ord' = oid"
  shows "answered_in (iv_log iv) (event_message oid (ty, payload))"
proof -
  have asked: "new = StatusConfirmed \<or> new = StatusCancelled" using buildStatusEvent_Inr [OF assms(4)] by auto
  then have ev: "(ty, payload) = final_event oid new reason"
    using assms(4,5) buildStatusEvent_final [OF asked, of ord' reason] by simp
  have "m \<in> stock_messages iv" using assms(1,2) by (auto simp: stock_told_def)
  then have "(new = StatusConfirmed \<and> m = reserved_message oid) \<or> (new = StatusCancelled \<and> m = failed_message oid reason)"
    using assms(2,3) by (auto simp: stock_told_def)
  with assms(1) show ?thesis unfolding ev by (auto simp: answered_in_def)
qed

lemma market_step_finals:
  assumes "market_step s s'" and "finals_caused (mk_orders s) (mk_stock s)" and "stock_told (mk_stock s)"
  shows "finals_caused (mk_orders s') (mk_stock s')"
  using assms(1)
proof cases
  case (new_order oid cust items t ord payload rid f now r db')
  have "order_messages ((mk_orders s)\<lparr>os_db := db'\<rparr>)
      \<subseteq> insert (event_message (ID ord) (EventTypeOrderCreated, payload)) (order_messages (mk_orders s))"
    using new_order(5) by (cases rule: SaveWithEvent_cases) (auto simp: order_messages_def saved_def row_message_new)
  from finals_caused_new [OF assms(2) this] show ?thesis by (simp add: new_order(1) answered_in_def)
next
  case (apply_result m oid new reason ord t ord' ty payload rid f tm r db')
  have id: "ID ord' = oid" using apply_result(5,6) by (auto simp: go_simps split: if_splits)
  have "order_messages ((mk_orders s)\<lparr>os_db := db'\<rparr>)
      \<subseteq> insert (event_message oid (ty, payload)) (order_messages (mk_orders s))"
    using apply_result(9) id
    by (cases rule: UpdateStatusWithEvent_cases) (auto simp: order_messages_def status_updated_def row_message_new)
  from finals_caused_new [OF assms(2) this result_answered [OF apply_result(2) assms(3) apply_result(3,7) id]]
  show ?thesis by (simp add: apply_result(1))
next
  case (order_tick f fq locked pub tm batch gauge r db' log' gauge')
  with assms(2) order_tick_messages [OF order_tick(2)] show ?thesis by (simp add: finals_caused_def)
next
  case (stock_tick f locked pub tm batch r db' log')
  from stock_tick_messages [OF stock_tick(2)] assms(2) show ?thesis
    by (auto simp: stock_tick(1) finals_caused_def intro: answered_in_grows)
qed (use assms(2) in \<open>simp_all add: finals_caused_def order_messages_def\<close>)

lemma market_step_created_first:
  assumes "market_step s s'" and "created_first (os_log (mk_orders s))" and "finals_caused (mk_orders s) (mk_stock s)"
    and "answers_caused (mk_orders s) (mk_stock s)" and "stock_told (mk_stock s)" and "orders_told (mk_orders s)"
  shows "created_first (os_log (mk_orders s'))"
  using assms(1)
proof cases
  case (order_tick f fq locked pub tm batch gauge r db' log' gauge')
  obtain msgs where log: "log' = os_log (mk_orders s) @ msgs"
    "set log' \<subseteq> set (os_log (mk_orders s)) \<union> order_messages (mk_orders s)"
    using order_tick_appends [OF order_tick(2)] by blast
  have "\<exists>c \<in> set (os_log (mk_orders s)). msg_topic c = EventTypeOrderCreated \<and> msg_key c = msg_key m"
    if m: "m \<in> set msgs" "msg_topic m = EventTypeOrderConfirmed \<or> msg_topic m = EventTypeOrderCancelled" for m
  proof -
    have "m \<in> order_messages (mk_orders s)" using log m(1) assms(6) by (auto simp: orders_told_def)
    with assms(3) m(2) obtain a where "a \<in> set (iv_log (mk_stock s))" "msg_key a = msg_key m"
      by (auto simp: finals_caused_def answered_in_def)
    with assms(5) have "a \<in> stock_messages (mk_stock s)" by (auto simp: stock_told_def)
    with assms(4) \<open>msg_key a = msg_key m\<close> show ?thesis unfolding answers_caused_def by metis
  qed
  with created_first_append [OF assms(2)] log(1) show ?thesis by (simp add: order_tick(1))
qed (use assms(2) in simp_all)

lemma reachable_causes:
  assumes "market_reachable stock0 s" and "stock_ok (iv_db (inv_sys_init stock0))"
  shows "answers_caused (mk_orders s) (mk_stock s) \<and> finals_caused (mk_orders s) (mk_stock s)
    \<and> created_first (os_log (mk_orders s))"
  using assms(1)
proof (induction rule: market_reachable.induct)
  case init
  show ?case
    by (simp add: answers_caused_def finals_caused_def created_first_def stock_messages_def order_messages_def
        market_init_def inv_sys_init_def order_sys_init_def empty_order_db_def)
next
  case (step s s')
  note orders = reachable_orders_told [OF market_orders_reachable [OF step.hyps(1)]]
  note stock = reachable_stock_told [OF market_stock_reachable [OF step.hyps(1)] assms(2)]
  note inv = reachable_inv_inv [OF market_stock_reachable [OF step.hyps(1)] assms(2)]
  from step.IH market_step_answers [OF step.hyps(2) _ orders inv] market_step_finals [OF step.hyps(2) _ stock]
    market_step_created_first [OF step.hyps(2) _ _ _ stock orders]
  show ?case by blast
qed

section \<open>Guarantee\<close>

text \<open>
  In every state the marketplace can reach, the logs of Kafka hold no
  effect without its cause: inventory-service has answered only orders whose \<open>order.created\<close> message
  order-service published; a confirmation is announced only after inventory-service published that the
  order is reserved, a cancellation only after it published the very reason the announcement carries; and
  the end of an order is never announced before its beginning.
\<close>

theorem saga_causality:
  assumes "market_reachable stock0 s" and "stock_ok (iv_db (inv_sys_init stock0))"
  shows "(\<forall>m \<in> set (iv_log (mk_stock s)). \<exists>c \<in> set (os_log (mk_orders s)).
        msg_topic c = EventTypeOrderCreated \<and> msg_key c = msg_key m)
    \<and> (\<forall>m \<in> set (os_log (mk_orders s)). answered_in (iv_log (mk_stock s)) m)
    \<and> created_first (os_log (mk_orders s))"
proof -
  note causes = reachable_causes [OF assms]
  have "set (os_log (mk_orders s)) \<subseteq> order_messages (mk_orders s)"
    using reachable_orders_told [OF market_orders_reachable [OF assms(1)]] by (simp add: orders_told_def)
  moreover have "set (iv_log (mk_stock s)) \<subseteq> stock_messages (mk_stock s)"
    using reachable_stock_told [OF market_stock_reachable [OF assms(1)] assms(2)] by (simp add: stock_told_def)
  ultimately show ?thesis
    using causes by (auto simp: answers_caused_def finals_caused_def)
qed

theorem saga_causality_witness:
  "\<exists>s. market_reachable (stock saga_stock) s \<and> reserved_message ''o1'' \<in> set (iv_log (mk_stock s))
    \<and> (\<exists>c \<in> set (os_log (mk_orders s)). msg_topic c = EventTypeOrderCreated \<and> msg_key c = ''o1'')"
proof -
  obtain idb past ledger where s: "market_reachable (stock saga_stock)
     \<lparr>mk_orders = \<lparr>os_db = os_db sample_published, os_reads = [], os_log = sample_log\<rparr>,
      mk_stock = \<lparr>iv_db = idb, iv_past = past, iv_log = [reserved_message ''o1''], iv_ledger = ledger\<rparr>,
      mk_notif = empty_notif_state\<rparr>" (is "market_reachable _ ?s")
    using sample_market_answered by blast
  have "stock_ok (iv_db (inv_sys_init (stock saga_stock)))" by (simp add: saga_stock_fits)
  from saga_causality [OF s this]
  have "\<exists>c \<in> set (os_log (mk_orders ?s)). msg_topic c = EventTypeOrderCreated \<and> msg_key c = ''o1''" by simp
  with s show ?thesis by (intro exI [of _ ?s]) simp
qed

end
