(* ===== verification/Outbox_Interleaving.thy ===== *)
theory Outbox_Interleaving
  imports Outbox_Worker
begin

text \<open>
  The tick of \<open>internal/outbox/worker.go\<close> taken apart, in the form both services share. Elsewhere
  \<open>process_batch\<close> is one step; here it is the sequence of its actions: begin and fetch, publish a
  record, write its row, commit. Other workers and the service's own transactions come in between.

  \<^item> \<open>open_tx\<close>: what a worker holds between two actions, with the row versions its transaction
    has written and nobody else sees yet (\<open>own_version\<close>, \<open>written\<close>). The versions of the
    service's other tables are the field \<open>ot_rows\<close>, of the service's type.
  \<^item> \<open>begin_tick\<close>, \<open>publish_next\<close>: two of the actions; the write is the service's.
    \<open>worker_action\<close>: all of them, for any number of workers, with the row locks as guards.
  \<^item> \<open>box_rows\<close>, \<open>tx_steps\<close>: what holds of an open transaction, and the lemmas that the
    actions of its own worker and those of the others keep it.
  \<^item> The locale \<open>interleaved_worker\<close>: the contract of the loop's body (what it writes does not
    depend on the state, and a statement can fail in any round). A commit is then an atomic tick of now
    (\<open>commit_is_tick\<close>), and a publish one that fails right after it (\<open>publish_is_failed_tick\<close>).
  \<^item> The locale \<open>interleaved_workers\<close> adds the service's own rows: every action keeps what holds of
    the open transactions (\<open>action_ok\<close>), and is nothing or an atomic tick for the committed
    database and the topics (\<open>action_is_tick\<close>).
\<close>

section \<open>A transaction between two actions\<close>

record 'w open_tx =
  ot_env :: tick_env
  ot_locked :: "string list"
  ot_recs :: "OutboxRecord list"
  ot_next :: nat
  ot_published :: bool
  ot_outbox :: "string \<rightharpoonup> outbox_row"
  ot_rows :: 'w

text \<open>The rows a transaction sees: its own version of a row before the committed one.\<close>

definition own_version :: "('r \<Rightarrow> string) \<Rightarrow> (string \<rightharpoonup> 'r) \<Rightarrow> 'r \<Rightarrow> 'r" where
  "own_version key ws r = (case ws (key r) of None \<Rightarrow> r | Some r' \<Rightarrow> r')"

text \<open>The versions after a statement that took the table from \<open>old\<close> to \<open>new\<close>.\<close>

definition written :: "('r \<Rightarrow> string) \<Rightarrow> 'r list \<Rightarrow> 'r list \<Rightarrow> (string \<rightharpoonup> 'r) \<Rightarrow> (string \<rightharpoonup> 'r)" where
  "written key old new ws =
     (\<lambda>k. if find_row key k new = find_row key k old then ws k else find_row key k new)"

text \<open>
  \<open>Begin\<close> and \<open>fetchPendingTx\<close>, in a transaction that has written \<open>rows0\<close>, nothing. The
  error of a tick is only logged, so its type does not matter.
\<close>

definition begin_tick ::
  "'w \<Rightarrow> tick_env \<Rightarrow> (string \<Rightarrow> bool) \<Rightarrow> nat \<Rightarrow> outbox_row list \<Rightarrow> 'w open_tx option" where
  "begin_tick rows0 e locked batch outbox =
     (case f_begin (te_faults e) of
        Some m \<Rightarrow> None
      | None \<Rightarrow>
          (case (fetch_pending (te_faults e) locked batch outbox :: unit go_error + OutboxRecord list) of
             Inl err \<Rightarrow> None
           | Inr recs \<Rightarrow> Some \<lparr>ot_env = e,
               ot_locked = map ob_id (pending_batch locked batch outbox),
               ot_recs = recs, ot_next = 0, ot_published = False, ot_outbox = Map.empty, ot_rows = rows0\<rparr>))"

text \<open>\<open>Publish\<close> of the next record; a failure gives the transaction up.\<close>

definition publish_next :: "'w open_tx \<Rightarrow> message list \<Rightarrow> 'w open_tx option \<times> message list" where
  "publish_next tx log =
     (let rec = ot_recs tx ! ot_next tx in
      case (Publish (te_publish (ot_env tx) (ot_next tx)) (rec_AggregateID rec) (rec_EventType rec)
              (rec_Payload rec) log :: unit go_error option \<times> message list) of
        (Some e, log') \<Rightarrow> (None, log')
      | (None, log') \<Rightarrow> (Some (tx\<lparr>ot_published := True\<rparr>), log'))"

text \<open>The rows that \<open>FOR UPDATE SKIP LOCKED\<close> passes over.\<close>

definition selected :: "(nat \<rightharpoonup> 'w open_tx) \<Rightarrow> string \<Rightarrow> bool" where
  "selected open rid \<longleftrightarrow> (\<exists>tx \<in> ran open. rid \<in> set (ot_locked tx))"

text \<open>The rows of the service's other tables with an uncommitted version; \<open>touched\<close> says which they are.\<close>

definition uncommitted :: "('w \<Rightarrow> string set) \<Rightarrow> (nat \<rightharpoonup> 'w open_tx) \<Rightarrow> string \<Rightarrow> bool" where
  "uncommitted touched open k \<longleftrightarrow> (\<exists>tx \<in> ran open. k \<in> touched (ot_rows tx))"

text \<open>
  The actions, on the committed database, the topics and the open transactions. Row locks are guards:
  \<open>FOR UPDATE SKIP LOCKED\<close> passes over the rows another worker has selected, and an \<open>UPDATE\<close>
  of a row with an uncommitted version waits. A worker can lose its transaction at any moment: a failed
  statement, a cancelled context, a killed process.
\<close>

inductive worker_action ::
  "('db \<Rightarrow> outbox_row list) \<Rightarrow> 'w \<Rightarrow> ('w open_tx \<Rightarrow> 'db \<Rightarrow> 'db) \<Rightarrow> ('w open_tx \<Rightarrow> 'db \<Rightarrow> 'w open_tx option)
   \<Rightarrow> ('w \<Rightarrow> string set) \<Rightarrow> 'db \<times> message list \<times> (nat \<rightharpoonup> 'w open_tx)
   \<Rightarrow> 'db \<times> message list \<times> (nat \<rightharpoonup> 'w open_tx) \<Rightarrow> bool"
  for outbox_of rows0 view put_rows touched where
  tick_begin:
    "open w = None \<Longrightarrow> begin_tick rows0 e (selected open) batch (outbox_of db) = Some tx \<Longrightarrow>
     worker_action outbox_of rows0 view put_rows touched (db, log, open) (db, log, open(w \<mapsto> tx))"
| tick_publish:
    "open w = Some tx \<Longrightarrow> ot_next tx < length (ot_recs tx) \<Longrightarrow> \<not> ot_published tx \<Longrightarrow>
     publish_next tx log = (r, log') \<Longrightarrow>
     worker_action outbox_of rows0 view put_rows touched (db, log, open) (db, log', open(w := r))"
| tick_write:
    "open w = Some tx \<Longrightarrow> ot_published tx \<Longrightarrow> put_rows tx db = Some tx' \<Longrightarrow>
     \<forall>k \<in> touched (ot_rows tx') - touched (ot_rows tx). \<not> uncommitted touched (open(w := None)) k \<Longrightarrow>
     worker_action outbox_of rows0 view put_rows touched (db, log, open) (db, log, open(w \<mapsto> tx'))"
| tick_commit:
    "open w = Some tx \<Longrightarrow> ot_next tx = length (ot_recs tx) \<Longrightarrow>
     commit (f_commit (te_faults (ot_env tx))) db (view tx db) = (r :: unit go_error option, db') \<Longrightarrow>
     worker_action outbox_of rows0 view put_rows touched (db, log, open) (db', log, open(w := None))"
| tick_lost:
    "open w = Some tx \<Longrightarrow> worker_action outbox_of rows0 view put_rows touched (db, log, open) (db, log, open(w := None))"

definition done_recs :: "'w open_tx \<Rightarrow> OutboxRecord list" where
  "done_recs tx = take (ot_next tx) (ot_recs tx)"

section \<open>Private versions\<close>

lemma own_version_id: "own_version key ws r = r" if "ws (key r) = None"
  using that by (simp add: own_version_def)

lemma map_own_version_id: "map (own_version key Map.empty) t = t"
  by (simp add: own_version_id map_idI)

definition keyed :: "('r \<Rightarrow> string) \<Rightarrow> (string \<rightharpoonup> 'r) \<Rightarrow> bool" where
  "keyed key ws \<longleftrightarrow> (\<forall>k r. ws k = Some r \<longrightarrow> key r = k)"

lemma keyed_empty [simp]: "keyed key Map.empty"
  by (simp add: keyed_def)

lemma key_own_version: "keyed key ws \<Longrightarrow> key (own_version key ws r) = key r"
  by (simp add: keyed_def own_version_def split: option.splits)

lemma map_key_own_version: "keyed key ws \<Longrightarrow> map key (map (own_version key ws) t) = map key t"
  by (simp add: key_own_version)

lemma keyed_written: "keyed key ws \<Longrightarrow> keyed key (written key old new ws)"
  unfolding keyed_def written_def by (auto dest: find_row_Some split: if_splits)

text \<open>A statement that changes rows and keeps their keys: the new versions show its result.\<close>

lemma written_update:
  assumes "distinct (map key t)" and "keyed key ws" and g: "\<And>r. key (g r) = key r"
  defines "old \<equiv> map (own_version key ws) t"
  shows "map (own_version key (written key old (map g old) ws)) t = map g old"
proof -
  have dist: "distinct (map key old)" "distinct (map key (map g old))"
    using assms by (simp_all add: key_own_version comp_def)
  have "own_version key (written key old (map g old) ws) r = g (own_version key ws r)" if r: "r \<in> set t" for r
  proof -
    let ?o = "own_version key ws r"
    have o: "find_row key (key r) old = Some ?o"
      using r assms by (intro find_row_distinct [OF dist(1), THEN iffD2]) (simp add: key_own_version)
    have n: "find_row key (key r) (map g old) = Some (g ?o)"
      using r assms by (intro find_row_distinct [OF dist(2), THEN iffD2]) (auto simp: key_own_version)
    have "written key old (map g old) ws (key r) = (if g ?o = ?o then ws (key r) else Some (g ?o))"
      unfolding written_def o n by simp
    then show ?thesis by (simp add: own_version_def split: option.splits if_splits)
  qed
  then show ?thesis by (simp add: old_def)
qed

text \<open>A version is one from before or what the statement made of a row.\<close>

lemma written_Some:
  assumes w: "written key (map (own_version key ws) t) (map g (map (own_version key ws) t)) ws k = Some r"
    and "distinct (map key t)" and "keyed key ws" and g: "\<And>r. key (g r) = key r"
  shows "ws k = Some r \<or> k \<in> key ` set t \<and> (\<exists>r0. key r0 = k \<and> r = g r0 \<and> g r0 \<noteq> r0)"
proof (rule disjCI)
  let ?old = "map (own_version key ws) t"
  assume "\<not> (k \<in> key ` set t \<and> (\<exists>r0. key r0 = k \<and> r = g r0 \<and> g r0 \<noteq> r0))"
  moreover have "k \<in> key ` set t \<and> (\<exists>r0. key r0 = k \<and> r = g r0 \<and> g r0 \<noteq> r0)"
    if n: "find_row key k (map g ?old) = Some r" and ne: "find_row key k ?old \<noteq> Some r"
  proof -
    from find_row_Some [OF n] obtain r0 where r0: "r0 \<in> set ?old" "r = g r0" "key r0 = k"
      unfolding set_map [of g] by (metis g imageE)
    have keys: "map key ?old = map key t" using assms(3) by (rule map_key_own_version)
    with assms(2) r0 have "find_row key k ?old = Some r0" using find_row_distinct by metis
    moreover have "k \<in> key ` set t" using r0(1,3) keys by (metis imageI set_map)
    ultimately show ?thesis using ne r0 by auto
  qed
  ultimately show "ws k = Some r" using w by (auto simp: written_def split: if_splits)
qed

lemma find_row_map:
  assumes "\<And>r. key (g r) = key r"
  shows "find_row key k (map g t) = map_option g (find_row key k t)"
  by (induction t) (simp_all add: find_row_Cons assms)

lemma written_mono:
  assumes "\<And>r. key (g r) = key r"
  shows "dom ws \<subseteq> dom (written key old (map g old) ws)"
  using find_row_map [of key g, OF assms] by (auto simp: written_def) (metis not_None_eq option.map(1))

section \<open>What a batch does to the outbox\<close>

definition rec_message :: "OutboxRecord \<Rightarrow> message" where
  "rec_message rec = \<lparr>msg_topic = rec_EventType rec, msg_key = rec_AggregateID rec, msg_value = Doc (rec_Payload rec)\<rparr>"

definition sent_by :: "gotime \<Rightarrow> OutboxRecord \<Rightarrow> outbox_row \<Rightarrow> outbox_row" where
  "sent_by now rec r = (if ob_id r = rec_ID rec then r\<lparr>ob_status := SENT, ob_sent := Some now\<rparr> else r)"

fun sent_row :: "(nat \<Rightarrow> gotime) \<Rightarrow> nat \<Rightarrow> OutboxRecord list \<Rightarrow> outbox_row \<Rightarrow> outbox_row" where
  "sent_row tm k [] r = r"
| "sent_row tm k (rec # recs) r = sent_row tm (Suc k) recs (sent_by (tm k) rec r)"

lemma ob_id_sent_by [simp]: "ob_id (sent_by now rec r) = ob_id r"
  by (simp add: sent_by_def)

lemma sent_row_snoc: "sent_row tm k (recs @ [rec]) r = sent_by (tm (k + length recs)) rec (sent_row tm k recs r)"
  by (induction recs arbitrary: k r) simp_all

lemma sent_row_other: "ob_id r \<notin> rec_ID ` set recs \<Longrightarrow> sent_row tm k recs r = r"
  by (induction recs arbitrary: k) (auto simp: sent_by_def)

lemma sent_row_single: "sent_row tm k [rec] = sent_by (tm k) rec"
  by (rule ext) simp

lemma mark_sent_by: "mark_sent now (rec_ID rec) t = map (sent_by now rec) t"
  by (simp add: mark_sent_def update_where_def sent_by_def)

section \<open>What holds of an open transaction\<close>

text \<open>Its progress through the loop, whose body runs as \<open>runs\<close> says, and the messages it has written.\<close>

definition tx_steps :: "(db_faults \<Rightarrow> nat \<Rightarrow> OutboxRecord \<Rightarrow> bool) \<Rightarrow> message list \<Rightarrow> 'w open_tx \<Rightarrow> bool" where
  "tx_steps runs log tx \<longleftrightarrow> f_begin (te_faults (ot_env tx)) = None
     \<and> ot_next tx \<le> length (ot_recs tx)
     \<and> (\<forall>j < ot_next tx. te_publish (ot_env tx) j = Acked \<and> runs (te_faults (ot_env tx)) j (ot_recs tx ! j))
     \<and> (ot_published tx \<longrightarrow> ot_next tx < length (ot_recs tx) \<and> te_publish (ot_env tx) (ot_next tx) = Acked
          \<and> rec_message (ot_recs tx ! ot_next tx) \<in> set log)
     \<and> rec_message ` set (done_recs tx) \<subseteq> set log
     \<and> keyed ob_id (ot_outbox tx)
     \<and> rec_ID ` set (ot_recs tx) \<subseteq> set (ot_locked tx) \<and> dom (ot_outbox tx) \<subseteq> set (ot_locked tx)"

text \<open>
  Its relation to the committed outbox: the rows it has locked are still the pending ones it fetched, and
  its private versions are what its statements would write on the table of now.
\<close>

definition box_rows :: "outbox_row list \<Rightarrow> 'w open_tx \<Rightarrow> bool" where
  "box_rows outbox tx \<longleftrightarrow>
     (fetch_pending (te_faults (ot_env tx)) (\<lambda>rid. rid \<notin> set (ot_locked tx)) (length (ot_locked tx))
        outbox :: unit go_error + OutboxRecord list) = Inr (ot_recs tx)
     \<and> set (ot_locked tx) \<subseteq> ob_id ` set (pending outbox)
     \<and> (\<forall>r \<in> set outbox. own_version ob_id (ot_outbox tx) r = sent_row (te_now (ot_env tx)) 0 (done_recs tx) r)"

lemma tx_steps_log: "tx_steps runs log tx \<Longrightarrow> set log \<subseteq> set log' \<Longrightarrow> tx_steps runs log' tx"
  by (auto simp: tx_steps_def)

lemma tx_steps_locks:
  assumes "tx_steps runs log tx"
  shows "rec_ID ` set (ot_recs tx) \<subseteq> set (ot_locked tx)" and "dom (ot_outbox tx) \<subseteq> set (ot_locked tx)"
    and "keyed ob_id (ot_outbox tx)"
  using assms by (simp_all add: tx_steps_def)

lemma set_done_recs: "set (done_recs tx) \<subseteq> set (ot_recs tx)"
  by (auto simp: done_recs_def dest: in_set_takeD)

text \<open>What the other transactions may change under an open one.\<close>

lemma pending_batch_same_rows:
  assumes "filter (\<lambda>r. ob_id r \<in> L) t' = filter (\<lambda>r. ob_id r \<in> L) t"
  shows "pending_batch (\<lambda>rid. rid \<notin> L) n t' = pending_batch (\<lambda>rid. rid \<notin> L) n t"
    and "L \<inter> ob_id ` set (pending t') = L \<inter> ob_id ` set (pending t)"
proof -
  have p: "filter (\<lambda>r. ob_id r \<in> L) (pending t') = filter (\<lambda>r. ob_id r \<in> L) (pending t)"
    using arg_cong [OF assms, of "filter (\<lambda>r. ob_status r = PENDING)"] by (simp add: pending_def conj_commute)
  then show "pending_batch (\<lambda>rid. rid \<notin> L) n t' = pending_batch (\<lambda>rid. rid \<notin> L) n t"
    by (simp add: pending_batch_def)
  have "L \<inter> ob_id ` set (pending u) = ob_id ` set (filter (\<lambda>r. ob_id r \<in> L) (pending u))" for u by auto
  with p show "L \<inter> ob_id ` set (pending t') = L \<inter> ob_id ` set (pending t)" by metis
qed

lemma box_rows_stable:
  assumes tx: "box_rows t tx" "tx_steps runs log tx"
    and same: "filter (\<lambda>r. ob_id r \<in> set (ot_locked tx)) t' = filter (\<lambda>r. ob_id r \<in> set (ot_locked tx)) t"
  shows "box_rows t' tx"
proof -
  have "own_version ob_id (ot_outbox tx) r = sent_row (te_now (ot_env tx)) 0 (done_recs tx) r" if r: "r \<in> set t'" for r
  proof (cases "ob_id r \<in> set (ot_locked tx)")
    case True
    with r have "r \<in> set (filter (\<lambda>r. ob_id r \<in> set (ot_locked tx)) t')" by simp
    then have "r \<in> set t" unfolding same by simp
    then show ?thesis using tx(1) by (simp add: box_rows_def)
  next
    case False
    then have "ot_outbox tx (ob_id r) = None" "ob_id r \<notin> rec_ID ` set (done_recs tx)"
      using tx_steps_locks(1,2) [OF tx(2)] set_done_recs [of tx] by blast+
    then show ?thesis by (simp add: own_version_id sent_row_other)
  qed
  moreover have "(fetch_pending f (\<lambda>rid. rid \<notin> set (ot_locked tx)) n t' :: unit go_error + OutboxRecord list)
      = fetch_pending f (\<lambda>rid. rid \<notin> set (ot_locked tx)) n t" for f n
    unfolding fetch_pending_def pending_batch_same_rows(1) [OF same] ..
  moreover have "set (ot_locked tx) \<subseteq> ob_id ` set (pending t')"
    using pending_batch_same_rows(2) [OF same] tx(1) unfolding box_rows_def by blast
  ultimately show ?thesis using tx(1) unfolding box_rows_def by metis
qed

text \<open>A new row, and the rows another worker commits.\<close>

lemma box_rows_append:
  assumes "box_rows t tx" "tx_steps runs log tx" and "ob_id e \<notin> set (map ob_id t)"
  shows "box_rows (t @ [e]) tx"
proof (rule box_rows_stable [OF assms(1,2)])
  have "ob_id e \<notin> set (ot_locked tx)" using assms(1,3) by (auto simp: box_rows_def pending_def)
  then show "filter (\<lambda>r. ob_id r \<in> set (ot_locked tx)) (t @ [e]) = filter (\<lambda>r. ob_id r \<in> set (ot_locked tx)) t"
    by simp
qed

lemma box_rows_committed:
  assumes "box_rows t tx" "tx_steps runs log tx" and other: "tx_steps runs' log' other"
    and disj: "set (ot_locked other) \<inter> set (ot_locked tx) = {}"
  shows "box_rows (map (own_version ob_id (ot_outbox other)) t) tx"
proof (rule box_rows_stable [OF assms(1,2)])
  note locks = tx_steps_locks [OF other]
  have "own_version ob_id (ot_outbox other) r = r" if "ob_id r \<in> set (ot_locked tx)" for r
    using that locks(2) disj by (intro own_version_id) blast
  then show "filter (\<lambda>r. ob_id r \<in> set (ot_locked tx)) (map (own_version ob_id (ot_outbox other)) t)
      = filter (\<lambda>r. ob_id r \<in> set (ot_locked tx)) t"
    by (induction t) (simp_all add: key_own_version [OF locks(3)])
qed

section \<open>Each action keeps it\<close>

lemma filter_key_take:
  assumes "distinct (map key xs)"
  shows "filter (\<lambda>x. key x \<in> set (map key (take n xs))) xs = take n xs"
proof -
  have "distinct (map key (take n xs) @ map key (drop n xs))"
    using assms by (metis append_take_drop_id map_append)
  then have "filter (\<lambda>x. key x \<in> set (map key (take n xs))) (drop n xs) = []"
    unfolding filter_empty_conv by auto
  moreover have "filter (\<lambda>x. key x \<in> set (map key (take n xs))) (take n xs) = take n xs"
    by (rule filter_True) auto
  ultimately show ?thesis by (metis append_Nil2 append_take_drop_id filter_append)
qed

lemma pending_batch_again:
  assumes "distinct (map ob_id t)" and batch_def: "batch = pending_batch locked n t"
  shows "pending_batch (\<lambda>rid. rid \<notin> set (map ob_id batch)) (length (map ob_id batch)) t = batch"
proof -
  let ?sorted = "sort_key ob_created (filter (\<lambda>r. \<not> locked (ob_id r)) (pending t))"
  let ?mine = "\<lambda>r. ob_id r \<in> set (map ob_id batch)"
  have dist: "distinct (map ob_id ?sorted)"
    using assms(1) by (auto simp: distinct_map pending_def inj_on_def)
  have "ob_id r \<in> ob_id ` set batch \<Longrightarrow> r \<in> set (pending t) \<Longrightarrow> \<not> locked (ob_id r)" for r
    by (auto simp: batch_def pending_batch_def dest!: in_set_takeD)
  then have "filter ?mine (pending t) = filter ?mine (filter (\<lambda>r. \<not> locked (ob_id r)) (pending t))"
    by (auto intro!: filter_cong)
  then have "sort_key ob_created (filter ?mine (pending t)) = filter ?mine ?sorted"
    by (simp only: filter_sort)
  also have "\<dots> = batch" using filter_key_take [OF dist] by (simp add: batch_def pending_batch_def)
  finally show ?thesis by (simp add: pending_batch_def)
qed

lemma fetch_pending_records:
  assumes "fetch_pending f locked n t = Inr recs"
  shows "set recs \<subseteq> outbox_record ` set (pending_batch locked n t)"
  using assms set_delivered
  by (fastforce simp: fetch_pending_def split: option.splits sum.splits dest: scan_rows_Inr)

lemma begin_tick_ok:
  assumes "begin_tick rows0 e locked n t = Some tx" and dist: "distinct (map ob_id t)"
  shows "box_rows t tx" and "tx_steps runs log tx" and "\<forall>rid \<in> set (ot_locked tx). \<not> locked rid"
    and "ot_rows tx = rows0" and "done_recs tx = []"
proof -
  let ?batch = "pending_batch locked n t"
  obtain recs where f: "f_begin (te_faults e) = None"
      "(fetch_pending (te_faults e) locked n t :: unit go_error + OutboxRecord list) = Inr recs"
    and tx: "tx = \<lparr>ot_env = e, ot_locked = map ob_id ?batch, ot_recs = recs, ot_next = 0, ot_published = False,
      ot_outbox = Map.empty, ot_rows = rows0\<rparr>"
    using assms(1) by (auto simp: begin_tick_def split: option.splits sum.splits)
  note again = pending_batch_again [OF dist refl, of locked n]
  have "(fetch_pending (te_faults e) (\<lambda>rid. rid \<notin> set (map ob_id ?batch)) (length (map ob_id ?batch)) t
      :: unit go_error + OutboxRecord list) = Inr recs"
    using f(2) unfolding fetch_pending_def again .
  moreover have recs: "set recs \<subseteq> outbox_record ` set ?batch" using fetch_pending_records [OF f(2)] .
  moreover have batch: "set ?batch \<subseteq> {r \<in> set (pending t). \<not> locked (ob_id r)}"
    by (auto simp: pending_batch_def dest: in_set_takeD)
  ultimately show "box_rows t tx" by (auto simp: box_rows_def tx done_recs_def own_version_id)
  show "tx_steps runs log tx" using recs f(1) by (fastforce simp: tx_steps_def tx done_recs_def)
  show "\<forall>rid \<in> set (ot_locked tx). \<not> locked rid" using batch by (auto simp: tx)
  show "ot_rows tx = rows0" "done_recs tx = []" by (simp_all add: tx done_recs_def)
qed

lemma publish_next_ok:
  assumes "tx_steps runs log tx" and "ot_next tx < length (ot_recs tx)" and "publish_next tx log = (r, log')"
  shows "set log \<subseteq> set log'"
    and "\<And>tx'. r = Some tx' \<Longrightarrow> tx' = tx\<lparr>ot_published := True\<rparr> \<and> tx_steps runs log' tx'"
proof -
  have "set log \<subseteq> set log' \<and> (\<forall>tx'. r = Some tx' \<longrightarrow> tx' = tx\<lparr>ot_published := True\<rparr>
      \<and> te_publish (ot_env tx) (ot_next tx) = Acked \<and> rec_message (ot_recs tx ! ot_next tx) \<in> set log')"
    using assms(3) by (cases "te_publish (ot_env tx) (ot_next tx)")
      (auto simp: publish_next_def Publish_def Let_def rec_message_def)
  with assms(1,2) show "set log \<subseteq> set log'"
    and "\<And>tx'. r = Some tx' \<Longrightarrow> tx' = tx\<lparr>ot_published := True\<rparr> \<and> tx_steps runs log' tx'"
    by (auto simp: tx_steps_def done_recs_def)
qed

lemma box_rows_published [simp]: "box_rows t (tx\<lparr>ot_published := b\<rparr>) = box_rows t tx"
  by (simp add: box_rows_def done_recs_def)

text \<open>The write of the next row; the service adds its own rows.\<close>

lemma done_recs_write:
  assumes "tx_steps runs log tx" and "ot_published tx"
  shows "done_recs (tx\<lparr>ot_next := Suc (ot_next tx), ot_published := False, ot_outbox := box, ot_rows := rows\<rparr>)
      = done_recs tx @ [ot_recs tx ! ot_next tx]"
    and "length (done_recs tx) = ot_next tx"
  using assms by (simp_all add: tx_steps_def done_recs_def take_Suc_conv_app_nth)

lemma box_write:
  assumes rows: "box_rows t tx" and prog: "tx_steps runs log tx" and pub: "ot_published tx" and dist: "distinct (map ob_id t)"
    and run: "runs (te_faults (ot_env tx)) (ot_next tx) (ot_recs tx ! ot_next tx)"
    and old_def: "old = map (own_version ob_id (ot_outbox tx)) t"
    and tx'_def: "tx' = tx\<lparr>ot_next := Suc (ot_next tx), ot_published := False,
      ot_outbox := written ob_id old (map (sent_by (te_now (ot_env tx) (ot_next tx)) (ot_recs tx ! ot_next tx)) old) (ot_outbox tx),
      ot_rows := rows'\<rparr>"
  shows "box_rows t tx'" and "tx_steps runs log tx'"
    and "map (own_version ob_id (ot_outbox tx')) t
      = map (sent_by (te_now (ot_env tx) (ot_next tx)) (ot_recs tx ! ot_next tx)) old"
proof -
  let ?h = "sent_by (te_now (ot_env tx) (ot_next tx)) (ot_recs tx ! ot_next tx)"
  note locks = tx_steps_locks [OF prog]
  have mine: "rec_ID (ot_recs tx ! ot_next tx) \<in> set (ot_locked tx)"
    using prog pub locks(1) by (auto simp: tx_steps_def)
  have bb: "ot_outbox tx' = written ob_id old (map ?h old) (ot_outbox tx)"
    and same: "ot_env tx' = ot_env tx" "ot_locked tx' = ot_locked tx" "ot_recs tx' = ot_recs tx"
    by (simp_all add: tx'_def)
  have d: "done_recs tx' = done_recs tx @ [ot_recs tx ! ot_next tx]" unfolding tx'_def by (rule done_recs_write(1) [OF prog pub])
  note upd = written_update [where key = ob_id and g = ?h, OF dist locks(3) ob_id_sent_by, folded old_def, folded bb]
  then show "map (own_version ob_id (ot_outbox tx')) t = map ?h old" .
  have "own_version ob_id (ot_outbox tx') r = ?h (own_version ob_id (ot_outbox tx) r)" if "r \<in> set t" for r
    using upd that unfolding old_def map_map by (auto dest: map_eq_conv [THEN iffD1])
  then show "box_rows t tx'"
    using rows by (simp add: box_rows_def d sent_row_snoc done_recs_write(2) [OF prog pub] same)
  have "rid \<in> set (ot_locked tx)" if r: "ot_outbox tx' rid = Some r" for rid r
    using written_Some [where g = ?h, OF r [unfolded bb old_def] dist locks(3) ob_id_sent_by] mine locks(2)
    by (auto simp: sent_by_def split: if_splits)
  then have "dom (ot_outbox tx') \<subseteq> set (ot_locked tx)" by blast
  then show "tx_steps runs log tx'"
    using prog pub run d keyed_written [OF locks(3)] by (auto simp: tx_steps_def tx'_def less_Suc_eq)
qed

section \<open>Held records\<close>

lemma held_records_pending:
  assumes "box_rows t tx"
  shows "set (ot_recs tx) \<subseteq> outbox_record ` set (pending t)"
proof -
  have "(fetch_pending (te_faults (ot_env tx)) (\<lambda>rid. rid \<notin> set (ot_locked tx)) (length (ot_locked tx)) t
      :: unit go_error + OutboxRecord list) = Inr (ot_recs tx)" using assms by (simp add: box_rows_def)
  from fetch_pending_records [OF this] show ?thesis by (fastforce simp: pending_batch_def dest: in_set_takeD)
qed

lemma sent_row_kept:
  assumes "box_rows t tx" "tx_steps runs log tx" and "distinct (map ob_id t)" and "e \<in> set t" "ob_status e = SENT"
  shows "e \<in> set (map (own_version ob_id (ot_outbox tx)) t)"
proof -
  have "ob_id e \<notin> ob_id ` set (pending t)"
    using distinct_map_eqD [OF assms(3,4)] assms(5) by (fastforce simp: pending_def)
  then have "ob_id e \<notin> set (ot_locked tx)" using assms(1) by (auto simp: box_rows_def)
  then have "own_version ob_id (ot_outbox tx) e = e"
    using tx_steps_locks(2) [OF assms(2)] by (intro own_version_id) blast
  then show ?thesis using assms(4) by force
qed

section \<open>Actions and atomic ticks\<close>

text \<open>
  An atomic tick that is retried publishes records again. What stays the same is the order in which the
  messages are in Kafka for the first time.
\<close>

definition first_seen :: "'a list \<Rightarrow> 'a list" where
  "first_seen log = rev (remdups (rev log))"

lemma set_first_seen [simp]: "set (first_seen log) = set log"
  by (simp add: first_seen_def)

lemma first_seen_set: "first_seen clog = first_seen log \<Longrightarrow> set clog = set log"
  by (metis set_first_seen)

lemma first_seen_snoc: "first_seen (log @ [m]) = (if m \<in> set log then first_seen log else first_seen log @ [m])"
  by (simp add: first_seen_def)

lemma first_seen_again: "set msgs \<subseteq> set log \<Longrightarrow> first_seen (log @ msgs) = first_seen log"
proof (induction msgs rule: rev_induct)
  case (snoc m msgs)
  then show ?case using first_seen_snoc [of "log @ msgs" m] by simp
qed simp

lemma first_seen_new:
  assumes "first_seen clog = first_seen log"
  shows "first_seen (clog @ [m]) = first_seen (log @ [m])"
  using assms first_seen_set [OF assms] by (simp add: first_seen_snoc)

lemma fetch_any_error:
  assumes "(fetch_pending f locked n t :: 'a go_error + OutboxRecord list) = Inr recs"
  shows "(fetch_pending f locked n t :: 'b go_error + OutboxRecord list) = Inr recs"
proof -
  have scan: "(scan_rows scan k rs :: 'a go_error + 'r list) = Inr xs \<Longrightarrow>
      (scan_rows scan k rs :: 'b go_error + 'r list) = Inr xs" for scan k and rs xs :: "'r list"
    by (induction rs arbitrary: k xs) (auto split: option.splits sum.splits)
  show ?thesis using assms by (auto simp: fetch_pending_def split: option.splits sum.splits dest: scan)
qed

locale interleaved_worker =
  fixes outbox_of :: "'db \<Rightarrow> outbox_row list"
    and body :: "db_faults \<Rightarrow> (nat \<Rightarrow> gotime) \<Rightarrow> nat \<Rightarrow> OutboxRecord \<Rightarrow> 'db \<Rightarrow> 's go_error + 'db"
    and runs :: "db_faults \<Rightarrow> nat \<Rightarrow> OutboxRecord \<Rightarrow> bool"
    and effect :: "(nat \<Rightarrow> gotime) \<Rightarrow> nat \<Rightarrow> OutboxRecord list \<Rightarrow> 'db \<Rightarrow> 'db"
  assumes body_runs: "body f tm k rec tx = Inr v \<longleftrightarrow> runs f k rec \<and> v = effect tm k [rec] tx"
    and effect_Nil: "effect tm k [] tx = tx"
    and effect_Cons: "effect tm (Suc k) recs (effect tm k [rec] tx) = effect tm k (rec # recs) tx"
    and cut_short: "\<exists>f'. f_begin f' = f_begin f \<and> f_exec f' 0 = f_exec f 0 \<and> f_scan f' = f_scan f \<and> f_rows f' = f_rows f
      \<and> (\<forall>j < k. \<forall>rec. runs f j rec \<longrightarrow> runs f' j rec) \<and> (\<forall>rec. \<not> runs f' k rec)"
begin

lemma loop_effect:
  "\<forall>j < length recs. pub (k + j) = Acked \<and> runs f (k + j) (recs ! j) \<Longrightarrow>
   publish_loop pub (body f tm) k (recs @ rest) tx log
     = publish_loop pub (body f tm) (k + length recs) rest (effect tm k recs tx) (log @ map rec_message recs)"
proof (induction recs arbitrary: k tx log)
  case (Cons rec recs)
  have "pub k = Acked" and run: "runs f k rec" using Cons.prems by (auto dest: spec [of _ 0])
  moreover have "\<forall>j < length recs. pub (Suc k + j) = Acked \<and> runs f (Suc k + j) (recs ! j)"
    using Cons.prems by (auto dest: spec [of _ "Suc _"])
  moreover have "body f tm k rec tx = Inr (effect tm k [rec] tx)" using run body_runs by blast
  ultimately show ?case using Cons.IH by (simp add: Publish_def rec_message_def effect_Cons)
qed (simp add: effect_Nil)

lemma commit_is_tick:
  assumes rows: "box_rows (outbox_of db) tx" and prog: "tx_steps runs log tx" and last: "ot_next tx = length (ot_recs tx)"
    and com: "commit (f_commit (te_faults (ot_env tx))) db (effect (te_now (ot_env tx)) 0 (done_recs tx) db) = (r, db')"
  shows "process_batch (te_faults (ot_env tx)) (\<lambda>rid. rid \<notin> set (ot_locked tx)) (te_publish (ot_env tx))
      (length (ot_locked tx)) outbox_of (body (te_faults (ot_env tx)) (te_now (ot_env tx))) db clog
    = (r, db', clog @ map rec_message (ot_recs tx))"
proof -
  have all: "done_recs tx = ot_recs tx" using last by (simp add: done_recs_def)
  have "(fetch_pending (te_faults (ot_env tx)) (\<lambda>rid. rid \<notin> set (ot_locked tx)) (length (ot_locked tx))
      (outbox_of db) :: 's go_error + OutboxRecord list) = Inr (ot_recs tx)"
    by (rule fetch_any_error [where 'a = unit]) (use rows in \<open>simp add: box_rows_def\<close>)
  moreover have "publish_loop (te_publish (ot_env tx)) (body (te_faults (ot_env tx)) (te_now (ot_env tx))) 0
      (ot_recs tx) db clog = (Inr (effect (te_now (ot_env tx)) 0 (ot_recs tx) db), clog @ map rec_message (ot_recs tx))"
    using prog last loop_effect [where rest = "[]" and k = 0] by (simp add: tx_steps_def)
  ultimately show ?thesis using com prog by (simp add: process_batch_def tx_steps_def all)
qed

lemma loop_cut_short:
  assumes "\<forall>j < length recs. pub (0 + j) = Acked \<and> runs f (0 + j) (recs ! j)" and "\<not> runs f (length recs) rec"
    and "(Publish (pub (length recs)) (rec_AggregateID rec) (rec_EventType rec) (rec_Payload rec)
      (log @ map rec_message recs) :: 's go_error option \<times> message list) = (p, log')"
  shows "\<exists>e. publish_loop pub (body f tm) 0 (recs @ rec # rest) db log = (Inl e, log')"
proof -
  obtain e where "body f tm (length recs) rec (effect tm 0 recs db) = Inl e"
    using assms(2) body_runs by (cases "body f tm (length recs) rec (effect tm 0 recs db)") blast+
  then show ?thesis using assms(3) loop_effect [OF assms(1), of tm "rec # rest" db log] by (cases p) simp_all
qed

lemma publish_is_failed_tick:
  assumes rows: "box_rows (outbox_of db) tx" and prog: "tx_steps runs log tx" and next_rec: "ot_next tx < length (ot_recs tx)"
    and pub: "publish_next tx log = (r, log')" and same: "first_seen clog = first_seen log"
  obtains f' e clog' where "process_batch f' (\<lambda>rid. rid \<notin> set (ot_locked tx)) (te_publish (ot_env tx))
      (length (ot_locked tx)) outbox_of (body f' (te_now (ot_env tx))) db clog = (Some e, db, clog')"
    "first_seen clog' = first_seen log'"
proof -
  let ?k = "ot_next tx" and ?tm = "te_now (ot_env tx)"
  let ?rec = "ot_recs tx ! ?k" and ?rest = "drop (Suc ?k) (ot_recs tx)"
  obtain f' where f': "f_begin f' = f_begin (te_faults (ot_env tx))" "f_exec f' 0 = f_exec (te_faults (ot_env tx)) 0"
      "f_scan f' = f_scan (te_faults (ot_env tx))" "f_rows f' = f_rows (te_faults (ot_env tx))"
      "\<forall>j < ?k. \<forall>rec. runs (te_faults (ot_env tx)) j rec \<longrightarrow> runs f' j rec" "\<forall>rec. \<not> runs f' ?k rec"
    using cut_short [of "te_faults (ot_env tx)" ?k] by blast
  have recs: "ot_recs tx = done_recs tx @ ?rec # ?rest" and len: "length (done_recs tx) = ?k"
    using next_rec by (simp_all add: done_recs_def id_take_nth_drop [symmetric])
  have runs: "\<forall>j < length (done_recs tx). te_publish (ot_env tx) (0 + j) = Acked \<and> runs f' (0 + j) (done_recs tx ! j)"
    using prog f'(5) by (auto simp: tx_steps_def done_recs_def)
  have "(fetch_pending (te_faults (ot_env tx)) (\<lambda>rid. rid \<notin> set (ot_locked tx)) (length (ot_locked tx)) (outbox_of db)
      :: 's go_error + OutboxRecord list) = Inr (ot_recs tx)"
    by (rule fetch_any_error [where 'a = unit]) (use rows in \<open>simp add: box_rows_def\<close>)
  then have fetch: "(fetch_pending f' (\<lambda>rid. rid \<notin> set (ot_locked tx)) (length (ot_locked tx)) (outbox_of db)
      :: 's go_error + OutboxRecord list) = Inr (ot_recs tx)" unfolding fetch_pending_def f'(2-4) .
  obtain p log1 where p: "(Publish (te_publish (ot_env tx) ?k) (rec_AggregateID ?rec) (rec_EventType ?rec)
      (rec_Payload ?rec) (clog @ map rec_message (done_recs tx)) :: 's go_error option \<times> message list) = (p, log1)"
    by fastforce
  have "\<exists>e. publish_loop (te_publish (ot_env tx)) (body f' ?tm) 0 (ot_recs tx) db clog = (Inl e, log1)"
    by (subst recs, rule loop_cut_short [OF runs]) (use p len f'(6) in simp_all)
  then obtain e where "publish_loop (te_publish (ot_env tx)) (body f' ?tm) 0 (ot_recs tx) db clog = (Inl e, log1)" ..
  with fetch prog f'(1) have "process_batch f' (\<lambda>rid. rid \<notin> set (ot_locked tx)) (te_publish (ot_env tx))
      (length (ot_locked tx)) outbox_of (body f' ?tm) db clog = (Some e, db, log1)"
    by (simp add: process_batch_def tx_steps_def)
  moreover have "rec_message ` set (done_recs tx) \<subseteq> set log" using prog by (simp add: tx_steps_def)
  then have same': "first_seen (clog @ map rec_message (done_recs tx)) = first_seen log"
    using first_seen_again [of "map rec_message (done_recs tx)" clog] first_seen_set [OF same] same by simp
  then have "first_seen log1 = first_seen log'"
    using p pub same' first_seen_new [OF same', of "rec_message ?rec"]
    by (cases "te_publish (ot_env tx) ?k") (auto simp: Publish_def publish_next_def Let_def rec_message_def)
  ultimately show thesis using that by blast
qed

end

text \<open>All the open transactions: each is sound, and no two of them hold the same row.\<close>

definition workers_ok ::
  "('db \<Rightarrow> 'w open_tx \<Rightarrow> bool) \<Rightarrow> (message list \<Rightarrow> 'w open_tx \<Rightarrow> bool) \<Rightarrow> ('w \<Rightarrow> string set)
   \<Rightarrow> 'db \<Rightarrow> message list \<Rightarrow> (nat \<rightharpoonup> 'w open_tx) \<Rightarrow> bool" where
  "workers_ok rows prog touched db log open \<longleftrightarrow> (\<forall>w tx. open w = Some tx \<longrightarrow> rows db tx \<and> prog log tx)
     \<and> (\<forall>w w' tx tx'. open w = Some tx \<longrightarrow> open w' = Some tx' \<longrightarrow> w \<noteq> w' \<longrightarrow>
          set (ot_locked tx) \<inter> set (ot_locked tx') = {} \<and> touched (ot_rows tx) \<inter> touched (ot_rows tx') = {})"

lemma workers_okD:
  assumes "workers_ok rows prog touched db log open" and "open w = Some tx"
  shows "rows db tx" and "prog log tx"
  using assms by (simp_all add: workers_ok_def)

lemma workers_ok_rows:
  assumes "workers_ok rows prog touched db log open" and "\<And>w tx. open w = Some tx \<Longrightarrow> rows db' tx"
  shows "workers_ok rows prog touched db' log open"
  using assms unfolding workers_ok_def by blast

lemma workers_ok_drop: "workers_ok rows prog touched db log open \<Longrightarrow> workers_ok rows prog touched db log (open(w := None))"
  by (simp add: workers_ok_def)

lemma workers_ok_put:
  assumes ok: "workers_ok rows prog touched db log open" and tx: "rows db tx" "prog log tx"
    and others: "\<And>w' tx'. open w' = Some tx' \<Longrightarrow> w' \<noteq> w \<Longrightarrow>
      set (ot_locked tx) \<inter> set (ot_locked tx') = {} \<and> touched (ot_rows tx) \<inter> touched (ot_rows tx') = {}"
  shows "workers_ok rows prog touched db log (open(w \<mapsto> tx))"
proof -
  have "set (ot_locked tx') \<inter> set (ot_locked tx) = {} \<and> touched (ot_rows tx') \<inter> touched (ot_rows tx) = {}"
    if "open w' = Some tx'" "w' \<noteq> w" for w' tx'
    using others [OF that] by blast
  with assms show ?thesis unfolding workers_ok_def by (simp add: fun_upd_def)
qed

text \<open>
  What a service adds: the database as an open transaction sees it, its write, what holds of its own rows
  (\<open>rows\<close>, \<open>own_ok\<close>), and that another worker's commit leaves them alone.
\<close>

locale interleaved_workers = interleaved_worker outbox_of body runs effect
  for outbox_of :: "'db \<Rightarrow> outbox_row list"
    and body :: "db_faults \<Rightarrow> (nat \<Rightarrow> gotime) \<Rightarrow> nat \<Rightarrow> OutboxRecord \<Rightarrow> 'db \<Rightarrow> 's go_error + 'db"
    and runs :: "db_faults \<Rightarrow> nat \<Rightarrow> OutboxRecord \<Rightarrow> bool"
    and effect :: "(nat \<Rightarrow> gotime) \<Rightarrow> nat \<Rightarrow> OutboxRecord list \<Rightarrow> 'db \<Rightarrow> 'db" +
  fixes rows0 :: 'w
    and view :: "'w open_tx \<Rightarrow> 'db \<Rightarrow> 'db"
    and put_rows :: "'w open_tx \<Rightarrow> 'db \<Rightarrow> 'w open_tx option"
    and touched :: "'w \<Rightarrow> string set"
    and rows :: "'db \<Rightarrow> 'w open_tx \<Rightarrow> bool"
    and prog :: "message list \<Rightarrow> 'w open_tx \<Rightarrow> bool"
    and inv :: "'db \<Rightarrow> bool"
  assumes rows_box: "rows db tx \<Longrightarrow> box_rows (outbox_of db) tx"
    and prog_steps: "prog log tx \<Longrightarrow> tx_steps runs log tx"
    and prog_publish: "prog log tx \<Longrightarrow> tx_steps runs log' (tx\<lparr>ot_published := b\<rparr>) \<Longrightarrow> prog log' (tx\<lparr>ot_published := b\<rparr>)"
    and rows_publish: "rows db tx \<Longrightarrow> rows db (tx\<lparr>ot_published := b\<rparr>)"
    and view_effect: "rows db tx \<Longrightarrow> view tx db = effect (te_now (ot_env tx)) 0 (done_recs tx) db"
    and begin_ok: "begin_tick rows0 e locked n (outbox_of db) = Some tx \<Longrightarrow> inv db \<Longrightarrow>
      rows db tx \<and> prog log tx \<and> (\<forall>rid \<in> set (ot_locked tx). \<not> locked rid) \<and> touched (ot_rows tx) = {}"
    and write_ok: "put_rows tx db = Some tx' \<Longrightarrow> rows db tx \<Longrightarrow> prog log tx \<Longrightarrow> ot_published tx \<Longrightarrow> inv db \<Longrightarrow>
      rows db tx' \<and> prog log tx' \<and> ot_locked tx' = ot_locked tx"
    and commit_ok: "rows db tx \<Longrightarrow> prog log tx \<Longrightarrow> prog log other \<Longrightarrow> set (ot_locked other) \<inter> set (ot_locked tx) = {} \<Longrightarrow>
      touched (ot_rows other) \<inter> touched (ot_rows tx) = {} \<Longrightarrow> rows (view other db) tx"
    and view_outbox: "outbox_of (view tx db) = map (own_version ob_id (ot_outbox tx)) (outbox_of db)"
    and inv_ids: "inv db \<Longrightarrow> distinct (map ob_id (outbox_of db))"
begin

abbreviation "action \<equiv> worker_action outbox_of rows0 view put_rows touched"
abbreviation "all_ok \<equiv> workers_ok rows prog touched"

lemma prog_log: "prog log tx \<Longrightarrow> set log \<subseteq> set log' \<Longrightarrow> prog log' tx"
  using prog_publish [of log tx log' "ot_published tx"] tx_steps_log [OF prog_steps] by simp

lemma action_log: "action (db, log, open) (db', log', open') \<Longrightarrow> set log \<subseteq> set log'"
  by (erule worker_action.cases) (auto simp: publish_next_def Publish_def Let_def split: publish_result.splits prod.splits option.splits)

lemma publish_ok:
  assumes ok: "all_ok db log open" and w: "open w = Some tx" and "ot_next tx < length (ot_recs tx)"
    and "publish_next tx log = (r, log')"
  shows "all_ok db log' (open(w := r))"
proof -
  note p = publish_next_ok [OF prog_steps [OF workers_okD(2) [OF ok w]] assms(3,4)]
  have more: "all_ok db log' open" using ok prog_log [OF _ p(1)] unfolding workers_ok_def by blast
  show ?thesis
  proof (cases r)
    case (Some tx')
    note tx' = p(2) [OF Some]
    then have "rows db tx'" "prog log' tx'"
      using rows_publish prog_publish workers_okD [OF ok w] by blast+
    moreover have "set (ot_locked tx') \<inter> set (ot_locked tx2) = {} \<and> touched (ot_rows tx') \<inter> touched (ot_rows tx2) = {}"
      if "open w' = Some tx2" "w' \<noteq> w" for w' tx2
      using that tx' more w unfolding workers_ok_def by simp
    ultimately show ?thesis using workers_ok_put [OF more] Some by blast
  qed (use workers_ok_drop [OF more] in simp)
qed

lemma write_action_ok:
  assumes ok: "all_ok db log open" and w: "open w = Some tx" and "ot_published tx" and "put_rows tx db = Some tx'" and "inv db"
    and free: "\<forall>k \<in> touched (ot_rows tx') - touched (ot_rows tx). \<not> uncommitted touched (open(w := None)) k"
  shows "all_ok db log (open(w \<mapsto> tx'))"
proof -
  note new = write_ok [OF assms(4) workers_okD [OF ok w] assms(3,5)]
  have "set (ot_locked tx') \<inter> set (ot_locked tx2) = {} \<and> touched (ot_rows tx') \<inter> touched (ot_rows tx2) = {}"
    if "open w' = Some tx2" "w' \<noteq> w" for w' tx2
  proof -
    have "tx2 \<in> ran (open(w := None))" using that by (auto simp: ran_def)
    then have "touched (ot_rows tx2) \<inter> (touched (ot_rows tx') - touched (ot_rows tx)) = {}"
      using free by (auto simp: uncommitted_def)
    moreover have "set (ot_locked tx) \<inter> set (ot_locked tx2) = {} \<and> touched (ot_rows tx) \<inter> touched (ot_rows tx2) = {}"
      using that w ok unfolding workers_ok_def by simp
    ultimately show ?thesis using new by auto
  qed
  with new show ?thesis by (intro workers_ok_put [OF ok]) blast+
qed

lemma action_ok:
  assumes "action (db, log, open) (db', log', open')" and ok: "all_ok db log open" and "inv db"
  shows "all_ok db' log' open'"
  using assms(1)
proof (cases rule: worker_action.cases)
  case (tick_begin w e batch tx)
  note new = begin_ok [OF tick_begin(5) assms(3)]
  have "set (ot_locked tx) \<inter> set (ot_locked tx') = {}" if "open w' = Some tx'" for w' tx'
    using new that by (auto simp: selected_def ran_def)
  with new show ?thesis unfolding tick_begin(1-3) by (intro workers_ok_put [OF ok]) auto
next
  case (tick_commit w tx r)
  have "rows (view tx db) tx2" if "open w' = Some tx2" "w' \<noteq> w" for w' tx2
    using that tick_commit(3) ok workers_okD [OF ok] by (intro commit_ok [where log = log]) (auto simp: workers_ok_def)
  then have "rows db' tx2" if "(open(w := None)) w' = Some tx2" for w' tx2
    using commit_atomic [OF tick_commit(5)] that workers_okD(1) [OF ok] by (auto split: if_splits)
  then show ?thesis unfolding tick_commit(1,2) by (rule workers_ok_rows [OF workers_ok_drop [OF ok]])
qed (use ok assms(3) in \<open>simp_all add: publish_ok write_action_ok workers_ok_drop\<close>)

text \<open>An action changes nothing that is committed, or it does what an atomic tick does.\<close>

lemma action_is_tick:
  assumes "action (db, log, open) (db', log', open')" and ok: "all_ok db log open"
    and same: "first_seen clog = first_seen log"
  shows "db' = db \<and> log' = log \<or> (\<exists>f locked pub tm batch r clog'.
      process_batch f locked pub batch outbox_of (body f tm) db clog = (r, db', clog') \<and> first_seen clog' = first_seen log')"
  using assms(1)
proof (cases rule: worker_action.cases)
  case (tick_publish w tx r)
  note mine = workers_okD [OF ok tick_publish(3)]
  from publish_is_failed_tick [OF rows_box [OF mine(1)] prog_steps [OF mine(2)] tick_publish(4,6) same]
  show ?thesis unfolding tick_publish(1) by metis
next
  case (tick_commit w tx r)
  note mine = workers_okD [OF ok tick_commit(3)]
  obtain r' :: "'s go_error option" where "commit (f_commit (te_faults (ot_env tx))) db (view tx db) = (r', db')"
    using tick_commit(5) by (cases "f_commit (te_faults (ot_env tx))") auto
  from commit_is_tick [OF rows_box [OF mine(1)] prog_steps [OF mine(2)] tick_commit(4)
      this [unfolded view_effect [OF mine(1)]], of clog]
  moreover have "rec_message ` set (ot_recs tx) \<subseteq> set log"
    using prog_steps [OF mine(2)] tick_commit(4) by (simp add: tx_steps_def done_recs_def)
  then have "first_seen (clog @ map rec_message (ot_recs tx)) = first_seen log'"
    using first_seen_again [of "map rec_message (ot_recs tx)" clog] first_seen_set [OF same] same tick_commit(1) by simp
  ultimately show ?thesis by blast
qed simp_all

text \<open>The workers exclude each other, and a row marked as sent stays as it is.\<close>

lemma exclusive:
  assumes ok: "all_ok db log open" and "open w = Some tx" "open w' = Some tx'" "w' \<noteq> w"
  shows "rec_ID ` set (ot_recs tx) \<inter> rec_ID ` set (ot_recs tx') = {}"
proof -
  have "set (ot_locked tx) \<inter> set (ot_locked tx') = {}" using ok assms(2-4) unfolding workers_ok_def by metis
  then show ?thesis
    using tx_steps_locks(1) [OF prog_steps [OF workers_okD(2) [OF ok assms(2)]]]
      tx_steps_locks(1) [OF prog_steps [OF workers_okD(2) [OF ok assms(3)]]] by blast
qed

lemma held_pending:
  assumes "all_ok db log open" and "open w = Some tx"
  shows "set (ot_recs tx) \<subseteq> outbox_record ` set (pending (outbox_of db))"
  using held_records_pending [OF rows_box [OF workers_okD(1) [OF assms]]] .

lemma sent_stays:
  assumes "action (db, log, open) (db', log', open')" and ok: "all_ok db log open" and "inv db"
    and "e \<in> set (outbox_of db)" and "ob_status e = SENT"
  shows "e \<in> set (outbox_of db')"
  using assms(1)
proof (cases rule: worker_action.cases)
  case (tick_commit w tx r)
  note mine = workers_okD [OF ok tick_commit(3)]
  have "e \<in> set (outbox_of (view tx db))"
    unfolding view_outbox using sent_row_kept [OF rows_box [OF mine(1)] prog_steps [OF mine(2)] inv_ids [OF assms(3)] assms(4,5)] .
  then show ?thesis using commit_atomic [OF tick_commit(5)] assms(4) by auto
qed (use assms(4) in simp_all)

end

end
