(* ===== verification/Order_Interleaving.thy ===== *)
theory Order_Interleaving
  imports Order_Consumer Outbox_Interleaving
begin

text \<open>
  The outbox workers of order-service step by step (\<open>internal/outbox/worker.go\<close>). In the theory
  of the order database a tick of \<open>processBatch\<close> is one step; here it is the sequence of its
  actions (begin and fetch, one publish, one write, commit), any number of workers run at once, and the
  transactions of the use case and of the consumer come between the actions.

  \<^item> \<open>tx_view\<close>: the database as an open transaction sees it; \<open>write_next\<close>: the write of a
    row and of the order's status.
  \<^item> \<open>worker_sys_step\<close>: the service's transactions and the workers' actions. A status write waits
    for a row with an uncommitted version.
  \<^item> \<open>tx_rows\<close> and \<open>tx_progress\<close>: what holds of an open transaction, on top of what holds of
    its outbox; the contract of the interleaved workers is discharged with them.
  \<^item> \<open>worker_steps_refine\<close>: whatever the order of the actions, the committed tables, the reads and
    the messages are those of a run with atomic ticks, so the theorems on \<open>order_sys\<close> and on
    the systems built from it cover this one; \<open>workers_exclusive\<close>: two workers never hold the
    same record; \<open>result_overtakes_commit\<close>: what follows, from the publication to the commit, from a
    message that is out before its commit.
\<close>

section \<open>The transaction of order-service\<close>

type_synonym order_tx = "(string \<rightharpoonup> order_row) open_tx"

definition tx_view :: "order_tx \<Rightarrow> order_db \<Rightarrow> order_db" where
  "tx_view tx db = db\<lparr>orders := map (own_version or_id (ot_rows tx)) (orders db),
     order_outbox := map (own_version ob_id (ot_outbox tx)) (order_outbox db)\<rparr>"

text \<open>\<open>markSentTx\<close> and \<open>transitionToAwaitingStockTx\<close> for the record just published.\<close>

definition write_next :: "order_tx \<Rightarrow> order_db \<Rightarrow> order_tx option" where
  "write_next tx db =
     (case order_worker_body (te_faults (ot_env tx)) (te_now (ot_env tx)) (ot_next tx)
             (ot_recs tx ! ot_next tx) (tx_view tx db) of
        Inl e \<Rightarrow> None
      | Inr v \<Rightarrow> Some (tx\<lparr>ot_next := Suc (ot_next tx), ot_published := False,
          ot_outbox := written ob_id (order_outbox (tx_view tx db)) (order_outbox v) (ot_outbox tx),
          ot_rows := written or_id (orders (tx_view tx db)) (orders v) (ot_rows tx)\<rparr>))"

section \<open>The system\<close>

record worker_sys =
  ws_db :: order_db
  ws_reads :: "Order list"
  ws_log :: "message list"
  ws_open :: "nat \<rightharpoonup> order_tx"

definition worker_sys_init :: worker_sys where
  "worker_sys_init = \<lparr>ws_db = empty_order_db, ws_reads = [], ws_log = [], ws_open = Map.empty\<rparr>"

abbreviation "order_action \<equiv> worker_action order_outbox (Map.empty :: string \<rightharpoonup> order_row) tx_view write_next dom"

text \<open>
  The use case's own transactions are short and stay atomic; a status write waits for a row with an
  uncommitted version.
\<close>

inductive worker_sys_step :: "worker_sys \<Rightarrow> worker_sys \<Rightarrow> bool" where
  create_order:
    "NewOrder oid cust items t = Inr ord \<Longrightarrow>
     marshal_OrderCreatedEvent (created_event ord) = Some payload \<Longrightarrow>
     rid \<notin> set (map ob_id (order_outbox (ws_db s))) \<Longrightarrow>
     SaveWithEvent f rid now ord EventTypeOrderCreated payload (ws_db s) = (r, db') \<Longrightarrow>
     worker_sys_step s (s\<lparr>ws_db := db'\<rparr>)"
| read_order:
    "GetByID f oid (ws_db s) = Inr ord \<Longrightarrow>
     worker_sys_step s (s\<lparr>ws_reads := ord # ws_reads s\<rparr>)"
| write_status:
    "ord \<in> set (ws_reads s) \<Longrightarrow> TransitionTo ord new t = Inr ord' \<Longrightarrow>
     buildStatusEvent ord' new reason = Inr (ty, payload) \<Longrightarrow>
     rid \<notin> set (map ob_id (order_outbox (ws_db s))) \<Longrightarrow>
     UpdateStatusWithEvent f rid tm ord' ty payload (ws_db s) = (r, db') \<Longrightarrow>
     \<not> (\<exists>row \<in> set (orders (ws_db s)). locked_row ord' row \<and> uncommitted dom (ws_open s) (or_id row)) \<Longrightarrow>
     worker_sys_step s (s\<lparr>ws_db := db'\<rparr>)"
| worker:
    "order_action (ws_db s, ws_log s, ws_open s) (db', log', open') \<Longrightarrow>
     worker_sys_step s (s\<lparr>ws_db := db', ws_log := log', ws_open := open'\<rparr>)"

inductive worker_sys_reachable :: "worker_sys \<Rightarrow> bool" where
  init: "worker_sys_reachable worker_sys_init"
| step: "worker_sys_reachable s \<Longrightarrow> worker_sys_step s s' \<Longrightarrow> worker_sys_reachable s'"

section \<open>What a batch does to the tables\<close>

definition awaiting_by :: "gotime \<Rightarrow> OutboxRecord \<Rightarrow> order_row \<Rightarrow> order_row" where
  "awaiting_by now rec r =
     (if rec_EventType rec = EventTypeOrderCreated \<and> or_id r = rec_AggregateID rec \<and> or_status r = StatusCreated
      then set_status StatusAwaitingStock now r else r)"

fun awaiting_row :: "(nat \<Rightarrow> gotime) \<Rightarrow> nat \<Rightarrow> OutboxRecord list \<Rightarrow> order_row \<Rightarrow> order_row" where
  "awaiting_row tm k [] r = r"
| "awaiting_row tm k (rec # recs) r = awaiting_row tm (Suc k) recs (awaiting_by (tm k) rec r)"

definition batch_effect :: "(nat \<Rightarrow> gotime) \<Rightarrow> nat \<Rightarrow> OutboxRecord list \<Rightarrow> order_db \<Rightarrow> order_db" where
  "batch_effect tm k recs db = db\<lparr>orders := map (awaiting_row tm k recs) (orders db),
     order_outbox := map (sent_row tm k recs) (order_outbox db)\<rparr>"

definition body_runs :: "db_faults \<Rightarrow> nat \<Rightarrow> OutboxRecord \<Rightarrow> bool" where
  "body_runs f k rec \<longleftrightarrow> f_exec f (1 + 2 * k) = None
     \<and> (rec_EventType rec = EventTypeOrderCreated \<longrightarrow> f_exec f (2 + 2 * k) = None)"

lemma or_id_awaiting_by [simp]: "or_id (awaiting_by now rec row) = or_id row"
  by (simp add: awaiting_by_def)

lemma awaiting_row_snoc:
  "awaiting_row tm k (recs @ [rec]) r = awaiting_by (tm (k + length recs)) rec (awaiting_row tm k recs r)"
  by (induction recs arbitrary: k r) simp_all

lemma awaiting_row_other:
  "or_id r \<notin> rec_AggregateID ` set recs \<or> or_status r \<noteq> StatusCreated \<Longrightarrow> awaiting_row tm k recs r = r"
  by (induction recs arbitrary: k) (auto simp: awaiting_by_def)

lemma awaiting_row_single: "awaiting_row tm k [rec] = awaiting_by (tm k) rec"
  by (rule ext) simp

lemma batch_effect_single:
  "batch_effect tm k [rec] tx = (if rec_EventType rec = EventTypeOrderCreated
     then tx\<lparr>orders := update_where (\<lambda>r. or_id r = rec_AggregateID rec \<and> or_status r = StatusCreated)
              (set_status StatusAwaitingStock (tm k)) (orders tx),
            order_outbox := mark_sent (tm k) (rec_ID rec) (order_outbox tx)\<rparr>
     else tx\<lparr>order_outbox := mark_sent (tm k) (rec_ID rec) (order_outbox tx)\<rparr>)"
proof -
  have "map (awaiting_by (tm k) rec) (orders tx) = orders tx" if "rec_EventType rec \<noteq> EventTypeOrderCreated"
    using that by (simp add: awaiting_by_def map_idI)
  then show ?thesis
    by (simp add: batch_effect_def awaiting_row_single sent_row_single mark_sent_by update_where_def awaiting_by_def)
qed

lemma order_worker_body_runs:
  "order_worker_body f tm k rec tx = Inr v \<longleftrightarrow> body_runs f k rec \<and> v = batch_effect tm k [rec] tx"
  by (auto simp: order_worker_body_def markSentTx_def transitionToAwaitingStockTx_def body_runs_def
      batch_effect_single split: option.splits)

section \<open>What holds of an open transaction\<close>

definition tx_progress :: "message list \<Rightarrow> order_tx \<Rightarrow> bool" where
  "tx_progress log tx \<longleftrightarrow> tx_steps body_runs log tx \<and> keyed or_id (ot_rows tx)
     \<and> (\<forall>r \<in> ran (ot_rows tx). or_status r \<noteq> StatusCreated)"

text \<open>Its versions of the orders are what its statements would write on the table of now.\<close>

definition tx_rows :: "order_db \<Rightarrow> order_tx \<Rightarrow> bool" where
  "tx_rows db tx \<longleftrightarrow> box_rows (order_outbox db) tx
     \<and> rec_AggregateID ` set (ot_recs tx) \<subseteq> or_id ` set (orders db)
     \<and> dom (ot_rows tx) \<subseteq> or_id ` set (orders db)
     \<and> (\<forall>r \<in> set (orders db).
          own_version or_id (ot_rows tx) r = awaiting_row (te_now (ot_env tx)) 0 (done_recs tx) r)"

lemma tx_view_effect: "tx_rows db tx \<Longrightarrow> tx_view tx db = batch_effect (te_now (ot_env tx)) 0 (done_recs tx) db"
  by (simp add: tx_rows_def box_rows_def tx_view_def batch_effect_def)

lemma tx_rows_stable:
  assumes tx: "tx_rows db tx" "tx_progress log tx"
    and box: "box_rows (order_outbox db') tx"
    and ids: "or_id ` set (orders db) \<subseteq> or_id ` set (orders db')"
    and ords: "\<And>r. r \<in> set (orders db') \<Longrightarrow> r \<in> set (orders db)
      \<or> or_id r \<notin> dom (ot_rows tx) \<and> (or_status r \<noteq> StatusCreated \<or> or_id r \<notin> rec_AggregateID ` set (ot_recs tx))"
  shows "tx_rows db' tx"
proof -
  have "own_version or_id (ot_rows tx) r = awaiting_row tm 0 (done_recs tx) r"
    if r: "r \<in> set (orders db')" and tm: "tm = te_now (ot_env tx)" for r tm
    using ords [OF r]
  proof
    assume "r \<in> set (orders db)"
    then show ?thesis using tx(1) tm by (simp add: tx_rows_def)
  next
    assume "or_id r \<notin> dom (ot_rows tx)
      \<and> (or_status r \<noteq> StatusCreated \<or> or_id r \<notin> rec_AggregateID ` set (ot_recs tx))"
    moreover from this set_done_recs [of tx] have "awaiting_row tm 0 (done_recs tx) r = r"
      by (intro awaiting_row_other) auto
    ultimately show ?thesis by (simp add: own_version_id domIff)
  qed
  then show ?thesis using tx(1) ids box unfolding tx_rows_def by (metis (no_types, lifting) subset_trans)
qed

section \<open>Each action keeps it\<close>

lemma order_begin_ok:
  assumes "begin_tick Map.empty e locked n (order_outbox db) = Some tx" and inv: "order_inv db"
  shows "tx_rows db tx \<and> tx_progress log tx \<and> (\<forall>rid \<in> set (ot_locked tx). \<not> locked rid) \<and> dom (ot_rows tx) = {}"
proof -
  have "distinct (map ob_id (order_outbox db))" using inv by (simp add: order_inv_def)
  note new = begin_tick_ok [OF assms(1) this]
  have "rec_AggregateID ` set (ot_recs tx) \<subseteq> ob_aggregate ` set (order_outbox db)"
    using held_records_pending [OF new(1)] by (fastforce simp: outbox_record_def pending_def)
  also have "\<dots> \<subseteq> or_id ` set (orders db)" using inv by (auto simp: order_inv_def has_key_def)
  finally show ?thesis using new by (simp add: tx_rows_def tx_progress_def own_version_id)
qed

lemma write_next_Some:
  assumes "write_next tx db = Some tx'"
  obtains g where "g = awaiting_by (te_now (ot_env tx) (ot_next tx)) (ot_recs tx ! ot_next tx)"
    "body_runs (te_faults (ot_env tx)) (ot_next tx) (ot_recs tx ! ot_next tx)"
    "tx' = tx\<lparr>ot_next := Suc (ot_next tx), ot_published := False,
       ot_outbox := written ob_id (map (own_version ob_id (ot_outbox tx)) (order_outbox db))
         (map (sent_by (te_now (ot_env tx) (ot_next tx)) (ot_recs tx ! ot_next tx))
           (map (own_version ob_id (ot_outbox tx)) (order_outbox db))) (ot_outbox tx),
       ot_rows := written or_id (map (own_version or_id (ot_rows tx)) (orders db))
         (map g (map (own_version or_id (ot_rows tx)) (orders db))) (ot_rows tx)\<rparr>"
proof -
  let ?rec = "ot_recs tx ! ot_next tx" and ?tm = "te_now (ot_env tx)"
  obtain v where v: "order_worker_body (te_faults (ot_env tx)) ?tm (ot_next tx) ?rec (tx_view tx db) = Inr v"
    using assms by (auto simp: write_next_def split: sum.splits)
  then have run: "body_runs (te_faults (ot_env tx)) (ot_next tx) ?rec"
    and v_eq: "v = batch_effect ?tm (ot_next tx) [?rec] (tx_view tx db)" by (auto simp: order_worker_body_runs)
  from assms v show thesis
    by (intro that [OF refl run])
      (auto simp: write_next_def v_eq batch_effect_def awaiting_row_single sent_row_single tx_view_def)
qed

lemma order_write_ok:
  assumes w: "write_next tx db = Some tx'" and rows: "tx_rows db tx" and prog: "tx_progress log tx"
    and pub: "ot_published tx" and inv: "order_inv db"
  shows "tx_rows db tx' \<and> tx_progress log tx' \<and> ot_locked tx' = ot_locked tx"
proof -
  let ?rec = "ot_recs tx ! ot_next tx" and ?old = "map (own_version or_id (ot_rows tx)) (orders db)"
  from write_next_Some [OF w] obtain g where g: "g = awaiting_by (te_now (ot_env tx) (ot_next tx)) ?rec"
    and run: "body_runs (te_faults (ot_env tx)) (ot_next tx) ?rec"
    and tx': "tx' = tx\<lparr>ot_next := Suc (ot_next tx), ot_published := False,
       ot_outbox := written ob_id (map (own_version ob_id (ot_outbox tx)) (order_outbox db))
         (map (sent_by (te_now (ot_env tx) (ot_next tx)) ?rec)
           (map (own_version ob_id (ot_outbox tx)) (order_outbox db))) (ot_outbox tx),
       ot_rows := written or_id ?old (map g ?old) (ot_rows tx)\<rparr>" .
  have box: "box_rows (order_outbox db) tx" "tx_steps body_runs log tx" and keyed: "keyed or_id (ot_rows tx)"
    and pk: "distinct (map or_id (orders db))" "distinct (map ob_id (order_outbox db))"
    using rows prog inv by (simp_all add: tx_rows_def tx_progress_def order_inv_def primary_key_def)
  note box' = box_write [where runs = body_runs, OF box pub pk(2) run refl tx']
  have d: "done_recs tx' = done_recs tx @ [?rec]" unfolding tx' by (rule done_recs_write(1) [OF box(2) pub])
  have key: "or_id (g r) = or_id r" for r by (simp add: g)
  have oo: "ot_rows tx' = written or_id ?old (map g ?old) (ot_rows tx)"
    and same: "ot_env tx' = ot_env tx" "ot_locked tx' = ot_locked tx" "ot_recs tx' = ot_recs tx"
    unfolding tx' by (simp_all del: map_map)
  note ords = written_update [where key = or_id and g = g, OF pk(1) keyed key, folded oo]
  have "own_version or_id (ot_rows tx') r = g (own_version or_id (ot_rows tx) r)" if "r \<in> set (orders db)" for r
    using ords that unfolding map_map by (auto dest: map_eq_conv [THEN iffD1])
  moreover have o: "ot_rows tx oid = Some r \<or> oid \<in> or_id ` set (orders db) \<and> or_status r \<noteq> StatusCreated"
    if r: "ot_rows tx' oid = Some r" for oid r
    using written_Some [where g = g, OF r [unfolded oo] pk(1) keyed key]
    by (auto simp: g awaiting_by_def split: if_splits)
  moreover have "dom (ot_rows tx') \<subseteq> or_id ` set (orders db)" using o rows unfolding tx_rows_def by blast
  moreover have "or_status r \<noteq> StatusCreated" if "r \<in> ran (ot_rows tx')" for r
    using that o prog by (fastforce simp: tx_progress_def ran_def)
  ultimately show ?thesis
    using rows box' same keyed_written [OF keyed]
    by (simp add: tx_rows_def tx_progress_def d awaiting_row_snoc done_recs_write(2) [OF box(2) pub] g oo)
qed

text \<open>An insert into the tables, and a status write that waited for its row.\<close>

lemma tx_rows_saved:
  assumes "tx_rows db tx" "tx_progress log tx" and "\<not> has_key or_id (ID ord) (orders db)"
    and rid: "rid \<notin> set (map ob_id (order_outbox db))"
  shows "tx_rows (saved rid now ord ty payload db) tx"
proof (rule tx_rows_stable [OF assms(1,2)])
  show "box_rows (order_outbox (saved rid now ord ty payload db)) tx"
    using assms by (auto simp: saved_def new_outbox_row_def tx_rows_def tx_progress_def intro: box_rows_append)
  fix r assume "r \<in> set (orders (saved rid now ord ty payload db))"
  then show "r \<in> set (orders db) \<or> or_id r \<notin> dom (ot_rows tx)
      \<and> (or_status r \<noteq> StatusCreated \<or> or_id r \<notin> rec_AggregateID ` set (ot_recs tx))"
    using assms(1,3) by (auto simp: saved_def tx_rows_def has_key_def)
qed (auto simp: saved_def)

lemma tx_rows_status_updated:
  assumes "tx_rows db tx" "tx_progress log tx" and new: "Status ord \<noteq> StatusCreated"
    and rid: "rid \<notin> set (map ob_id (order_outbox db))"
    and free: "\<And>row. row \<in> set (orders db) \<Longrightarrow> locked_row ord row \<Longrightarrow> or_id row \<notin> dom (ot_rows tx)"
  shows "tx_rows (status_updated rid tm ord ty payload db) tx"
proof (rule tx_rows_stable [OF assms(1,2)])
  show "box_rows (order_outbox (status_updated rid tm ord ty payload db)) tx"
    using assms by (auto simp: status_updated_def new_outbox_row_def tx_rows_def tx_progress_def intro: box_rows_append)
  have "map or_id (orders (status_updated rid tm ord ty payload db)) = map or_id (orders db)"
    by (simp add: status_updated_def map_key_update_where)
  then show "or_id ` set (orders db) \<subseteq> or_id ` set (orders (status_updated rid tm ord ty payload db))"
    by (metis order_refl set_map)
  fix r assume "r \<in> set (orders (status_updated rid tm ord ty payload db))"
  then show "r \<in> set (orders db) \<or> or_id r \<notin> dom (ot_rows tx)
      \<and> (or_status r \<noteq> StatusCreated \<or> or_id r \<notin> rec_AggregateID ` set (ot_recs tx))"
    using new free by (fastforce simp: status_updated_def update_where_def)
qed

text \<open>The commit of another worker.\<close>

lemma tx_rows_committed:
  assumes "tx_rows db tx" "tx_progress log tx" and other: "tx_progress log other"
    and disj: "set (ot_locked other) \<inter> set (ot_locked tx) = {}" "dom (ot_rows other) \<inter> dom (ot_rows tx) = {}"
  shows "tx_rows (tx_view other db) tx"
proof (rule tx_rows_stable [OF assms(1,2)])
  have keyed: "keyed or_id (ot_rows other)" and st: "\<forall>r \<in> ran (ot_rows other). or_status r \<noteq> StatusCreated"
    and box: "box_rows (order_outbox db) tx" "tx_steps body_runs log tx" "tx_steps body_runs log other"
    using assms(1,2) other by (simp_all add: tx_progress_def tx_rows_def)
  show "box_rows (order_outbox (tx_view other db)) tx"
    using box_rows_committed [OF box disj(1)] by (simp add: tx_view_def)
  show "or_id ` set (orders db) \<subseteq> or_id ` set (orders (tx_view other db))"
    by (simp add: tx_view_def image_image key_own_version [OF keyed])
  fix r assume "r \<in> set (orders (tx_view other db))"
  then obtain r0 where r0: "r0 \<in> set (orders db)" "r = own_version or_id (ot_rows other) r0"
    by (auto simp: tx_view_def)
  show "r \<in> set (orders db) \<or> or_id r \<notin> dom (ot_rows tx)
      \<and> (or_status r \<noteq> StatusCreated \<or> or_id r \<notin> rec_AggregateID ` set (ot_recs tx))"
  proof (cases "ot_rows other (or_id r0)")
    case None
    then show ?thesis using r0 by (simp add: own_version_id)
  next
    case (Some r1)
    then have "r = r1" "or_status r \<noteq> StatusCreated" using r0(2) st by (auto simp: own_version_def intro: ranI)
    moreover have "or_id r1 = or_id r0" using Some keyed by (auto simp: keyed_def)
    ultimately show ?thesis using Some disj(2) by auto
  qed
qed

text \<open>The worker of order-service meets the contract of an interleaved one.\<close>

lemma order_cut_short:
  "\<exists>f'. f_begin f' = f_begin f \<and> f_exec f' 0 = f_exec f 0 \<and> f_scan f' = f_scan f \<and> f_rows f' = f_rows f
     \<and> (\<forall>j < k. \<forall>rec. body_runs f j rec \<longrightarrow> body_runs f' j rec) \<and> (\<forall>rec. \<not> body_runs f' k rec)"
  by (rule exI [of _ "f\<lparr>f_exec := \<lambda>n. if n \<le> 2 * k then f_exec f n else Some ''lost''\<rparr>"]) (auto simp: body_runs_def)

interpretation owi: interleaved_workers order_outbox order_worker_body body_runs batch_effect
  "Map.empty :: string \<rightharpoonup> order_row" tx_view write_next dom tx_rows tx_progress order_inv
proof (unfold_locales, goal_cases)
  case (2 tm k tx)
  show ?case by (simp add: batch_effect_def map_idI)
next
  case (4 f k)
  show ?case by (rule order_cut_short)
next
  case (10 e locked n db tx log)
  then show ?case by (rule order_begin_ok)
next
  case (11 tx db tx' log)
  then show ?case by (rule order_write_ok)
next
  case (9 db tx)
  then show ?case by (rule tx_view_effect)
next
  case (12 db tx log other)
  then show ?case by (rule tx_rows_committed)
qed (simp_all add: order_worker_body_runs batch_effect_def tx_rows_def tx_progress_def tx_view_def order_inv_def
    done_recs_def)

abbreviation "order_workers_ok \<equiv> workers_ok tx_rows tx_progress dom"

section \<open>Every step keeps the invariant and is a step of the atomic system\<close>

lemma worker_sys_step_ok:
  assumes "worker_sys_step s s'" and "order_workers_ok (ws_db s) (ws_log s) (ws_open s)" and "order_inv (ws_db s)"
  shows "order_workers_ok (ws_db s') (ws_log s') (ws_open s')"
  using assms
proof (induction rule: worker_sys_step.induct)
  case (create_order oid cust items t ord payload rid s f now r db')
  note ok = workers_okD [OF create_order.prems(1)]
  from create_order.hyps(4) have "tx_rows db' tx" if "ws_open s w = Some tx" for w tx
    using ok [OF that] create_order.hyps(3) by (cases rule: SaveWithEvent_cases) (auto intro: tx_rows_saved)
  then show ?case by (simp add: workers_ok_rows [OF create_order.prems(1)])
next
  case (write_status ord s new t ord' reason ty payload rid f tm r db')
  note ok = workers_okD [OF write_status.prems(1)]
  have "Status ord' = new" "new \<in> set (allowedTransactions (Status ord))"
    using write_status.hyps(2) by (auto simp: go_simps split: if_splits)
  then have new: "Status ord' \<noteq> StatusCreated" by (cases "Status ord") auto
  from write_status.hyps(5) have "tx_rows db' tx" if "ws_open s w = Some tx" for w tx
  proof (cases rule: UpdateStatusWithEvent_cases)
    case updated
    have "or_id row \<notin> dom (ot_rows tx)" if "row \<in> set (orders (ws_db s))" "locked_row ord' row" for row
      using write_status.hyps(6) that \<open>ws_open s w = Some tx\<close> by (auto simp: uncommitted_def intro: ranI)
    then show ?thesis
      unfolding updated(1) by (intro tx_rows_status_updated [OF ok [OF that] new write_status.hyps(4)])
  qed (use ok [OF that] in simp)
  then show ?case by (simp add: workers_ok_rows [OF write_status.prems(1)])
qed (simp_all add: owi.action_ok)

text \<open>The atomic system's state behind a state of this one: the same tables, reads and messages.\<close>

definition abstracts :: "order_sys \<Rightarrow> worker_sys \<Rightarrow> bool" where
  "abstracts c s \<longleftrightarrow> os_db c = ws_db s \<and> os_reads c = ws_reads s
     \<and> first_seen (os_log c) = first_seen (ws_log s)"

lemma order_tick_processBatch:
  assumes "process_batch f locked pub batch order_outbox (order_worker_body f tm) db log = (r, db', log')"
  obtains gauge' where "order_processBatch f None locked pub tm batch db log gauge = (r, db', log', gauge')"
  using assms that by (cases r) (auto simp: order_processBatch_def)

lemma order_action_is_tick:
  assumes "order_action (db, log, open) (db', log', open')" and "order_workers_ok db log open"
    and "first_seen clog = first_seen log"
  obtains "db' = db" "log' = log"
  | f fq locked pub tm batch gauge r clog' gauge' where
      "order_processBatch f fq locked pub tm batch db clog gauge = (r, db', clog', gauge')"
      "first_seen clog' = first_seen log'"
  using owi.action_is_tick [OF assms] order_tick_processBatch by metis

lemma worker_sys_step_simulated:
  assumes "worker_sys_step s s'" and "order_workers_ok (ws_db s) (ws_log s) (ws_open s)" and "abstracts c s"
  shows "\<exists>c'. (c' = c \<or> order_sys_step c c') \<and> abstracts c' s'"
  using assms
proof (induction rule: worker_sys_step.induct)
  case (create_order oid cust items t ord payload rid s f now r db')
  then have "order_sys_step c (c\<lparr>os_db := db'\<rparr>)"
    by (intro order_sys_step.create_order) (auto simp: abstracts_def)
  then show ?case using create_order.prems by (intro exI [of _ "c\<lparr>os_db := db'\<rparr>"]) (auto simp: abstracts_def)
next
  case (read_order f oid s ord)
  then have "order_sys_step c (c\<lparr>os_reads := ord # os_reads c\<rparr>)"
    by (intro order_sys_step.read_order) (auto simp: abstracts_def)
  then show ?case using read_order.prems by (intro exI [of _ "c\<lparr>os_reads := ord # os_reads c\<rparr>"]) (auto simp: abstracts_def)
next
  case (write_status ord s new t ord' reason ty payload rid f tm r db')
  then have "order_sys_step c (c\<lparr>os_db := db'\<rparr>)"
    by (intro order_sys_step.write_status) (auto simp: abstracts_def)
  then show ?case using write_status.prems by (intro exI [of _ "c\<lparr>os_db := db'\<rparr>"]) (auto simp: abstracts_def)
next
  case (worker s db' log' open')
  have c: "os_db c = ws_db s" "first_seen (os_log c) = first_seen (ws_log s)" using worker.prems(2) by (simp_all add: abstracts_def)
  from worker.hyps worker.prems(1) c(2) show ?case
  proof (cases rule: order_action_is_tick)
    case (2 f fq locked pub tm batch gauge r clog' gauge')
    then have "order_sys_step c (c\<lparr>os_db := db', os_log := clog'\<rparr>)"
      by (intro order_sys_step.worker_tick) (simp add: c(1))
    then show ?thesis
      using worker.prems(2) 2(2) by (intro exI [of _ "c\<lparr>os_db := db', os_log := clog'\<rparr>"]) (simp add: abstracts_def)
  qed (use worker.prems(2) in \<open>auto simp: abstracts_def\<close>)
qed

lemma worker_sys_simulated:
  "worker_sys_reachable s \<Longrightarrow> order_workers_ok (ws_db s) (ws_log s) (ws_open s)
     \<and> (\<exists>c. order_sys_reachable c \<and> abstracts c s)"
proof (induction rule: worker_sys_reachable.induct)
  case init
  have "abstracts order_sys_init worker_sys_init"
    by (simp add: abstracts_def order_sys_init_def worker_sys_init_def)
  then show ?case using order_sys_reachable.init by (auto simp: worker_sys_init_def workers_ok_def)
next
  case (step s s')
  then obtain c where c: "order_sys_reachable c" "abstracts c s"
    and ok: "order_workers_ok (ws_db s) (ws_log s) (ws_open s)" by blast
  have "order_inv (ws_db s)" using reachable_invs [OF c(1)] c(2) by (simp add: abstracts_def)
  with worker_sys_step_ok [OF step.hyps(2) ok] worker_sys_step_simulated [OF step.hyps(2) ok c(2)] c(1)
  show ?case by (metis order_sys_reachable.step)
qed

section \<open>What the workers guarantee\<close>

text \<open>
  Atomic ticks lose nothing: in whatever order the workers fetch, publish,
  write and commit between the other transactions, the committed tables, the reads and the messages
  in Kafka, in the order of their first appearance, are those of a run of the system with atomic ticks. So the
  tables keep the invariant, and every event marked as sent is in Kafka.
\<close>

theorem worker_steps_refine:
  assumes "worker_sys_reachable s"
  shows "(\<exists>c. order_sys_reachable c \<and> os_db c = ws_db s \<and> os_reads c = ws_reads s
        \<and> first_seen (os_log c) = first_seen (ws_log s))
    \<and> order_inv (ws_db s) \<and> sent_published (order_outbox (ws_db s)) (ws_log s)"
proof -
  obtain c where c: "order_sys_reachable c" "abstracts c s" using worker_sys_simulated [OF assms] by blast
  then have "set (os_log c) = set (ws_log s)" by (auto simp: abstracts_def dest: first_seen_set)
  with c show ?thesis
    using reachable_invs [OF c(1)] reachable_published [OF c(1)] by (auto simp: abstracts_def sent_published_def)
qed

lemma reachable_workers_ok:
  "worker_sys_reachable s \<Longrightarrow> order_workers_ok (ws_db s) (ws_log s) (ws_open s)"
  "worker_sys_reachable s \<Longrightarrow> order_inv (ws_db s)"
  using worker_sys_simulated reachable_invs by (fastforce simp: abstracts_def)+

lemma sent_rows_stay:
  assumes "worker_sys_step s s'" and "order_workers_ok (ws_db s) (ws_log s) (ws_open s)" and "order_inv (ws_db s)"
    and "e \<in> set (order_outbox (ws_db s))" and "ob_status e = SENT"
  shows "e \<in> set (order_outbox (ws_db s'))"
  using assms
proof (induction rule: worker_sys_step.induct)
  case (create_order oid cust items t ord payload rid s f now r db')
  from create_order.hyps(4) create_order.prems show ?case by (cases rule: SaveWithEvent_cases) (auto simp: saved_def)
next
  case (write_status ord s new t ord' reason ty payload rid f tm r db')
  from write_status.hyps(5) write_status.prems show ?case
    by (cases rule: UpdateStatusWithEvent_cases) (auto simp: status_updated_def)
qed (simp_all add: owi.sent_stays)

text \<open>
  Property C9 (safety). Workers exclude each other, as \<open>SKIP LOCKED\<close> is there for: two workers
  never hold the same record, every record a worker holds is still pending in the committed table, and a
  row once marked as sent is never written again, so no two commits send the same record.
\<close>

theorem workers_exclusive:
  assumes "worker_sys_reachable s" and "ws_open s w = Some tx"
  shows "(\<forall>w' tx'. ws_open s w' = Some tx' \<and> w' \<noteq> w \<longrightarrow>
        rec_ID ` set (ot_recs tx) \<inter> rec_ID ` set (ot_recs tx') = {})
    \<and> set (ot_recs tx) \<subseteq> outbox_record ` set (pending (order_outbox (ws_db s)))
    \<and> (\<forall>s' e. worker_sys_step s s' \<and> e \<in> set (order_outbox (ws_db s)) \<and> ob_status e = SENT \<longrightarrow>
        e \<in> set (order_outbox (ws_db s')))"
proof (intro conjI allI impI)
  note ok = reachable_workers_ok [OF assms(1)]
  fix w' tx' assume "ws_open s w' = Some tx' \<and> w' \<noteq> w"
  then show "rec_ID ` set (ot_recs tx) \<inter> rec_ID ` set (ot_recs tx') = {}"
    using owi.exclusive [OF ok(1) assms(2)] by blast
next
  show "set (ot_recs tx) \<subseteq> outbox_record ` set (pending (order_outbox (ws_db s)))"
    using owi.held_pending [OF reachable_workers_ok(1) [OF assms(1)] assms(2)] .
next
  fix s' e assume "worker_sys_step s s' \<and> e \<in> set (order_outbox (ws_db s)) \<and> ob_status e = SENT"
  then show "e \<in> set (order_outbox (ws_db s'))"
    using sent_rows_stay reachable_workers_ok [OF assms(1)] by blast
qed

lemma created_result_ignored:
  assumes "primary_key db" and "stored_order db oid = Some (StatusCreated, v)"
  shows "handleReserved (pg_update (calm_attempts rid tm now)) (reserved_message oid) db = (None, db)"
  using handleReserved_applied [OF assms(1), of oid rid tm now] assms(2) by (auto simp: result_applied_def split: prod.splits)

lemma awaiting_row_created:
  assumes "rec \<in> set recs" and "rec_EventType rec = EventTypeOrderCreated"
    and "or_id r = rec_AggregateID rec" and "or_status r = StatusCreated"
  shows "or_status (awaiting_row tm k recs r) = StatusAwaitingStock
    \<and> or_version (awaiting_row tm k recs r) = or_version r + 1"
  using assms
proof (induction recs arbitrary: k)
  case (Cons rec' recs)
  show ?case
  proof (cases "rec_EventType rec' = EventTypeOrderCreated \<and> or_id r = rec_AggregateID rec'")
    case True
    then show ?thesis using Cons.prems(4) by (simp add: awaiting_by_def awaiting_row_other)
  next
    case False
    then have "rec \<in> set recs" "awaiting_by (tm k) rec' r = r" using Cons.prems by (auto simp: awaiting_by_def)
    with Cons show ?thesis by simp
  qed
qed simp

lemma pending_created_row:
  assumes inv: "order_inv db" and rec: "rec \<in> outbox_record ` set (pending (order_outbox db))"
    and created: "rec_EventType rec = EventTypeOrderCreated"
  obtains r where "find_row or_id (rec_AggregateID rec) (orders db) = Some r" "or_id r = rec_AggregateID rec"
    "or_status r = StatusCreated" "or_version r = 1"
proof -
  from rec obtain e where e: "e \<in> set (order_outbox db)" "ob_status e = PENDING" "rec = outbox_record e"
    by (auto simp: pending_def)
  then have "has_key or_id (rec_AggregateID rec) (orders db)"
    using inv by (auto simp: order_inv_def outbox_record_def)
  then obtain r where r: "find_row or_id (rec_AggregateID rec) (orders db) = Some r"
    using find_row_None by (metis not_None_eq)
  note row = find_row_Some [OF r]
  then have "row_inv (order_outbox db) r" using inv by (simp add: order_inv_def)
  moreover have "e \<in> set (box_events (or_id r) EventTypeOrderCreated (order_outbox db))"
    using e created row by (simp add: box_events_def outbox_record_def)
  ultimately have "or_status r = StatusCreated" "or_version r = version_of (or_status r)"
    using e(2) by (auto simp: row_inv_def dest: imageI [of e _ ob_status] simp flip: set_map split: if_splits)
  then show thesis using that [OF r] row by simp
qed

text \<open>The records a worker has published and not yet committed: those already written, and the one it is about to write.\<close>

definition published_recs :: "order_tx \<Rightarrow> OutboxRecord list" where
  "published_recs tx = done_recs tx @ (if ot_published tx then [ot_recs tx ! ot_next tx] else [])"

lemma published_recs_logged:
  assumes "tx_steps runs log tx" and "rec \<in> set (published_recs tx)"
  shows "rec \<in> set (ot_recs tx) \<and> rec_message rec \<in> set log"
  using assms set_done_recs [of tx] by (auto simp: published_recs_def tx_steps_def split: if_splits)

text \<open>An update of a \<open>CREATED\<close> order to a final status is refused after its first read, whatever its writes would meet.\<close>

lemma created_update_refused:
  assumes "at_before at 0 db = db" and "GetByID (at_get at 0) oid db = Inr ord"
    and "stored_order db oid = Some (StatusCreated, v)" and "new \<in> {StatusConfirmed, StatusCancelled}"
  shows "\<exists>e. pg_update at oid new reason db = (Some e, db) \<and> errors_is e ErrInvalidTransition"
proof -
  have "Status ord = StatusCreated" using pg.get_stored [OF assms(2)] assms(3) by simp
  with assms show ?thesis
    by (auto simp: pg_update_def UpdateOrderStatus_def maxRetries_def numeral_3_eq_3 go_simps Let_def)
qed

text \<open>
  Property C37 (error). What is not atomic is the message. While a worker has published
  \<open>order.created\<close> and not yet committed, the message is in Kafka and every other transaction reads the
  order as \<open>CREATED\<close>: a stock result of either kind whose handler reads the order in that window is taken
  for a duplicate, changes nothing and is reported as handled, whatever the faults of its writes. As soon
  as the worker has written, its commit will put the order into \<open>AWAITING_STOCK\<close>, where it waits for a
  result that has been consumed.
\<close>

theorem result_overtakes_commit:
  assumes "worker_sys_reachable s" and "ws_open s w = Some tx"
    and "rec \<in> set (published_recs tx)" and "rec_EventType rec = EventTypeOrderCreated"
    and "at_before at 0 (ws_db s) = ws_db s" and "GetByID (at_get at 0) (rec_AggregateID rec) (ws_db s) = Inr ord"
  shows "rec_message rec \<in> set (ws_log s)
    \<and> stored_order (ws_db s) (rec_AggregateID rec) = Some (StatusCreated, 1)
    \<and> handleReserved (pg_update at) (reserved_message (rec_AggregateID rec)) (ws_db s) = (None, ws_db s)
    \<and> handleFailed (pg_update at) (failed_message (rec_AggregateID rec) reason) (ws_db s) = (None, ws_db s)
    \<and> (rec \<in> set (done_recs tx) \<longrightarrow> stored_order (tx_view tx (ws_db s)) (rec_AggregateID rec) = Some (StatusAwaitingStock, 2))"
proof (intro conjI impI)
  note ok = reachable_workers_ok [OF assms(1)]
  note mine = workers_okD [OF ok(1) assms(2)]
  have rec: "rec \<in> set (ot_recs tx)" and out: "rec_message rec \<in> set (ws_log s)"
    using published_recs_logged [OF _ assms(3)] mine(2) by (auto simp: tx_progress_def)
  obtain r where r: "find_row or_id (rec_AggregateID rec) (orders (ws_db s)) = Some r"
      "or_id r = rec_AggregateID rec" "or_status r = StatusCreated" "or_version r = 1"
    using pending_created_row [OF ok(2) _ assms(4)] owi.held_pending [OF ok(1) assms(2)] rec by blast
  show "rec_message rec \<in> set (ws_log s)" by (rule out)
  show st: "stored_order (ws_db s) (rec_AggregateID rec) = Some (StatusCreated, 1)"
    by (simp add: stored_order_def r)
  note refused = created_update_refused [OF assms(5,6) st]
  show "handleReserved (pg_update at) (reserved_message (rec_AggregateID rec)) (ws_db s) = (None, ws_db s)"
    using refused [of StatusConfirmed "[]"] by (auto simp: handleReserved_message swallow_def)
  show "handleFailed (pg_update at) (failed_message (rec_AggregateID rec) reason) (ws_db s) = (None, ws_db s)"
    using refused [of StatusCancelled reason] by (auto simp: handleFailed_message swallow_def)
  have "or_id (awaiting_row t k recs row) = or_id row" for t k recs row
    by (induction recs arbitrary: k row) simp_all
  then show "stored_order (tx_view tx (ws_db s)) (rec_AggregateID rec) = Some (StatusAwaitingStock, 2)"
    if "rec \<in> set (done_recs tx)"
    using awaiting_row_created [OF that assms(4) r(2,3)] r(4)
    by (simp add: stored_order_def tx_view_effect [OF mine(1)] batch_effect_def find_row_map r(1))
qed

section \<open>A run\<close>

text \<open>
  An order is created; worker 0 fetches its event, publishes it and writes, but has not committed; worker 1
  begins meanwhile and finds nothing.
\<close>

definition sample_record :: OutboxRecord where
  "sample_record = \<lparr>rec_ID = ''r1'', rec_AggregateID = ''o1'', rec_EventType = EventTypeOrderCreated,
     rec_Payload = sample_payload\<rparr>"

definition sample_tx :: "nat \<Rightarrow> bool \<Rightarrow> (string \<rightharpoonup> order_row) \<Rightarrow> (string \<rightharpoonup> outbox_row) \<Rightarrow> order_tx" where
  "sample_tx k published ords box = \<lparr>ot_env = quiet_tick (\<lambda>_. sample_time), ot_locked = [''r1''],
     ot_recs = [sample_record], ot_next = k, ot_published = published, ot_outbox = box, ot_rows = ords\<rparr>"

definition idle_tx :: order_tx where
  "idle_tx = \<lparr>ot_env = quiet_tick (\<lambda>_. sample_time), ot_locked = [], ot_recs = [], ot_next = 0,
     ot_published = False, ot_outbox = Map.empty, ot_rows = Map.empty\<rparr>"

definition sample_window :: "order_tx \<Rightarrow> worker_sys" where
  "sample_window tx = \<lparr>ws_db = os_db sample_created, ws_reads = [], ws_log = [rec_message sample_record],
     ws_open = [0 \<mapsto> tx, 1 \<mapsto> idle_tx]\<rparr>"

lemmas sample_tick = sample_created_def saved_def empty_order_db_def new_outbox_row_def pending_batch_def pending_def
  fetch_pending_def outbox_record_def quiet_tick_def sample_record_def sample_tx_def sample_order_def

lemma sample_begins:
  "begin_tick Map.empty (quiet_tick (\<lambda>_. sample_time)) (selected (Map.empty :: nat \<rightharpoonup> order_tx)) 10
     (order_outbox (os_db sample_created))
   = Some (sample_tx 0 False Map.empty Map.empty)"
  by (simp add: begin_tick_def selected_def sample_tick)

lemma sample_publish_next:
  "publish_next (sample_tx 0 False Map.empty Map.empty) []
   = (Some (sample_tx 0 True Map.empty Map.empty), [rec_message sample_record])"
  by (simp add: publish_next_def Publish_def sample_tick rec_message_def)

lemma sample_writes:
  obtains ords box where "write_next (sample_tx 0 True Map.empty Map.empty) (os_db sample_created) = Some (sample_tx 1 False ords box)"
  by (simp add: write_next_def sample_tx_def quiet_tick_def order_worker_body_def markSentTx_def
      transitionToAwaitingStockTx_def sample_record_def)

lemma sample_window_reachable:
  obtains ords box where "worker_sys_reachable (sample_window (sample_tx 1 False ords box))"
proof -
  let ?db = "os_db sample_created" and ?e = "quiet_tick (\<lambda>_. sample_time)"
  let ?s = "\<lambda>log open. \<lparr>ws_db = ?db, ws_reads = [], ws_log = log, ws_open = open\<rparr>"
  let ?tx = "\<lambda>p. sample_tx 0 p Map.empty Map.empty"
  have created: "worker_sys_step worker_sys_init (?s [] Map.empty)"
    using worker_sys_step.create_order [OF NewOrder_sample marshal_sample, of "''r1''" worker_sys_init no_faults sample_time None]
      save_sample by (simp add: worker_sys_init_def sample_created_def empty_order_db_def)
  have begun: "worker_sys_step (?s [] Map.empty) (?s [] [0 \<mapsto> ?tx False])"
    using sample_begins worker_sys_step.worker [OF worker_action.tick_begin, of "?s [] Map.empty" 0 ?e 10 "?tx False"] by simp
  have "begin_tick Map.empty ?e (selected [0 \<mapsto> ?tx False]) 10 (order_outbox ?db) = Some idle_tx"
    by (simp add: begin_tick_def selected_def sample_tick idle_tx_def)
  then have second: "worker_sys_step (?s [] [0 \<mapsto> ?tx False]) (?s [] [0 \<mapsto> ?tx False, 1 \<mapsto> idle_tx])"
    using worker_sys_step.worker [OF worker_action.tick_begin, of "?s [] [0 \<mapsto> ?tx False]" 1 ?e 10 idle_tx] by simp
  have out: "worker_sys_step (?s [] [0 \<mapsto> ?tx False, 1 \<mapsto> idle_tx])
      (?s [rec_message sample_record] [0 \<mapsto> ?tx True, 1 \<mapsto> idle_tx])"
    using sample_publish_next worker_sys_step.worker [OF worker_action.tick_publish, of "?s [] [0 \<mapsto> ?tx False, 1 \<mapsto> idle_tx]" 0 "?tx False"]
    by (simp add: sample_tx_def fun_upd_twist)
  obtain ords box where w: "write_next (?tx True) ?db = Some (sample_tx 1 False ords box)" using sample_writes .
  have "worker_sys_step (?s [rec_message sample_record] [0 \<mapsto> ?tx True, 1 \<mapsto> idle_tx])
      (?s [rec_message sample_record] [0 \<mapsto> sample_tx 1 False ords box, 1 \<mapsto> idle_tx])"
    using worker_sys_step.worker [OF worker_action.tick_write, of "?s [rec_message sample_record] [0 \<mapsto> ?tx True, 1 \<mapsto> idle_tx]" 0
      "?tx True" "sample_tx 1 False ords box"] w
    by (simp add: uncommitted_def ran_def idle_tx_def sample_tx_def fun_upd_twist)
  then show thesis using that [of ords box] created begun second out worker_sys_reachable.intros
    unfolding sample_window_def by metis
qed

theorem worker_steps_refine_witness:
  "\<exists>s tx. worker_sys_reachable s \<and> ws_open s 0 = Some tx \<and> done_recs tx = [sample_record]
    \<and> ws_log s = [rec_message sample_record] \<and> (\<exists>c. order_sys_reachable c \<and> os_db c = ws_db s)"
proof -
  obtain ords box where r: "worker_sys_reachable (sample_window (sample_tx 1 False ords box))"
    using sample_window_reachable .
  with worker_steps_refine [OF r] show ?thesis
    by (intro exI [of _ "sample_window (sample_tx 1 False ords box)"] exI [of _ "sample_tx 1 False ords box"])
      (auto simp: sample_window_def sample_tx_def done_recs_def)
qed

theorem workers_exclusive_witness:
  "\<exists>s tx. worker_sys_reachable s \<and> ws_open s 0 = Some tx \<and> ws_open s 1 = Some idle_tx
    \<and> ot_recs tx = [sample_record] \<and> sample_record \<in> outbox_record ` set (pending (order_outbox (ws_db s)))
    \<and> rec_ID ` set (ot_recs tx) \<inter> rec_ID ` set (ot_recs idle_tx) = {}"
proof -
  obtain ords box where r: "worker_sys_reachable (sample_window (sample_tx 1 False ords box))"
    using sample_window_reachable .
  have "ws_open (sample_window (sample_tx 1 False ords box)) 0 = Some (sample_tx 1 False ords box)"
    by (simp add: sample_window_def)
  with r workers_exclusive [OF r this] show ?thesis
    by (intro exI [of _ "sample_window (sample_tx 1 False ords box)"] exI [of _ "sample_tx 1 False ords box"])
      (simp add: sample_window_def sample_tx_def idle_tx_def)
qed

theorem result_overtakes_commit_witness:
  "\<exists>s tx. worker_sys_reachable s \<and> ws_open s 0 = Some tx \<and> rec_message sample_record \<in> set (ws_log s)
    \<and> stored_order (ws_db s) ''o1'' = Some (StatusCreated, 1)
    \<and> handleFailed (pg_update (calm_attempts (\<lambda>_. ''r2'') (\<lambda>_ _. sample_time) (\<lambda>_. sample_time)))
        (failed_message ''o1'' ''none left'') (ws_db s) = (None, ws_db s)
    \<and> stored_order (tx_view tx (ws_db s)) ''o1'' = Some (StatusAwaitingStock, 2)"
proof -
  obtain ords box where r: "worker_sys_reachable (sample_window (sample_tx 1 False ords box))"
    using sample_window_reachable .
  let ?s = "sample_window (sample_tx 1 False ords box)" and ?tx = "sample_tx 1 False ords box"
  let ?at = "calm_attempts (\<lambda>_. ''r2'') (\<lambda>_ _. sample_time) (\<lambda>_. sample_time)"
  have o: "ws_open ?s 0 = Some ?tx" by (simp add: sample_window_def)
  have d: "sample_record \<in> set (done_recs ?tx)" by (simp add: sample_tx_def done_recs_def)
  have p: "sample_record \<in> set (published_recs ?tx)" "rec_EventType sample_record = EventTypeOrderCreated"
    "rec_AggregateID sample_record = ''o1''"
    using d by (simp_all add: published_recs_def sample_record_def)
  have at: "at_before ?at 0 (ws_db ?s) = ws_db ?s" by (simp add: calm_attempts_def)
  obtain ord where g: "GetByID (at_get ?at 0) (rec_AggregateID sample_record) (ws_db ?s) = Inr ord"
    by (simp add: calm_attempts_def GetByID_no_faults sample_window_def p(3) sample_created_def saved_def empty_order_db_def
        find_row_Cons sample_order_def)
  from result_overtakes_commit [OF r o p(1,2) at g, of "''none left''"] r o d p(3) show ?thesis
    by (intro exI [of _ ?s] exI [of _ ?tx]) simp
qed

end
