(* ===== verification/Inventory_Interleaving.thy ===== *)
theory Inventory_Interleaving
  imports Inventory_System Outbox_Interleaving
begin

text \<open>
  The outbox workers of inventory-service step by step (\<open>internal/outbox/worker.go\<close>), between the
  reservations and the recorded failures. Unlike those of order-service they write nothing but the
  outbox, so an open transaction has no versions of other rows (\<open>ot_rows\<close> is \<open>unit\<close>) and no
  other transaction waits for it.

  \<^item> \<open>inv_tx_view\<close>, \<open>inv_write_next\<close>: the database as an open transaction sees it, and its write.
  \<^item> \<open>stock_sys_step\<close>: the service's transactions and the workers' actions. A commit adds to the
    databases that a reservation's check may have seen.
  \<^item> \<open>stock_steps_refine\<close>: a run is one of \<open>inv_sys\<close>, whose ticks are atomic;
    \<open>stock_workers_exclusive\<close>: no two workers hold the same record.
\<close>

section \<open>The transaction of inventory-service\<close>

type_synonym inv_tx = "unit open_tx"

definition inv_tx_view :: "inv_tx \<Rightarrow> inv_db \<Rightarrow> inv_db" where
  "inv_tx_view tx db = db\<lparr>inv_outbox := map (own_version ob_id (ot_outbox tx)) (inv_outbox db)\<rparr>"

text \<open>\<open>markSentTx\<close> for the record just published.\<close>

definition inv_write_next :: "inv_tx \<Rightarrow> inv_db \<Rightarrow> inv_tx option" where
  "inv_write_next tx db =
     (case inv_worker_body (te_faults (ot_env tx)) (te_now (ot_env tx)) (ot_next tx)
             (ot_recs tx ! ot_next tx) (inv_tx_view tx db) of
        Inl e \<Rightarrow> None
      | Inr v \<Rightarrow> Some (tx\<lparr>ot_next := Suc (ot_next tx), ot_published := False,
          ot_outbox := written ob_id (inv_outbox (inv_tx_view tx db)) (inv_outbox v) (ot_outbox tx)\<rparr>))"

section \<open>The system\<close>

record stock_sys =
  ss_db :: inv_db
  ss_past :: "inv_db list"
  ss_log :: "message list"
  ss_ledger :: "(string \<times> ReservationItem list) list"
  ss_open :: "nat \<rightharpoonup> inv_tx"

definition stock_sys_init :: "stock_row list \<Rightarrow> stock_sys" where
  "stock_sys_init stock0 = \<lparr>ss_db = \<lparr>stock = stock0, processed = [], inv_outbox = []\<rparr>,
     ss_past = [], ss_log = [], ss_ledger = [], ss_open = Map.empty\<rparr>"

abbreviation "stock_action \<equiv> worker_action inv_outbox () inv_tx_view inv_write_next (\<lambda>_. {})"

inductive stock_sys_step :: "stock_sys \<Rightarrow> stock_sys \<Rightarrow> bool" where
  reserve_order:
    "old \<in> set (ss_db s # ss_past s) \<Longrightarrow>
     rid \<notin> set (map ob_id (inv_outbox (ss_db s))) \<Longrightarrow>
     ReserveAll f (\<lambda>_. ss_db s) rid now oid items old = Returns (r, db') \<Longrightarrow>
     db' \<noteq> old \<Longrightarrow> db' \<noteq> ss_db s \<Longrightarrow>
     stock_sys_step s (s\<lparr>ss_db := db', ss_past := ss_db s # ss_past s, ss_ledger := ss_ledger s @ [(oid, items)]\<rparr>)"
| record_failure:
    "rid \<notin> set (map ob_id (inv_outbox (ss_db s))) \<Longrightarrow>
     RecordFailure f rid now oid reason (ss_db s) = (r, db') \<Longrightarrow>
     stock_sys_step s (s\<lparr>ss_db := db', ss_past := ss_db s # ss_past s\<rparr>)"
| worker:
    "stock_action (ss_db s, ss_log s, ss_open s) (db', log', open') \<Longrightarrow>
     stock_sys_step s (s\<lparr>ss_db := db', ss_past := ss_db s # ss_past s, ss_log := log', ss_open := open'\<rparr>)"

inductive stock_sys_reachable :: "stock_row list \<Rightarrow> stock_sys \<Rightarrow> bool" for stock0 where
  init: "stock_sys_reachable stock0 (stock_sys_init stock0)"
| step: "stock_sys_reachable stock0 s \<Longrightarrow> stock_sys_step s s' \<Longrightarrow> stock_sys_reachable stock0 s'"

section \<open>The contract of the interleaved workers\<close>

definition inv_body_runs :: "db_faults \<Rightarrow> nat \<Rightarrow> OutboxRecord \<Rightarrow> bool" where
  "inv_body_runs f k rec \<longleftrightarrow> f_exec f (1 + k) = None"

definition inv_batch_effect :: "(nat \<Rightarrow> gotime) \<Rightarrow> nat \<Rightarrow> OutboxRecord list \<Rightarrow> inv_db \<Rightarrow> inv_db" where
  "inv_batch_effect tm k recs db = db\<lparr>inv_outbox := map (sent_row tm k recs) (inv_outbox db)\<rparr>"

lemma inv_worker_body_runs:
  "inv_worker_body f tm k rec tx = Inr v \<longleftrightarrow> inv_body_runs f k rec \<and> v = inv_batch_effect tm k [rec] tx"
  by (auto simp: inv_worker_body_def inv_markSentTx_def inv_body_runs_def inv_batch_effect_def sent_row_single
      mark_sent_by split: option.splits)

lemma inv_cut_short:
  "\<exists>f'. f_begin f' = f_begin f \<and> f_exec f' 0 = f_exec f 0 \<and> f_scan f' = f_scan f \<and> f_rows f' = f_rows f
     \<and> (\<forall>j < k. \<forall>rec. inv_body_runs f j rec \<longrightarrow> inv_body_runs f' j rec) \<and> (\<forall>rec. \<not> inv_body_runs f' k rec)"
  by (rule exI [of _ "f\<lparr>f_exec := \<lambda>n. if n \<le> k then f_exec f n else Some ''lost''\<rparr>"]) (auto simp: inv_body_runs_def)

definition inv_tx_rows :: "inv_db \<Rightarrow> inv_tx \<Rightarrow> bool" where
  "inv_tx_rows db = box_rows (inv_outbox db)"

definition event_ids_distinct :: "inv_db \<Rightarrow> bool" where
  "event_ids_distinct db \<longleftrightarrow> distinct (map ob_id (inv_outbox db))"

lemma inv_tx_view_effect:
  "inv_tx_rows db tx \<Longrightarrow> inv_tx_view tx db = inv_batch_effect (te_now (ot_env tx)) 0 (done_recs tx) db"
  by (simp add: inv_tx_rows_def box_rows_def inv_tx_view_def inv_batch_effect_def)

lemma inv_write_ok:
  assumes w: "inv_write_next tx db = Some tx'" and rows: "inv_tx_rows db tx" and prog: "tx_steps inv_body_runs log tx"
    and pub: "ot_published tx" and inv: "event_ids_distinct db"
  shows "inv_tx_rows db tx' \<and> tx_steps inv_body_runs log tx' \<and> ot_locked tx' = ot_locked tx"
proof -
  let ?rec = "ot_recs tx ! ot_next tx" and ?tm = "te_now (ot_env tx)"
  obtain v where v: "inv_worker_body (te_faults (ot_env tx)) ?tm (ot_next tx) ?rec (inv_tx_view tx db) = Inr v"
    using w by (auto simp: inv_write_next_def split: sum.splits)
  then have run: "inv_body_runs (te_faults (ot_env tx)) (ot_next tx) ?rec"
    and v_eq: "v = inv_batch_effect ?tm (ot_next tx) [?rec] (inv_tx_view tx db)" by (auto simp: inv_worker_body_runs)
  have "tx' = tx\<lparr>ot_next := Suc (ot_next tx), ot_published := False,
     ot_outbox := written ob_id (map (own_version ob_id (ot_outbox tx)) (inv_outbox db))
       (map (sent_by (?tm (ot_next tx)) ?rec) (map (own_version ob_id (ot_outbox tx)) (inv_outbox db))) (ot_outbox tx),
     ot_rows := ()\<rparr>"
    using w v by (auto simp: inv_write_next_def v_eq inv_batch_effect_def sent_row_single inv_tx_view_def)
  from box_write [where runs = inv_body_runs, OF rows [unfolded inv_tx_rows_def] prog pub _ run refl this] this inv
  show ?thesis by (simp add: event_ids_distinct_def inv_tx_rows_def)
qed

interpretation iwi: interleaved_workers inv_outbox inv_worker_body inv_body_runs inv_batch_effect
  "()" inv_tx_view inv_write_next "\<lambda>_. {}" inv_tx_rows "tx_steps inv_body_runs" event_ids_distinct
proof (unfold_locales, goal_cases)
  case (4 f k)
  show ?case by (rule inv_cut_short)
next
  case (9 db tx)
  then show ?case by (rule inv_tx_view_effect)
next
  case (10 e locked n db tx log)
  then show ?case using begin_tick_ok [OF 10(1)] by (simp add: event_ids_distinct_def inv_tx_rows_def)
next
  case (11 tx db tx' log)
  then show ?case by (rule inv_write_ok)
next
  case (12 db tx log other)
  then show ?case by (simp add: inv_tx_rows_def inv_tx_view_def box_rows_committed [where log = log])
qed (simp_all add: inv_worker_body_runs inv_batch_effect_def inv_tx_rows_def inv_tx_view_def event_ids_distinct_def
    map_idI)

abbreviation "stock_workers_ok \<equiv> workers_ok inv_tx_rows (tx_steps inv_body_runs) (\<lambda>_. {})"

section \<open>Every step keeps the invariant and is a step of the atomic system\<close>

definition stock_abstracts :: "inv_sys \<Rightarrow> stock_sys \<Rightarrow> bool" where
  "stock_abstracts c s \<longleftrightarrow> iv_db c = ss_db s \<and> set (ss_past s) \<subseteq> set (iv_past c) \<union> {iv_db c}
     \<and> first_seen (iv_log c) = first_seen (ss_log s) \<and> iv_ledger c = ss_ledger s"

lemma inv_tx_rows_append:
  assumes "inv_tx_rows db tx" "tx_steps inv_body_runs log tx" and "inv_outbox db' = inv_outbox db @ [row]"
    and "ob_id row \<notin> set (map ob_id (inv_outbox db))"
  shows "inv_tx_rows db' tx"
  using assms box_rows_append [where log = log] by (simp add: inv_tx_rows_def)

lemma stock_sys_step_ok:
  assumes "stock_sys_step s s'" and "stock_workers_ok (ss_db s) (ss_log s) (ss_open s)"
    and "event_ids_distinct (ss_db s)" and "stock_ok (ss_db s)"
  shows "stock_workers_ok (ss_db s') (ss_log s') (ss_open s')"
  using assms
proof (induction rule: stock_sys_step.induct)
  case (reserve_order old s rid f now oid items r db')
  note ok = workers_okD [OF reserve_order.prems(1)]
  from reserve_order.hyps(3) reserve_order.prems(3) have "inv_tx_rows db' tx" if "ss_open s w = Some tx" for w tx
  proof (cases rule: ReserveAll_cases)
    case reserved
    show ?thesis
      by (rule inv_tx_rows_append [OF ok [OF that]]) (use reserved reserve_order.hyps(2) in \<open>auto simp: reserved_db_def new_outbox_row_def\<close>)
  qed (use reserve_order.hyps(4,5) in simp)
  then show ?case by (simp add: workers_ok_rows [OF reserve_order.prems(1)])
next
  case (record_failure rid s f now oid reason r db')
  note ok = workers_okD [OF record_failure.prems(1)]
  from record_failure.hyps(2) have "inv_tx_rows db' tx" if "ss_open s w = Some tx" for w tx
  proof (cases rule: RecordFailure_cases)
    case recorded
    show ?thesis
      by (rule inv_tx_rows_append [OF ok [OF that]]) (use recorded record_failure.hyps(1) in \<open>auto simp: new_outbox_row_def\<close>)
  qed (use ok [OF that] in simp)
  then show ?case by (simp add: workers_ok_rows [OF record_failure.prems(1)])
qed (simp_all add: iwi.action_ok)

lemma stock_sys_step_simulated:
  assumes "stock_sys_step s s'" and "stock_workers_ok (ss_db s) (ss_log s) (ss_open s)" and "stock_abstracts c s"
  shows "\<exists>c'. (c' = c \<or> inv_sys_step c c') \<and> stock_abstracts c' s'"
  using assms
proof (induction rule: stock_sys_step.induct)
  case (reserve_order old s rid f now oid items r db')
  have "old \<in> set (iv_db c # iv_past c)" using reserve_order.hyps(1) reserve_order.prems(2) by (auto simp: stock_abstracts_def)
  then have "inv_sys_step c (c\<lparr>iv_db := db', iv_past := iv_db c # iv_past c, iv_ledger := iv_ledger c @ [(oid, items)]\<rparr>)"
    by (rule inv_sys_step.reserve_order) (use reserve_order in \<open>simp_all add: stock_abstracts_def\<close>)
  with reserve_order.prems(2) show ?case
    by (intro exI [of _ "c\<lparr>iv_db := db', iv_past := iv_db c # iv_past c, iv_ledger := iv_ledger c @ [(oid, items)]\<rparr>"])
      (auto simp: stock_abstracts_def)
next
  case (record_failure rid s f now oid reason r db')
  then have "inv_sys_step c (c\<lparr>iv_db := db', iv_past := iv_db c # iv_past c\<rparr>)"
    by (intro inv_sys_step.record_failure) (auto simp: stock_abstracts_def)
  with record_failure.prems(2) show ?case
    by (intro exI [of _ "c\<lparr>iv_db := db', iv_past := iv_db c # iv_past c\<rparr>"]) (auto simp: stock_abstracts_def)
next
  case (worker s db' log' open')
  have c: "iv_db c = ss_db s" "first_seen (iv_log c) = first_seen (ss_log s)" using worker.prems(2) by (simp_all add: stock_abstracts_def)
  from iwi.action_is_tick [OF worker.hyps worker.prems(1) c(2)]
  consider "db' = ss_db s" "log' = ss_log s"
    | f locked pub tm batch r clog' where
      "process_batch f locked pub batch inv_outbox (inv_worker_body f tm) (ss_db s) (iv_log c) = (r, db', clog')"
      "first_seen clog' = first_seen log'" by blast
  then show ?case
  proof cases
    case 2
    then have "inv_sys_step c (c\<lparr>iv_db := db', iv_past := iv_db c # iv_past c, iv_log := clog'\<rparr>)"
      by (intro inv_sys_step.worker_tick) (simp add: c(1) inv_processBatch_def)
    with worker.prems(2) 2(2) show ?thesis
      by (intro exI [of _ "c\<lparr>iv_db := db', iv_past := iv_db c # iv_past c, iv_log := clog'\<rparr>"]) (auto simp: stock_abstracts_def)
  qed (use worker.prems(2) in \<open>auto simp: stock_abstracts_def\<close>)
qed

lemma stock_sys_simulated:
  assumes "stock_sys_reachable stock0 s" and "stock_ok (ss_db (stock_sys_init stock0))"
  shows "stock_workers_ok (ss_db s) (ss_log s) (ss_open s) \<and> (\<exists>c. inv_sys_reachable stock0 c \<and> stock_abstracts c s)"
  using assms
proof (induction rule: stock_sys_reachable.induct)
  case init
  have "stock_abstracts (inv_sys_init stock0) (stock_sys_init stock0)"
    by (simp add: stock_abstracts_def inv_sys_init_def stock_sys_init_def)
  then show ?case using inv_sys_reachable.init by (auto simp: stock_sys_init_def workers_ok_def)
next
  case (step s s')
  then obtain c where c: "inv_sys_reachable stock0 c" "stock_abstracts c s"
    and ok: "stock_workers_ok (ss_db s) (ss_log s) (ss_open s)" by blast
  have "inv_inv stock0 c" using reachable_inv_inv [OF c(1)] step.prems by (simp add: inv_sys_init_def stock_sys_init_def)
  then have "event_ids_distinct (ss_db s)" "stock_ok (ss_db s)"
    using c(2) by (simp_all add: inv_inv_def event_ids_distinct_def stock_abstracts_def)
  with stock_sys_step_ok [OF step.hyps(2) ok] stock_sys_step_simulated [OF step.hyps(2) ok c(2)] c(1)
  show ?case by (metis inv_sys_reachable.step)
qed

section \<open>What the workers guarantee\<close>

text \<open>
  Property C11 (refinement). The outbox workers of inventory-service, whatever the order of their
  fetches, publishes, writes and commits among each other and between the reservations and recorded
  failures, leave the stock, the processed events, the outbox, the ledger and the messages (in the order of
  their first appearance) of a run with atomic ticks: the ledger still accounts for every row of the stock,
  and what is marked as sent is in Kafka. Two workers never hold the same record.
\<close>

theorem stock_steps_refine:
  assumes "stock_sys_reachable stock0 s" and "stock_ok (ss_db (stock_sys_init stock0))"
  shows "(\<exists>c. inv_sys_reachable stock0 c \<and> iv_db c = ss_db s \<and> iv_ledger c = ss_ledger s
        \<and> first_seen (iv_log c) = first_seen (ss_log s))
    \<and> list_all2 (\<lambda>r0 r. accounts_for r0 (ss_ledger s) r) stock0 (stock (ss_db s))
    \<and> sent_published (inv_outbox (ss_db s)) (ss_log s)
    \<and> (\<forall>w w' tx tx'. ss_open s w = Some tx \<and> ss_open s w' = Some tx' \<and> w' \<noteq> w \<longrightarrow>
        rec_ID ` set (ot_recs tx) \<inter> rec_ID ` set (ot_recs tx') = {})"
proof -
  obtain c where c: "inv_sys_reachable stock0 c" "stock_abstracts c s"
    and ok: "stock_workers_ok (ss_db s) (ss_log s) (ss_open s)" using stock_sys_simulated [OF assms] by blast
  have "inv_inv stock0 c" using reachable_inv_inv [OF c(1)] assms(2) by (simp add: inv_sys_init_def stock_sys_init_def)
  then have "list_all2 (\<lambda>r0 r. accounts_for r0 (ss_ledger s) r) stock0 (stock (ss_db s))"
    "sent_published (inv_outbox (ss_db s)) (ss_log s)"
    using c(2) by (auto simp: inv_inv_def stock_abstracts_def sent_published_def dest!: first_seen_set)
  moreover have "\<exists>c. inv_sys_reachable stock0 c \<and> iv_db c = ss_db s \<and> iv_ledger c = ss_ledger s
      \<and> first_seen (iv_log c) = first_seen (ss_log s)" using c by (auto simp: stock_abstracts_def)
  ultimately show ?thesis using iwi.exclusive [OF ok] by blast
qed

section \<open>A run\<close>

text \<open>
  An order is reserved; worker 0 fetches its answer, publishes it and writes, but has not committed; worker
  1 begins meanwhile and finds nothing.
\<close>

definition sample_answer :: OutboxRecord where
  "sample_answer = \<lparr>rec_ID = ''r1'', rec_AggregateID = ''o1'', rec_EventType = EventTypeStockReserved,
     rec_Payload = marshal_StockReservedEvent ''o1''\<rparr>"

definition sample_inv_tx :: "nat \<Rightarrow> bool \<Rightarrow> (string \<rightharpoonup> outbox_row) \<Rightarrow> inv_tx" where
  "sample_inv_tx k published box = \<lparr>ot_env = quiet_tick (\<lambda>_. GoTime 2024 1 1 0 0 0 0), ot_locked = [''r1''],
     ot_recs = [sample_answer], ot_next = k, ot_published = published, ot_outbox = box, ot_rows = ()\<rparr>"

definition idle_inv_tx :: inv_tx where
  "idle_inv_tx = \<lparr>ot_env = quiet_tick (\<lambda>_. GoTime 2024 1 1 0 0 0 0), ot_locked = [], ot_recs = [], ot_next = 0,
     ot_published = False, ot_outbox = Map.empty, ot_rows = ()\<rparr>"

lemma sample_stock_window:
  obtains s box where "stock_sys_reachable (stock sample_stock) s" "ss_db s = iv_db sample_reserved"
    "ss_ledger s = [(''o1'', sample_reservation)]" "ss_log s = [rec_message sample_answer]"
    "ss_open s = [0 \<mapsto> sample_inv_tx 1 False box, 1 \<mapsto> idle_inv_tx]"
proof -
  let ?t = "GoTime 2024 1 1 0 0 0 0"
  let ?e = "quiet_tick (\<lambda>_. ?t)" and ?start = "stock_sys_init (stock sample_stock)" and ?db = "iv_db sample_reserved"
  let ?s = "\<lambda>past log open. \<lparr>ss_db = ?db, ss_past = past, ss_log = log, ss_ledger = [(''o1'', sample_reservation)], ss_open = open\<rparr>"
  let ?tx = "\<lambda>p. sample_inv_tx 0 p Map.empty"
  note sample = sample_reserved_def reserved_db_def sample_stock_def new_outbox_row_def pending_batch_def pending_def
    fetch_pending_def outbox_record_def quiet_tick_def sample_answer_def sample_inv_tx_def
  have s0: "ss_db ?start = sample_stock" by (simp add: stock_sys_init_def sample_stock_def)
  have "ReserveAll no_faults (\<lambda>db. db) ''r1'' ?t ''o1'' sample_reservation sample_stock
      = Returns (None, reserved_db ''r1'' ?t ''o1'' sample_reservation sample_stock)"
    by (rule ReserveAll_fits) (simp_all add: sample_stock_ok)
  then have res: "ReserveAll no_faults (\<lambda>_. ss_db ?start) ''r1'' ?t ''o1'' sample_reservation sample_stock = Returns (None, ?db)"
    by (simp add: s0 ReserveAll_def sample_reserved_def)
  have ne: "?db \<noteq> sample_stock" by (simp add: sample)
  have fresh: "''r1'' \<notin> set (map ob_id (inv_outbox (ss_db ?start)))" by (simp add: stock_sys_init_def)
  have 1: "stock_sys_step ?start (?s [sample_stock] [] Map.empty)"
    using stock_sys_step.reserve_order [OF _ fresh res] ne s0 by (simp add: stock_sys_init_def sample_stock_def)
  have "begin_tick () ?e (selected Map.empty) 10 (inv_outbox ?db) = Some (?tx False)"
    by (simp add: begin_tick_def selected_def sample)
  then have 2: "stock_sys_step (?s [sample_stock] [] Map.empty) (?s [?db, sample_stock] [] [0 \<mapsto> ?tx False])"
    using stock_sys_step.worker [OF worker_action.tick_begin, of "?s [sample_stock] [] Map.empty" 0 ?e 10 "?tx False"] by simp
  have "begin_tick () ?e (selected [0 \<mapsto> ?tx False]) 10 (inv_outbox ?db) = Some idle_inv_tx"
    by (simp add: begin_tick_def selected_def sample idle_inv_tx_def)
  then have 3: "stock_sys_step (?s [?db, sample_stock] [] [0 \<mapsto> ?tx False])
      (?s [?db, ?db, sample_stock] [] [0 \<mapsto> ?tx False, 1 \<mapsto> idle_inv_tx])"
    using stock_sys_step.worker [OF worker_action.tick_begin, of "?s [?db, sample_stock] [] [0 \<mapsto> ?tx False]" 1 ?e 10 idle_inv_tx]
    by simp
  have "publish_next (?tx False) [] = (Some (?tx True), [rec_message sample_answer])"
    by (simp add: publish_next_def Publish_def sample rec_message_def)
  then have 4: "stock_sys_step (?s [?db, ?db, sample_stock] [] [0 \<mapsto> ?tx False, 1 \<mapsto> idle_inv_tx])
      (?s [?db, ?db, ?db, sample_stock] [rec_message sample_answer] [0 \<mapsto> ?tx True, 1 \<mapsto> idle_inv_tx])"
    using stock_sys_step.worker [OF worker_action.tick_publish,
        of "?s [?db, ?db, sample_stock] [] [0 \<mapsto> ?tx False, 1 \<mapsto> idle_inv_tx]" 0 "?tx False"]
    by (simp add: sample_inv_tx_def fun_upd_twist)
  obtain box where w: "inv_write_next (?tx True) ?db = Some (sample_inv_tx 1 False box)"
    by (simp add: inv_write_next_def sample_inv_tx_def quiet_tick_def inv_worker_body_def inv_markSentTx_def)
  have 5: "stock_sys_step (?s [?db, ?db, ?db, sample_stock] [rec_message sample_answer] [0 \<mapsto> ?tx True, 1 \<mapsto> idle_inv_tx])
      (?s [?db, ?db, ?db, ?db, sample_stock] [rec_message sample_answer] [0 \<mapsto> sample_inv_tx 1 False box, 1 \<mapsto> idle_inv_tx])"
    using stock_sys_step.worker [OF worker_action.tick_write,
        of "?s [?db, ?db, ?db, sample_stock] [rec_message sample_answer] [0 \<mapsto> ?tx True, 1 \<mapsto> idle_inv_tx]" 0
          "?tx True" "sample_inv_tx 1 False box"] w
    by (simp add: sample_inv_tx_def fun_upd_twist)
  have "stock_sys_reachable (stock sample_stock)
      (?s [?db, ?db, ?db, ?db, sample_stock] [rec_message sample_answer] [0 \<mapsto> sample_inv_tx 1 False box, 1 \<mapsto> idle_inv_tx])"
    by (intro stock_sys_reachable.step [OF _ 5] stock_sys_reachable.step [OF _ 4] stock_sys_reachable.step [OF _ 3]
        stock_sys_reachable.step [OF _ 2] stock_sys_reachable.step [OF _ 1] stock_sys_reachable.init)
  then show thesis by (rule that) simp_all
qed

theorem stock_steps_refine_witness:
  "\<exists>s tx. stock_sys_reachable (stock sample_stock) s \<and> ss_open s 0 = Some tx \<and> ot_recs tx = [sample_answer]
    \<and> ss_log s = [rec_message sample_answer] \<and> (\<exists>c. inv_sys_reachable (stock sample_stock) c \<and> iv_db c = ss_db s)
    \<and> rec_ID ` set (ot_recs tx) \<inter> rec_ID ` set (ot_recs idle_inv_tx) = {}"
proof -
  obtain s box where s: "stock_sys_reachable (stock sample_stock) s" "ss_log s = [rec_message sample_answer]"
    "ss_open s = [0 \<mapsto> sample_inv_tx 1 False box, 1 \<mapsto> idle_inv_tx]" using sample_stock_window .
  have "stock_ok (ss_db (stock_sys_init (stock sample_stock)))"
    using sample_stock_ok by (simp add: stock_sys_init_def stock_ok_def sample_stock_def)
  from stock_steps_refine [OF s(1) this] s show ?thesis
    by (intro exI [of _ s] exI [of _ "sample_inv_tx 1 False box"]) (auto simp: sample_inv_tx_def idle_inv_tx_def)
qed

end
