(* ===== verification/Market_Interleaving.thy ===== *)
theory Market_Interleaving
  imports Saga_Causality Order_Interleaving Inventory_Interleaving
begin

text \<open>
  The services as one system with the outbox workers of both services taken apart: any number of workers
  fetch, publish, write and commit between each other's actions, the requests, the consumers and
  notification-service. A consumer may read a message from the moment it is published, before the
  transaction that sent it commits.

  \<^item> \<open>run_step\<close>: the transactions of \<open>market_step\<close> and the workers' actions. A step is one of
    \<open>worker_sys\<close>, of \<open>stock_sys\<close> or of notification-service.
  \<^item> \<open>marketplace_steps_refine\<close>: a run is one of the joint system with atomic ticks, so what holds
    of the tables, the ledger and the customers there holds here.
  \<^item> \<open>interleaved_services_agree\<close>: the agreement of the services and the causality of the messages,
    on the states of this system.
\<close>

section \<open>The system\<close>

record market_run =
  mr_orders :: worker_sys
  mr_stock :: stock_sys
  mr_notif :: notif_state

definition market_run_init :: "stock_row list \<Rightarrow> market_run" where
  "market_run_init stock0 = \<lparr>mr_orders = worker_sys_init, mr_stock = stock_sys_init stock0, mr_notif = empty_notif_state\<rparr>"

inductive run_step :: "market_run \<Rightarrow> market_run \<Rightarrow> bool" where
  new_order:
    "NewOrder oid cust items t = Inr ord \<Longrightarrow>
     marshal_OrderCreatedEvent (created_event ord) = Some payload \<Longrightarrow>
     rid \<notin> set (map ob_id (order_outbox (ws_db (mr_orders s)))) \<Longrightarrow>
     SaveWithEvent f rid now ord EventTypeOrderCreated payload (ws_db (mr_orders s)) = (r, db') \<Longrightarrow>
     run_step s (s\<lparr>mr_orders := (mr_orders s)\<lparr>ws_db := db'\<rparr>\<rparr>)"
| take_order:
    "GetByID f oid (ws_db (mr_orders s)) = Inr ord \<Longrightarrow>
     run_step s (s\<lparr>mr_orders := (mr_orders s)\<lparr>ws_reads := ord # ws_reads (mr_orders s)\<rparr>\<rparr>)"
| apply_result:
    "m \<in> set (ss_log (mr_stock s)) \<Longrightarrow> stock_result m = Some (oid, new, reason) \<Longrightarrow>
     ord \<in> set (ws_reads (mr_orders s)) \<Longrightarrow> ID ord = oid \<Longrightarrow> TransitionTo ord new t = Inr ord' \<Longrightarrow>
     buildStatusEvent ord' new reason = Inr (ty, payload) \<Longrightarrow>
     rid \<notin> set (map ob_id (order_outbox (ws_db (mr_orders s)))) \<Longrightarrow>
     UpdateStatusWithEvent f rid tm ord' ty payload (ws_db (mr_orders s)) = (r, db') \<Longrightarrow>
     \<not> (\<exists>row \<in> set (orders (ws_db (mr_orders s))). locked_row ord' row
          \<and> uncommitted dom (ws_open (mr_orders s)) (or_id row)) \<Longrightarrow>
     run_step s (s\<lparr>mr_orders := (mr_orders s)\<lparr>ws_db := db'\<rparr>\<rparr>)"
| order_worker:
    "order_action (ws_db (mr_orders s), ws_log (mr_orders s), ws_open (mr_orders s)) (db', log', open') \<Longrightarrow>
     run_step s (s\<lparr>mr_orders := (mr_orders s)\<lparr>ws_db := db', ws_log := log', ws_open := open'\<rparr>\<rparr>)"
| reserve_stock:
    "m \<in> set (ws_log (mr_orders s)) \<Longrightarrow> created_order m = Some event \<Longrightarrow>
     old \<in> set (ss_db (mr_stock s) # ss_past (mr_stock s)) \<Longrightarrow>
     rid \<notin> set (map ob_id (inv_outbox (ss_db (mr_stock s)))) \<Longrightarrow>
     ReserveAll f (\<lambda>_. ss_db (mr_stock s)) rid now (ic_OrderID event) (reservation_items event) old
       = Returns (r, db') \<Longrightarrow>
     db' \<noteq> old \<Longrightarrow> db' \<noteq> ss_db (mr_stock s) \<Longrightarrow>
     run_step s (s\<lparr>mr_stock := (mr_stock s)\<lparr>ss_db := db', ss_past := ss_db (mr_stock s) # ss_past (mr_stock s),
       ss_ledger := ss_ledger (mr_stock s) @ [(ic_OrderID event, reservation_items event)]\<rparr>\<rparr>)"
| refuse_stock:
    "m \<in> set (ws_log (mr_orders s)) \<Longrightarrow> created_order m = Some event \<Longrightarrow>
     rid \<notin> set (map ob_id (inv_outbox (ss_db (mr_stock s)))) \<Longrightarrow>
     RecordFailure f rid now (ic_OrderID event) reason (ss_db (mr_stock s)) = (r, db') \<Longrightarrow>
     run_step s (s\<lparr>mr_stock := (mr_stock s)\<lparr>ss_db := db', ss_past := ss_db (mr_stock s) # ss_past (mr_stock s)\<rparr>\<rparr>)"
| stock_worker:
    "stock_action (ss_db (mr_stock s), ss_log (mr_stock s), ss_open (mr_stock s)) (db', log', open') \<Longrightarrow>
     run_step s (s\<lparr>mr_stock := (mr_stock s)\<lparr>ss_db := db', ss_past := ss_db (mr_stock s) # ss_past (mr_stock s),
       ss_log := log', ss_open := open'\<rparr>\<rparr>)"
| notify_customer:
    "m \<in> set (ws_log (mr_orders s)) \<Longrightarrow>
     notif_handleMessage (Notify (MarkProcessedAndNotify f)) (msg_topic m) m (mr_notif s, counts) = (r, st', counts') \<Longrightarrow>
     run_step s (s\<lparr>mr_notif := st'\<rparr>)"

inductive run_reachable :: "stock_row list \<Rightarrow> market_run \<Rightarrow> bool" for stock0 where
  init: "run_reachable stock0 (market_run_init stock0)"
| step: "run_reachable stock0 s \<Longrightarrow> run_step s s' \<Longrightarrow> run_reachable stock0 s'"

section \<open>Steps of the run are steps of the components\<close>

lemma run_step_orders: "run_step s s' \<Longrightarrow> mr_orders s' = mr_orders s \<or> worker_sys_step (mr_orders s) (mr_orders s')"
proof (induction rule: run_step.induct)
  case (new_order oid cust items t ord payload rid s f now r db')
  from worker_sys_step.create_order [OF new_order] show ?case by simp
next
  case (apply_result m s oid new reason ord t ord' ty payload rid f tm r db')
  from worker_sys_step.write_status [OF apply_result(3,5-9)] show ?case by simp
qed (auto intro: worker_sys_step.intros)

lemma run_step_stock: "run_step s s' \<Longrightarrow> mr_stock s' = mr_stock s \<or> stock_sys_step (mr_stock s) (mr_stock s')"
proof (induction rule: run_step.induct)
  case (reserve_stock m s event old rid f now r db')
  from stock_sys_step.reserve_order [OF reserve_stock(3-7)] show ?case by simp
next
  case (refuse_stock m s event rid f now reason r db')
  from stock_sys_step.record_failure [OF refuse_stock(3,4)] show ?case by simp
qed (auto intro: stock_sys_step.worker)

lemma run_orders_reachable: "run_reachable stock0 s \<Longrightarrow> worker_sys_reachable (mr_orders s)"
proof (induction rule: run_reachable.induct)
  case init
  show ?case by (simp add: market_run_init_def worker_sys_reachable.init)
next
  case (step s s')
  then show ?case using run_step_orders [OF step.hyps(2)] by (auto intro: worker_sys_reachable.step)
qed

lemma run_stock_reachable: "run_reachable stock0 s \<Longrightarrow> stock_sys_reachable stock0 (mr_stock s)"
proof (induction rule: run_reachable.induct)
  case init
  show ?case by (simp add: market_run_init_def stock_sys_reachable.init)
next
  case (step s s')
  then show ?case using run_step_stock [OF step.hyps(2)] by (auto intro: stock_sys_reachable.step)
qed

section \<open>A run is one of the joint system\<close>

definition run_abstracts :: "market \<Rightarrow> market_run \<Rightarrow> bool" where
  "run_abstracts c s \<longleftrightarrow> abstracts (mk_orders c) (mr_orders s) \<and> stock_abstracts (mk_stock c) (mr_stock s)
     \<and> mk_notif c = mr_notif s"

lemma run_abstracts_same:
  assumes "run_abstracts c s"
  shows "os_db (mk_orders c) = ws_db (mr_orders s)" and "os_reads (mk_orders c) = ws_reads (mr_orders s)"
    and "set (os_log (mk_orders c)) = set (ws_log (mr_orders s))"
    and "first_seen (os_log (mk_orders c)) = first_seen (ws_log (mr_orders s))"
    and "iv_db (mk_stock c) = ss_db (mr_stock s)" and "iv_ledger (mk_stock c) = ss_ledger (mr_stock s)"
    and "set (iv_log (mk_stock c)) = set (ss_log (mr_stock s))"
    and "first_seen (iv_log (mk_stock c)) = first_seen (ss_log (mr_stock s))"
    and "set (ss_db (mr_stock s) # ss_past (mr_stock s)) \<subseteq> set (iv_db (mk_stock c) # iv_past (mk_stock c))"
    and "mk_notif c = mr_notif s"
  using assms by (auto simp: run_abstracts_def abstracts_def stock_abstracts_def dest: first_seen_set)

text \<open>The states after the steps that order-service or inventory-service takes.\<close>

lemma run_abstracts_orders:
  assumes "run_abstracts c s" and "first_seen log = first_seen log'"
  shows "run_abstracts (c\<lparr>mk_orders := (mk_orders c)\<lparr>os_db := db, os_log := log\<rparr>\<rparr>)
    (s\<lparr>mr_orders := (mr_orders s)\<lparr>ws_db := db, ws_log := log', ws_open := open'\<rparr>\<rparr>)"
  using assms by (simp add: run_abstracts_def abstracts_def)

lemma run_abstracts_order_db:
  assumes "run_abstracts c s"
  shows "run_abstracts (c\<lparr>mk_orders := (mk_orders c)\<lparr>os_db := db\<rparr>\<rparr>) (s\<lparr>mr_orders := (mr_orders s)\<lparr>ws_db := db\<rparr>\<rparr>)"
  using assms by (simp add: run_abstracts_def abstracts_def)

lemma run_step_simulated:
  assumes "run_step s s'" and "order_workers_ok (ws_db (mr_orders s)) (ws_log (mr_orders s)) (ws_open (mr_orders s))"
    and "stock_workers_ok (ss_db (mr_stock s)) (ss_log (mr_stock s)) (ss_open (mr_stock s))" and "run_abstracts c s"
  shows "\<exists>c'. (c' = c \<or> market_step c c') \<and> run_abstracts c' s'"
  using assms(1)
proof cases
  note same = run_abstracts_same [OF assms(4)]
  {
    case (new_order oid cust items t ord payload rid f now r db')
    from market_step.new_order [of oid cust items t ord payload rid c f now r db'] new_order
      run_abstracts_order_db [OF assms(4), of db'] show ?thesis
      unfolding same by blast
  next
    case (take_order f oid ord)
    from market_step.take_order [of f oid c ord] take_order assms(4) show ?thesis
      unfolding same by (auto simp: run_abstracts_def abstracts_def)
  next
    case (apply_result m oid new reason ord t ord' ty payload rid f tm r db')
    from market_step.apply_result [of m c oid new reason ord t ord' ty payload rid f tm r db'] apply_result
      run_abstracts_order_db [OF assms(4), of db'] show ?thesis
      unfolding same by blast
  next
    case (order_worker db' log' open')
    from order_worker(2) assms(2) same(4) show ?thesis
    proof (cases rule: order_action_is_tick)
      case 1
      then show ?thesis using assms(4) by (auto simp: order_worker(1) run_abstracts_def abstracts_def)
    next
      case (2 f fq locked pub tm batch gauge r clog' gauge')
      from market_step.order_tick [of f fq locked pub tm batch c gauge r db' clog' gauge'] 2(1)
        run_abstracts_orders [OF assms(4) 2(2), of db' open'] show ?thesis
        unfolding same order_worker(1) by blast
    qed
  next
    case (reserve_stock m event old rid f now r db')
    have "old \<in> set (iv_db (mk_stock c) # iv_past (mk_stock c))" using reserve_stock(4) same(9) by blast
    with market_step.reserve_stock [of m c event old rid f now r db'] reserve_stock same
    have "market_step c (c\<lparr>mk_stock := (mk_stock c)\<lparr>iv_db := db', iv_past := iv_db (mk_stock c) # iv_past (mk_stock c),
       iv_ledger := iv_ledger (mk_stock c) @ [(ic_OrderID event, reservation_items event)]\<rparr>\<rparr>)" by simp
    then show ?thesis
      using assms(4) by (intro exI conjI disjI2) (assumption, auto simp: reserve_stock(1) run_abstracts_def stock_abstracts_def)
  next
    case (refuse_stock m event rid f now reason r db')
    with market_step.refuse_stock [of m c event rid f now reason r db'] same
    have "market_step c (c\<lparr>mk_stock := (mk_stock c)\<lparr>iv_db := db', iv_past := iv_db (mk_stock c) # iv_past (mk_stock c)\<rparr>\<rparr>)"
      by simp
    then show ?thesis
      using assms(4) by (intro exI conjI disjI2) (assumption, auto simp: refuse_stock(1) run_abstracts_def stock_abstracts_def)
  next
    case (stock_worker db' log' open')
    from iwi.action_is_tick [OF stock_worker(2) assms(3) same(8)]
    consider "db' = ss_db (mr_stock s)" "log' = ss_log (mr_stock s)"
      | f locked pub tm batch r clog' where
        "inv_processBatch f locked pub tm batch (iv_db (mk_stock c)) (iv_log (mk_stock c)) = (r, db', clog')"
        "first_seen clog' = first_seen log'" unfolding inv_processBatch_def same by blast
    then show ?thesis
    proof cases
      case 1
      then show ?thesis using assms(4) by (auto simp: stock_worker(1) run_abstracts_def stock_abstracts_def)
    next
      case (2 f locked pub tm batch r clog')
      from market_step.stock_tick [OF 2(1)] show ?thesis
        using assms(4) 2(2) by (intro exI conjI disjI2) (assumption, auto simp: stock_worker(1) run_abstracts_def stock_abstracts_def)
    qed
  next
    case (notify_customer m f counts r st' counts')
    with market_step.notify_customer [of m c f counts r st' counts'] same
    have "market_step c (c\<lparr>mk_notif := st'\<rparr>)" by simp
    then show ?thesis
      using assms(4) by (intro exI conjI disjI2) (assumption, simp add: notify_customer(1) run_abstracts_def)
  }
qed

lemma run_simulated:
  assumes "run_reachable stock0 s" and "stock_ok (iv_db (inv_sys_init stock0))"
  shows "\<exists>c. market_reachable stock0 c \<and> run_abstracts c s"
  using assms(1)
proof (induction rule: run_reachable.induct)
  case init
  have "run_abstracts (market_init stock0) (market_run_init stock0)"
    by (simp add: run_abstracts_def abstracts_def stock_abstracts_def market_init_def market_run_init_def
        order_sys_init_def worker_sys_init_def inv_sys_init_def stock_sys_init_def)
  then show ?case using market_reachable.init by blast
next
  case (step s s')
  have "stock_ok (ss_db (stock_sys_init stock0))" using assms(2) by (simp add: inv_sys_init_def stock_sys_init_def)
  note ok = reachable_workers_ok(1) [OF run_orders_reachable [OF step.hyps(1)]]
    stock_sys_simulated [OF run_stock_reachable [OF step.hyps(1)] this, THEN conjunct1]
  from step.IH obtain c where "market_reachable stock0 c" "run_abstracts c s" by blast
  with run_step_simulated [OF step.hyps(2) ok] show ?case by (metis market_reachable.step)
qed

section \<open>The order of the messages\<close>

lemma created_first_snoc:
  "created_first (log @ [m]) \<longleftrightarrow> created_first log
     \<and> (msg_topic m = EventTypeOrderConfirmed \<or> msg_topic m = EventTypeOrderCancelled \<longrightarrow>
        (\<exists>c \<in> set log. msg_topic c = EventTypeOrderCreated \<and> msg_key c = msg_key m))"
proof
  assume first: "created_first (log @ [m])"
  have "created_first log"
    unfolding created_first_def
  proof (intro allI impI)
    fix i assume "i < length log"
      "msg_topic (log ! i) = EventTypeOrderConfirmed \<or> msg_topic (log ! i) = EventTypeOrderCancelled"
    with first [unfolded created_first_def, rule_format, of i]
    show "\<exists>j < i. msg_topic (log ! j) = EventTypeOrderCreated \<and> msg_key (log ! j) = msg_key (log ! i)"
      by (auto simp: nth_append)
  qed
  moreover have "\<exists>c \<in> set log. msg_topic c = EventTypeOrderCreated \<and> msg_key c = msg_key m"
    if "msg_topic m = EventTypeOrderConfirmed \<or> msg_topic m = EventTypeOrderCancelled"
    using first [unfolded created_first_def, rule_format, of "length log"] that by (auto simp: nth_append)
  ultimately show "created_first log
     \<and> (msg_topic m = EventTypeOrderConfirmed \<or> msg_topic m = EventTypeOrderCancelled \<longrightarrow>
        (\<exists>c \<in> set log. msg_topic c = EventTypeOrderCreated \<and> msg_key c = msg_key m))" by blast
qed (intro created_first_append; auto)

text \<open>A message that is there again changes nothing, so only the first appearances count.\<close>

lemma created_first_seen: "created_first (first_seen log) = created_first log"
proof (induction log rule: rev_induct)
  case (snoc m log)
  have "\<exists>c \<in> set log. msg_topic c = EventTypeOrderCreated \<and> msg_key c = msg_key m"
    if first: "created_first log" and m: "m \<in> set log"
      "msg_topic m = EventTypeOrderConfirmed \<or> msg_topic m = EventTypeOrderCancelled"
  proof -
    obtain i where i: "i < length log" "log ! i = m" using m(1) by (auto simp: in_set_conv_nth)
    with first m(2) obtain j where "j < i" "msg_topic (log ! j) = EventTypeOrderCreated" "msg_key (log ! j) = msg_key m"
      unfolding created_first_def by blast
    with i(1) show ?thesis by (intro bexI [of _ "log ! j"]) auto
  qed
  with snoc show ?case by (auto simp: first_seen_snoc created_first_snoc)
qed (simp add: first_seen_def)

section \<open>Guarantees\<close>

text \<open>
  Property C2 (refinement). A tick need not be atomic. In whatever order the outbox workers of both
  services, any number of them, fetch, publish, write and commit between each other's actions and between
  the requests, the consumers and the notifications, with every failure at every point: both databases,
  the reads in flight, the ledger, the inbox, the lines sent and the messages in Kafka (in the order of
  their first appearance) are those of a run of the joint system in which every tick is one step.
\<close>

theorem marketplace_steps_refine:
  assumes "run_reachable stock0 s" and "stock_ok (iv_db (inv_sys_init stock0))"
  shows "\<exists>c. market_reachable stock0 c
    \<and> os_db (mk_orders c) = ws_db (mr_orders s) \<and> os_reads (mk_orders c) = ws_reads (mr_orders s)
    \<and> iv_db (mk_stock c) = ss_db (mr_stock s) \<and> iv_ledger (mk_stock c) = ss_ledger (mr_stock s)
    \<and> first_seen (os_log (mk_orders c)) = first_seen (ws_log (mr_orders s))
    \<and> first_seen (iv_log (mk_stock c)) = first_seen (ss_log (mr_stock s))
    \<and> mk_notif c = mr_notif s"
proof -
  obtain c where c: "market_reachable stock0 c" "run_abstracts c s" using run_simulated [OF assms] by blast
  with run_abstracts_same [OF c(2)] show ?thesis by (intro exI [of _ c]) simp
qed

text \<open>
  Property C1 (safety). The services agree although a message is read before its sender commits: a
  confirmed order is reserved with exactly its lines, a cancelled one was refused, nothing is reserved but
  the lines of a stored order, the confirmed orders ask for no more than there was at the start, and a
  customer who was told that an order is confirmed or cancelled has such an order.
\<close>

theorem interleaved_services_agree:
  assumes "run_reachable stock0 s" and "stock_ok (iv_db (inv_sys_init stock0))"
  shows "(\<forall>oid v. stored_order (ws_db (mr_orders s)) oid = Some (StatusConfirmed, v)
        \<longrightarrow> (oid, order_lines oid (ws_db (mr_orders s))) \<in> set (ss_ledger (mr_stock s)))
    \<and> (\<forall>oid v. stored_order (ws_db (mr_orders s)) oid = Some (StatusCancelled, v)
        \<longrightarrow> (\<exists>reason. failed_message oid reason \<in> row_message ` set (inv_outbox (ss_db (mr_stock s)))))
    \<and> (\<forall>(oid, items) \<in> set (ss_ledger (mr_stock s)). has_key or_id oid (orders (ws_db (mr_orders s)))
        \<and> items = order_lines oid (ws_db (mr_orders s)))
    \<and> (\<forall>r0 \<in> set stock0. confirmed_total (ws_db (mr_orders s)) (sr_sku r0) \<le> sr_available r0)
    \<and> (\<forall>l \<in> set (sent_lines (mr_notif s)). \<forall>st.
        nl_event l = EventTypeOrderConfirmed \<and> st = StatusConfirmed \<or> nl_event l = EventTypeOrderCancelled \<and> st = StatusCancelled
        \<longrightarrow> (\<exists>v. stored_order (ws_db (mr_orders s)) (nl_order l) = Some (st, v)))"
proof -
  obtain c where c: "market_reachable stock0 c" "run_abstracts c s" using run_simulated [OF assms] by blast
  note same = run_abstracts_same [OF c(2)]
  note inv = reachable_inv_inv [OF market_stock_reachable [OF c(1)] assms(2)]
  have oinv: "order_inv (os_db (mk_orders c))" using reachable_invs [OF market_orders_reachable [OF c(1)]] by blast
  have agr: "agreement (mk_orders c) (mk_stock c)" and told: "told_truly (mk_orders c) (mk_notif c)"
    using reachable_market_inv [OF c(1) assms(2)] by (simp_all add: market_inv_def)
  have "confirmed_total (os_db (mk_orders c)) (sr_sku r0) \<le> sr_available r0" if "r0 \<in> set stock0" for r0
    using confirmed_total_le [OF agr _ inv, of "sr_sku r0"] ledger_covered [OF inv that] oinv by (simp add: order_inv_def)
  moreover have "\<exists>v. stored_order (os_db (mk_orders c)) (nl_order l) = Some (st, v)"
    if l: "l \<in> set (sent_lines (mk_notif c))" "nl_event l = EventTypeOrderConfirmed \<and> st = StatusConfirmed
      \<or> nl_event l = EventTypeOrderCancelled \<and> st = StatusCancelled" for l st
  proof -
    obtain m where "m \<in> order_messages (mk_orders c)" "msg_topic m = nl_event l" "msg_key m = nl_order l"
      using told l(1) unfolding told_truly_def line_told_def by blast
    then show ?thesis using final_message_status [OF oinv, of m st] l(2) by (simp add: order_messages_def)
  qed
  ultimately show ?thesis
    using confirmed_in_ledger [OF agr] agr unfolding agreement_def stock_messages_def same by blast
qed

text \<open>
  Property C5 (safety). No effect is in Kafka without its cause, between the actions of the workers
  too: only published orders are answered, a confirmation or cancellation follows a published answer (with
  its reason), and the end of an order is never announced before its beginning.
\<close>

theorem interleaved_causality:
  assumes "run_reachable stock0 s" and "stock_ok (iv_db (inv_sys_init stock0))"
  shows "(\<forall>m \<in> set (ss_log (mr_stock s)). \<exists>c \<in> set (ws_log (mr_orders s)).
        msg_topic c = EventTypeOrderCreated \<and> msg_key c = msg_key m)
    \<and> (\<forall>m \<in> set (ws_log (mr_orders s)). answered_in (ss_log (mr_stock s)) m)
    \<and> created_first (ws_log (mr_orders s))"
proof -
  obtain c where c: "market_reachable stock0 c" "run_abstracts c s" using run_simulated [OF assms] by blast
  note same = run_abstracts_same [OF c(2)] and causes = reachable_causes [OF c(1) assms(2)]
  have "set (os_log (mk_orders c)) \<subseteq> order_messages (mk_orders c)"
    using reachable_orders_told [OF market_orders_reachable [OF c(1)]] by (simp add: orders_told_def)
  moreover have "set (iv_log (mk_stock c)) \<subseteq> stock_messages (mk_stock c)"
    using reachable_stock_told [OF market_stock_reachable [OF c(1)] assms(2)] by (simp add: stock_told_def)
  moreover have "answered_in (ss_log (mr_stock s)) m = answered_in (iv_log (mk_stock c)) m" for m
    using same(7) by (simp add: answered_in_def)
  moreover have "created_first (ws_log (mr_orders s))" using causes created_first_seen same(4) by metis
  ultimately show ?thesis
    using causes unfolding answers_caused_def finals_caused_def same(3,7) by blast
qed

section \<open>A run\<close>

text \<open>
  An order is created and its event published; before the transaction of that worker commits, the stock is
  reserved and the answer published, by a worker whose transaction never ends. Then the first one writes and
  commits, and the answer is applied.
\<close>

lemma sample_answer_committed:
  obtains tx tx' tx'' db where "begin_tick () (quiet_tick (\<lambda>_. sample_time)) (selected (Map.empty :: nat \<rightharpoonup> inv_tx)) 10
      (inv_outbox sample_reserved_db) = Some tx"
    "ot_next tx < length (ot_recs tx)" "\<not> ot_published tx" "publish_next tx [] = (Some tx', [reserved_message ''o1''])"
    "ot_published tx'" "inv_write_next tx' sample_reserved_db = Some tx''" "ot_next tx'' = length (ot_recs tx'')"
    "commit (f_commit (te_faults (ot_env tx''))) sample_reserved_db (inv_tx_view tx'' sample_reserved_db) = (None :: unit go_error option, db)"
    "pending (inv_outbox db) = []"
proof -
  have "row_message (new_outbox_row ''r5'' ''o1'' EventTypeStockReserved (marshal_StockReservedEvent ''o1'') sample_time)
      = reserved_message ''o1''" by (simp add: row_message_new answer_messages)
  then show thesis
    by (intro that) (auto simp: begin_tick_def selected_def sample_reserved_db_def reserved_db_def saga_stock_def
        pending_batch_def pending_def fetch_pending_def outbox_record_def quiet_tick_def new_outbox_row_def publish_next_def
        Publish_def row_message_def inv_write_next_def inv_worker_body_def inv_markSentTx_def inv_tx_view_def
        own_version_def written_def mark_sent_def update_where_def find_row_Cons)
qed

lemma sample_record_message: "rec_message sample_record = event_message ''o1'' (EventTypeOrderCreated, sample_payload)"
  by (simp add: rec_message_def sample_record_def event_message_def)

lemma sample_commits:
  assumes "tx_rows (os_db sample_created) (sample_tx 1 False ords box)"
  shows "tx_view (sample_tx 1 False ords box) (os_db sample_created) = os_db sample_published"
  unfolding tx_view_effect [OF assms]
  by (simp add: batch_effect_def done_recs_def sample_published_def order_run sample_tick sent_by_def awaiting_by_def)

lemma sample_run_answered:
  obtains st tx tx' db where "run_reachable (stock saga_stock)
      \<lparr>mr_orders = \<lparr>ws_db = os_db sample_created, ws_reads = [], ws_log = sample_log,
         ws_open = [0 \<mapsto> sample_tx 0 True Map.empty Map.empty]\<rparr>, mr_stock = st, mr_notif = empty_notif_state\<rparr>"
    "ss_log st = [reserved_message ''o1'']" "ss_db st = sample_reserved_db" "ss_ledger st = [(''o1'', ordered_items sample_order)]"
    "ss_open st = [0 \<mapsto> tx]" "ot_published tx" "inv_write_next tx sample_reserved_db = Some tx'" "ot_next tx' = length (ot_recs tx')"
    "commit (f_commit (te_faults (ot_env tx'))) sample_reserved_db (inv_tx_view tx' sample_reserved_db) = (None :: unit go_error option, db)"
    "pending (inv_outbox db) = []"
proof -
  let ?db = "os_db sample_created" and ?e = "quiet_tick (\<lambda>_. sample_time)" and ?tx = "\<lambda>p. sample_tx 0 p Map.empty Map.empty"
  let ?o = "\<lambda>log open. \<lparr>ws_db = ?db, ws_reads = [], ws_log = log, ws_open = open\<rparr>"
  let ?s = "\<lambda>os st. \<lparr>mr_orders = os, mr_stock = st, mr_notif = empty_notif_state\<rparr>"
  let ?start = "stock_sys_init (stock saga_stock)" and ?event = "created_seen (created_event sample_order)"
  let ?st = "\<lambda>past log open. \<lparr>ss_db = sample_reserved_db, ss_past = past, ss_log = log,
    ss_ledger = [(''o1'', ordered_items sample_order)], ss_open = open\<rparr>"
  have start: "?start = \<lparr>ss_db = saga_stock, ss_past = [], ss_log = [], ss_ledger = [], ss_open = Map.empty\<rparr>"
    by (simp add: stock_sys_init_def saga_stock_def)
  have 1: "run_step (market_run_init (stock saga_stock)) (?s (?o [] Map.empty) ?start)"
    using run_step.new_order [OF NewOrder_sample marshal_sample, of "''r1''" "market_run_init (stock saga_stock)" no_faults sample_time None]
      save_sample by (simp add: market_run_init_def worker_sys_init_def sample_created_def empty_order_db_def)
  have 2: "run_step (?s (?o [] Map.empty) ?start) (?s (?o [] [0 \<mapsto> ?tx False]) ?start)"
    using run_step.order_worker [OF worker_action.tick_begin, of "?s (?o [] Map.empty) ?start" 0 ?e 10 "?tx False"] sample_begins by simp
  have log: "[rec_message sample_record] = sample_log" by (simp add: sample_record_message sample_log_def)
  have 3: "run_step (?s (?o [] [0 \<mapsto> ?tx False]) ?start) (?s (?o sample_log [0 \<mapsto> ?tx True]) ?start)"
    using run_step.order_worker [OF worker_action.tick_publish, of "?s (?o [] [0 \<mapsto> ?tx False]) ?start" 0 "?tx False"]
      sample_publish_next log by (simp add: sample_tx_def)
  have ev: "ic_OrderID ?event = ''o1''" by (simp add: created_seen_def created_event_def sample_order_def)
  have new: "sample_reserved_db \<noteq> saga_stock" by (simp add: sample_reserved_db_def reserved_db_def saga_stock_def)
  have m: "event_message ''o1'' (EventTypeOrderCreated, sample_payload) \<in> set sample_log" by (simp add: sample_log_def)
  have 4: "run_step (?s (?o sample_log [0 \<mapsto> ?tx True]) ?start) (?s (?o sample_log [0 \<mapsto> ?tx True]) (?st [saga_stock] [] Map.empty))"
    using run_step.reserve_stock [OF _ sample_created_seen, of "?s (?o sample_log [0 \<mapsto> ?tx True]) ?start" saga_stock "''r5''" no_faults
        sample_time None sample_reserved_db] sample_reserves new ev m
    by (simp add: start reservation_items_created saga_stock_fits(1))
  obtain tx tx' tx2 db where w: "begin_tick () ?e (selected (Map.empty :: nat \<rightharpoonup> inv_tx)) 10 (inv_outbox sample_reserved_db) = Some tx"
    "ot_next tx < length (ot_recs tx)" "\<not> ot_published tx" "publish_next tx [] = (Some tx', [reserved_message ''o1''])"
    and more: "ot_published tx'" "inv_write_next tx' sample_reserved_db = Some tx2" "ot_next tx2 = length (ot_recs tx2)"
    "commit (f_commit (te_faults (ot_env tx2))) sample_reserved_db (inv_tx_view tx2 sample_reserved_db) = (None :: unit go_error option, db)"
    "pending (inv_outbox db) = []"
    using sample_answer_committed .
  have 5: "run_step (?s (?o sample_log [0 \<mapsto> ?tx True]) (?st [saga_stock] [] Map.empty))
      (?s (?o sample_log [0 \<mapsto> ?tx True]) (?st [sample_reserved_db, saga_stock] [] [0 \<mapsto> tx]))"
    using run_step.stock_worker [OF worker_action.tick_begin, of "?s (?o sample_log [0 \<mapsto> ?tx True]) (?st [saga_stock] [] Map.empty)"
        0 ?e 10 tx] w(1) by simp
  have 6: "run_step (?s (?o sample_log [0 \<mapsto> ?tx True]) (?st [sample_reserved_db, saga_stock] [] [0 \<mapsto> tx]))
      (?s (?o sample_log [0 \<mapsto> ?tx True])
        (?st [sample_reserved_db, sample_reserved_db, saga_stock] [reserved_message ''o1''] [0 \<mapsto> tx']))"
    using run_step.stock_worker [OF worker_action.tick_publish,
        of "?s (?o sample_log [0 \<mapsto> ?tx True]) (?st [sample_reserved_db, saga_stock] [] [0 \<mapsto> tx])" 0 tx] w(2-4) by simp
  have "run_reachable (stock saga_stock) (?s (?o sample_log [0 \<mapsto> ?tx True])
      (?st [sample_reserved_db, sample_reserved_db, saga_stock] [reserved_message ''o1''] [0 \<mapsto> tx']))"
    by (intro run_reachable.step [OF _ 6] run_reachable.step [OF _ 5] run_reachable.step [OF _ 4] run_reachable.step [OF _ 3]
        run_reachable.step [OF _ 2] run_reachable.step [OF _ 1] run_reachable.init)
  then show thesis by (rule that) (use more in auto)
qed

lemma run_reachable_path: "run_step\<^sup>*\<^sup>* s s' \<Longrightarrow> run_reachable stock0 s \<Longrightarrow> run_reachable stock0 s'"
  by (induction rule: rtranclp_induct) (auto intro: run_reachable.step)

lemma sample_order_finishes:
  assumes s1: "run_reachable stock0 \<lparr>mr_orders = \<lparr>ws_db = os_db sample_created, ws_reads = [], ws_log = sample_log,
      ws_open = [0 \<mapsto> sample_tx 0 True Map.empty Map.empty]\<rparr>, mr_stock = st, mr_notif = nt\<rparr>"
  shows "run_step\<^sup>*\<^sup>* \<lparr>mr_orders = \<lparr>ws_db = os_db sample_created, ws_reads = [], ws_log = sample_log,
      ws_open = [0 \<mapsto> sample_tx 0 True Map.empty Map.empty]\<rparr>, mr_stock = st, mr_notif = nt\<rparr>
    \<lparr>mr_orders = \<lparr>ws_db = os_db sample_published, ws_reads = [], ws_log = sample_log, ws_open = Map.empty\<rparr>,
      mr_stock = st, mr_notif = nt\<rparr>"
proof -
  let ?db = "os_db sample_created" and ?db2 = "os_db sample_published" and ?tx = "sample_tx 0 True Map.empty Map.empty"
  let ?s = "\<lambda>db open. \<lparr>mr_orders = \<lparr>ws_db = db, ws_reads = [], ws_log = sample_log, ws_open = open\<rparr>, mr_stock = st, mr_notif = nt\<rparr>"
  obtain ords box where w: "write_next ?tx ?db = Some (sample_tx 1 False ords box)" using sample_writes .
  have 2: "run_step (?s ?db [0 \<mapsto> ?tx]) (?s ?db [0 \<mapsto> sample_tx 1 False ords box])"
    using run_step.order_worker [OF worker_action.tick_write, of "?s ?db [0 \<mapsto> ?tx]" 0 ?tx "sample_tx 1 False ords box"] w
    by (simp add: uncommitted_def ran_def sample_tx_def)
  have "tx_rows ?db (sample_tx 1 False ords box)"
    using workers_okD(1) [OF reachable_workers_ok(1) [OF run_orders_reachable [OF run_reachable.step [OF s1 2]]], of 0] by simp
  note com = sample_commits [OF this]
  have 3: "run_step (?s ?db [0 \<mapsto> sample_tx 1 False ords box]) (?s ?db2 Map.empty)"
    using run_step.order_worker [OF worker_action.tick_commit,
        of "?s ?db [0 \<mapsto> sample_tx 1 False ords box]" 0 "sample_tx 1 False ords box" None ?db2] com
    by (simp add: sample_tx_def quiet_tick_def)
  from 2 3 show ?thesis by (meson r_into_rtranclp rtranclp.rtrancl_into_rtrancl)
qed

lemma sample_run_confirmed:
  obtains s tx where "run_reachable (stock saga_stock) s" "stored_order (ws_db (mr_orders s)) ''o1'' = Some (StatusConfirmed, 3)"
    "ws_log (mr_orders s) = sample_log" "ss_log (mr_stock s) = [reserved_message ''o1'']" "ss_open (mr_stock s) = [0 \<mapsto> tx]"
    "ss_db (mr_stock s) = sample_reserved_db"
proof -
  let ?ord = "row_to_order (set_status StatusAwaitingStock sample_time (order_to_row sample_order)) sample_items"
  let ?fin = "final_event ''o1'' StatusConfirmed []"
  obtain st tx where s1: "run_reachable (stock saga_stock)
      \<lparr>mr_orders = \<lparr>ws_db = os_db sample_created, ws_reads = [], ws_log = sample_log,
         ws_open = [0 \<mapsto> sample_tx 0 True Map.empty Map.empty]\<rparr>, mr_stock = st, mr_notif = empty_notif_state\<rparr>"
    and st: "ss_log st = [reserved_message ''o1'']" "ss_open st = [0 \<mapsto> tx]" "ss_db st = sample_reserved_db"
    using sample_run_answered by metis
  let ?s = "\<lambda>db reads. \<lparr>mr_orders = \<lparr>ws_db = db, ws_reads = reads, ws_log = sample_log, ws_open = Map.empty\<rparr>,
    mr_stock = st, mr_notif = empty_notif_state\<rparr>"
  let ?db2 = "os_db sample_published"
  have s3: "run_reachable (stock saga_stock) (?s ?db2 [])"
    using run_reachable_path [OF sample_order_finishes [OF s1] s1] .
  have s4: "run_reachable (stock saga_stock) (?s ?db2 [?ord])"
    using run_step.take_order [of no_faults "''o1''" "?s ?db2 []" ?ord] sample_read
    by (intro run_reachable.step [OF s3]) simp
  obtain odb where odb: "UpdateStatusWithEvent no_faults ''r2'' (\<lambda>_. sample_time) sample_confirmed (fst ?fin) (snd ?fin) ?db2
      = (None, odb)" and conf: "stored_order odb ''o1'' = Some (StatusConfirmed, 3)"
    using sample_update by auto
  have build: "buildStatusEvent sample_confirmed StatusConfirmed [] = Inr (fst ?fin, snd ?fin)"
    using buildStatusEvent_final [of StatusConfirmed sample_confirmed "[]"] sample_transition(2) by simp
  have fresh: "''r2'' \<notin> set (map ob_id (order_outbox (ws_db (mr_orders (?s ?db2 [?ord])))))"
    by (simp add: sample_published_def sample_created_def order_run sample_order_def)
  have "ID ?ord = ''o1''" by (simp add: row_to_order_def set_status_def order_to_row_def sample_order_def)
  then have s5: "run_reachable (stock saga_stock) (?s odb [?ord])"
    using run_step.apply_result [of "reserved_message ''o1''" "?s ?db2 [?ord]" "''o1''" StatusConfirmed "[]" ?ord, OF _ _ _ _
        sample_transition(1) build fresh, of no_faults "\<lambda>_. sample_time" None odb] odb st(1)
    by (intro run_reachable.step [OF s4]) (simp add: uncommitted_def)
  with conf st show thesis by (intro that [OF s5]) simp_all
qed

theorem marketplace_steps_refine_witness:
  "\<exists>s tx c. run_reachable (stock saga_stock) s \<and> ss_open (mr_stock s) = [0 \<mapsto> tx]
    \<and> ss_log (mr_stock s) = [reserved_message ''o1''] \<and> market_reachable (stock saga_stock) c
    \<and> stored_order (os_db (mk_orders c)) ''o1'' = Some (StatusConfirmed, 3)"
proof -
  obtain s tx where s: "run_reachable (stock saga_stock) s" "stored_order (ws_db (mr_orders s)) ''o1'' = Some (StatusConfirmed, 3)"
    "ss_log (mr_stock s) = [reserved_message ''o1'']" "ss_open (mr_stock s) = [0 \<mapsto> tx]" using sample_run_confirmed by metis
  with marketplace_steps_refine [OF s(1)] saga_stock_fits(2,5) show ?thesis by fastforce
qed

theorem interleaved_services_agree_witness:
  "\<exists>s tx. run_reachable (stock saga_stock) s \<and> ss_open (mr_stock s) = [0 \<mapsto> tx]
    \<and> stored_order (ws_db (mr_orders s)) ''o1'' = Some (StatusConfirmed, 3)
    \<and> (''o1'', order_lines ''o1'' (ws_db (mr_orders s))) \<in> set (ss_ledger (mr_stock s))"
proof -
  obtain s tx where s: "run_reachable (stock saga_stock) s" "stored_order (ws_db (mr_orders s)) ''o1'' = Some (StatusConfirmed, 3)"
    "ss_open (mr_stock s) = [0 \<mapsto> tx]" using sample_run_confirmed by metis
  have "stock_ok (iv_db (inv_sys_init (stock saga_stock)))" by (simp add: saga_stock_fits)
  from interleaved_services_agree [OF s(1) this] s show ?thesis by blast
qed

theorem interleaved_causality_witness:
  "\<exists>s tx. run_reachable (stock saga_stock) s \<and> ss_open (mr_stock s) = [0 \<mapsto> tx]
    \<and> reserved_message ''o1'' \<in> set (ss_log (mr_stock s))
    \<and> (\<exists>c \<in> set (ws_log (mr_orders s)). msg_topic c = EventTypeOrderCreated \<and> msg_key c = ''o1'')"
proof -
  obtain s tx where s: "run_reachable (stock saga_stock) s" "ss_log (mr_stock s) = [reserved_message ''o1'']"
    "ss_open (mr_stock s) = [0 \<mapsto> tx]" using sample_run_confirmed by metis
  have "stock_ok (iv_db (inv_sys_init (stock saga_stock)))" by (simp add: saga_stock_fits)
  from interleaved_causality [OF s(1) this] s show ?thesis by (intro exI [of _ s] exI [of _ tx]) simp
qed

text \<open>
  Property C38 (error). An order can be left waiting. In this run nothing fails: the stock
  is reserved and its answer published and committed before the worker of order-service has committed the
  tick that published \<open>order.created\<close>. The answer is read, found to be a duplicate and reported as
  handled; then the tick commits. The order awaits its stock, which is reserved, neither outbox has a pending
  event and no worker holds anything: only a second delivery of the answer already handled would end the order.
\<close>

theorem answer_lost_in_window:
  "\<exists>s s'. run_reachable (stock saga_stock) s \<and> ss_log (mr_stock s) = [reserved_message ''o1'']
    \<and> handleReserved (pg_update (calm_attempts rid tm now)) (reserved_message ''o1'') (ws_db (mr_orders s))
      = (None, ws_db (mr_orders s))
    \<and> run_step\<^sup>*\<^sup>* s s' \<and> stored_order (ws_db (mr_orders s')) ''o1'' = Some (StatusAwaitingStock, 2)
    \<and> ss_ledger (mr_stock s') = [(''o1'', ordered_items sample_order)]
    \<and> pending (order_outbox (ws_db (mr_orders s'))) = [] \<and> pending (inv_outbox (ss_db (mr_stock s'))) = []
    \<and> ws_open (mr_orders s') = Map.empty \<and> ss_open (mr_stock s') = Map.empty
    \<and> ws_log (mr_orders s') = ws_log (mr_orders s) \<and> ss_log (mr_stock s') = ss_log (mr_stock s)"
proof -
  let ?S = "\<lambda>st. \<lparr>mr_orders = \<lparr>ws_db = os_db sample_created, ws_reads = [], ws_log = sample_log,
    ws_open = [0 \<mapsto> sample_tx 0 True Map.empty Map.empty]\<rparr>, mr_stock = st, mr_notif = empty_notif_state\<rparr>"
  obtain st tx tx' db where s: "run_reachable (stock saga_stock) (?S st)"
    and st: "ss_log st = [reserved_message ''o1'']" "ss_db st = sample_reserved_db" "ss_ledger st = [(''o1'', ordered_items sample_order)]"
      "ss_open st = [0 \<mapsto> tx]"
    and tx: "ot_published tx" "inv_write_next tx sample_reserved_db = Some tx'" "ot_next tx' = length (ot_recs tx')"
      "commit (f_commit (te_faults (ot_env tx'))) sample_reserved_db (inv_tx_view tx' sample_reserved_db) = (None :: unit go_error option, db)"
      "pending (inv_outbox db) = []"
    using sample_run_answered by metis
  let ?st2 = "st\<lparr>ss_db := sample_reserved_db, ss_past := sample_reserved_db # ss_past st,
    ss_log := [reserved_message ''o1''], ss_open := [0 \<mapsto> tx']\<rparr>"
  let ?st3 = "st\<lparr>ss_db := db, ss_past := sample_reserved_db # sample_reserved_db # ss_past st,
    ss_log := [reserved_message ''o1''], ss_open := Map.empty\<rparr>"
  have 1: "run_step (?S st) (?S ?st2)"
    using run_step.stock_worker [OF worker_action.tick_write, of "?S st" 0 tx tx'] st tx by simp
  have 2: "run_step (?S ?st2) (?S ?st3)"
    using run_step.stock_worker [OF worker_action.tick_commit, of "?S ?st2" 0 tx' None db] st tx by simp
  have r: "run_reachable (stock saga_stock) (?S ?st3)" using run_reachable.step [OF run_reachable.step [OF s 1] 2] .
  have pk: "primary_key (os_db sample_created)"
    using reachable_workers_ok(2) [OF run_orders_reachable [OF s]] by (simp add: order_inv_def)
  have "stored_order (os_db sample_created) ''o1'' = Some (StatusCreated, 1)"
    by (simp add: sample_created_def order_run sample_order_def order_to_row_def)
  note ignored = created_result_ignored [OF pk this]
  have "stored_order (os_db sample_published) ''o1'' = Some (StatusAwaitingStock, 2)"
    "pending (order_outbox (os_db sample_published)) = []"
    by (simp_all add: sample_published_def sample_created_def order_run sample_order_def order_to_row_def)
  with r sample_order_finishes [OF r] ignored st tx(5) show ?thesis by (intro exI conjI) (assumption | simp)+
qed

end
