(* ===== verification/Service_Metrics.thy ===== *)
theory Service_Metrics
  imports Inventory_System
begin

text \<open>
  The metrics of the four services, as their \<open>internal/metrics\<close> declare them, and what the counter of
  inventory-service says. Its labels are those that \<open>internal/consumer/order_created_consumer.go\<close>
  counts with, and the counter is part of the state of the handler; here its series are compared with
  what the database gained, over any run of the consumer's loop (\<open>inventory_counters_account\<close>).
\<close>

section \<open>Declarations\<close>

datatype metric_kind = Counter | CounterVec | Gauge | Histogram | HistogramVec

record metric =
  me_Kind :: metric_kind
  me_Name :: string
  me_Help :: string
  me_Labels :: "string list"

text \<open>order-service's.\<close>

definition GRPCRequestsTotal :: metric where
  "GRPCRequestsTotal = \<lparr>me_Kind = CounterVec, me_Name = ''grpc_requests_total'',
     me_Help = ''Total number of gRPC requests processed by order-service'', me_Labels = [''method'', ''code'']\<rparr>"

definition GRPCRequestDuration :: metric where
  "GRPCRequestDuration = \<lparr>me_Kind = HistogramVec, me_Name = ''grpc_request_duration_seconds'',
     me_Help = ''gRPC request duration in seconds'', me_Labels = [''method'']\<rparr>"

definition OrdersCreatedTotal :: metric where
  "OrdersCreatedTotal = \<lparr>me_Kind = Counter, me_Name = ''orders_created_total'',
     me_Help = ''Total number of orders created'', me_Labels = []\<rparr>"

definition order_OutboxPendingRecords :: metric where
  "order_OutboxPendingRecords = \<lparr>me_Kind = Gauge, me_Name = ''outbox_pending_records'',
     me_Help = ''Current number of PENDING records in the outbox table'', me_Labels = []\<rparr>"

text \<open>inventory-service's.\<close>

definition MessagesProcessedTotal :: metric where
  "MessagesProcessedTotal = \<lparr>me_Kind = CounterVec, me_Name = ''inventory_messages_processed_total'',
     me_Help = ''Total number of order.created messages processed'', me_Labels = [''result'']\<rparr>"

definition MessageProcessingDuration :: metric where
  "MessageProcessingDuration = \<lparr>me_Kind = Histogram, me_Name = ''inventory_message_processing_duration_seconds'',
     me_Help = ''Time spent processing a single order.created message'', me_Labels = []\<rparr>"

definition inv_OutboxPendingRecords :: metric where
  "inv_OutboxPendingRecords = \<lparr>me_Kind = Gauge, me_Name = ''inventory_outbox_pending_records'',
     me_Help = ''Current number of PENDING records in the outbox table'', me_Labels = []\<rparr>"

text \<open>notification-service's.\<close>

definition NotificationsProcessedTotal :: metric where
  "NotificationsProcessedTotal = \<lparr>me_Kind = CounterVec, me_Name = ''notifications_processed_total'',
     me_Help = ''Total number of order events processed by notification-service'', me_Labels = [''event_type'', ''result'']\<rparr>"

definition NotificationProcessingDuration :: metric where
  "NotificationProcessingDuration = \<lparr>me_Kind = HistogramVec, me_Name = ''notification_processing_duration_seconds'',
     me_Help = ''Time spent processing a single order event'', me_Labels = [''event_type'']\<rparr>"

text \<open>api-gateway's.\<close>

definition gw_HTTPRequestsTotal :: metric where
  "gw_HTTPRequestsTotal = \<lparr>me_Kind = CounterVec, me_Name = ''http_requests_total'',
     me_Help = ''Total number of HTTP requests processed by the gateway'', me_Labels = [''method'', ''path'', ''status'']\<rparr>"

definition gw_HTTPRequestDuration :: metric where
  "gw_HTTPRequestDuration = \<lparr>me_Kind = HistogramVec, me_Name = ''http_request_duration_seconds'',
     me_Help = ''HTTP request duration in seconds'', me_Labels = [''method'', ''path'']\<rparr>"

text \<open>
  What \<open>promauto\<close> asks of the metrics of a process, on pain of a panic before \<open>main\<close> starts: legal
  names (those of lower-case letters and underscores are), none registered twice, no label twice. Labels
  belong to the kinds with series.
\<close>

definition legal_name :: "string \<Rightarrow> bool" where
  "legal_name s \<longleftrightarrow> s \<noteq> [] \<and> list_all (\<lambda>c. c \<in> set ''abcdefghijklmnopqrstuvwxyz_'') s"

definition well_declared :: "metric list \<Rightarrow> bool" where
  "well_declared ms \<longleftrightarrow> distinct (map me_Name ms)
     \<and> (\<forall>m \<in> set ms. legal_name (me_Name m) \<and> list_all legal_name (me_Labels m) \<and> distinct (me_Labels m)
          \<and> (me_Labels m \<noteq> [] \<longleftrightarrow> me_Kind m = CounterVec \<or> me_Kind m = HistogramVec))"

definition service_metrics :: "metric list list" where
  "service_metrics =
     [[GRPCRequestsTotal, GRPCRequestDuration, OrdersCreatedTotal, order_OutboxPendingRecords],
      [MessagesProcessedTotal, MessageProcessingDuration, inv_OutboxPendingRecords],
      [NotificationsProcessedTotal, NotificationProcessingDuration],
      [gw_HTTPRequestsTotal, gw_HTTPRequestDuration]]"

lemmas metric_defs = GRPCRequestsTotal_def GRPCRequestDuration_def OrdersCreatedTotal_def order_OutboxPendingRecords_def
  MessagesProcessedTotal_def MessageProcessingDuration_def inv_OutboxPendingRecords_def NotificationsProcessedTotal_def
  NotificationProcessingDuration_def gw_HTTPRequestsTotal_def gw_HTTPRequestDuration_def

lemma metrics_well_declared: "list_all well_declared service_metrics"
  by (simp add: service_metrics_def well_declared_def legal_name_def metric_defs)

section \<open>The counter of inventory-service\<close>

text \<open>The values that \<open>handleMessage\<close> gives to \<open>WithLabelValues\<close>.\<close>

fun inv_label :: "inv_result \<Rightarrow> string" where
  "inv_label R_unmarshal_error = ''unmarshal_error''"
| "inv_label R_reserved = ''reserved''"
| "inv_label R_already_processed = ''already_processed''"
| "inv_label R_insufficient_stock = ''insufficient_stock''"
| "inv_label R_error = ''error''"

definition inv_results :: "inv_result list" where
  "inv_results = [R_unmarshal_error, R_reserved, R_already_processed, R_insufficient_stock, R_error]"

text \<open>The series of the counter on the page of \<open>/metrics\<close>: labels and value.\<close>

definition inv_series :: "inv_counts \<Rightarrow> ((string \<times> string) list \<times> nat) list" where
  "inv_series counts = map (\<lambda>r. (zip (me_Labels MessagesProcessedTotal) [inv_label r], counts r)) inv_results"

definition series_value :: "((string \<times> string) list \<times> nat) list \<Rightarrow> string \<Rightarrow> nat" where
  "series_value series v = (case map_of series [(''result'', v)] of None \<Rightarrow> 0 | Some n \<Rightarrow> n)"

lemma series_value_label [simp]: "series_value (inv_series counts) (inv_label r) = counts r"
  by (cases r) (simp_all add: series_value_def inv_series_def inv_results_def MessagesProcessedTotal_def)

section \<open>One message\<close>

definition failed_events :: "inv_db \<Rightarrow> nat" where
  "failed_events db = length (filter (\<lambda>r. ob_type r = EventTypeStockFailed) (inv_outbox db))"

text \<open>
  The transactions that come between the steps of a message's are not those of a second consumer of
  the topic: they reserve nothing and refuse nothing. Those of the outbox worker and of a restock are allowed.
\<close>

definition only_consumer :: "inv_env \<Rightarrow> bool" where
  "only_consumer e \<longleftrightarrow> (\<forall>db. stock_ok db \<longrightarrow> stock_ok (ie_meanwhile e db)
     \<and> processed (ie_meanwhile e db) = processed db \<and> failed_events (ie_meanwhile e db) = failed_events db)"

definition answers_known :: "inv_env \<Rightarrow> bool" where
  "answers_known e \<longleftrightarrow> (\<forall>m. f_commit (ie_reserve e) \<noteq> CommitUnknown m \<and> f_commit (ie_record e) \<noteq> CommitUnknown m)"

text \<open>What a message did to the database, by the label it was counted under.\<close>

definition accounted :: "inv_env \<Rightarrow> inv_result \<Rightarrow> inv_db \<Rightarrow> inv_db \<Rightarrow> bool" where
  "accounted e label db db' \<longleftrightarrow> (case label of
       R_reserved \<Rightarrow> length (processed db') = Suc (length (processed db)) \<and> failed_events db' = failed_events db
     | R_insufficient_stock \<Rightarrow> length (processed db') = length (processed db) \<and> failed_events db' = Suc (failed_events db)
     | R_error \<Rightarrow> length (processed db) \<le> length (processed db') \<and> failed_events db \<le> failed_events db'
         \<and> length (processed db') + failed_events db' \<le> Suc (length (processed db) + failed_events db)
         \<and> (answers_known e \<longrightarrow> length (processed db') = length (processed db) \<and> failed_events db' = failed_events db)
     | _ \<Rightarrow> length (processed db') = length (processed db) \<and> failed_events db' = failed_events db)"

lemma reserve_accounted:
  assumes "pg_reserve e oid items db = Returns (r, db1)" and "only_consumer e" and "stock_ok db"
  shows "stock_ok db1" and "r = None \<Longrightarrow> accounted e R_reserved db db1"
    and "r \<noteq> None \<Longrightarrow> accounted e R_error db db1"
    and "r = Some err \<Longrightarrow> errors_is err s \<Longrightarrow> accounted e R_already_processed db db1"
proof -
  have other: "stock_ok (ie_meanwhile e db)" "processed (ie_meanwhile e db) = processed db"
    "failed_events (ie_meanwhile e db) = failed_events db" using assms(2,3) by (simp_all add: only_consumer_def)
  have same: "failed_events (reserved_db rid now oid items db2) = failed_events db2" for rid now db2
    by (simp add: failed_events_def reserved_db_def new_outbox_row_def)
  have "stock_ok db1 \<and> (r = None \<longrightarrow> accounted e R_reserved db db1) \<and> (r \<noteq> None \<longrightarrow> accounted e R_error db db1)"
    using assms(1) [unfolded pg_reserve_def] other(1)
  proof (cases rule: ReserveAll_cases)
    case reserved
    have "failed_events db1 = failed_events db" unfolding reserved(1) same other(3) ..
    moreover have "processed db1 = processed db @ [oid]" using other(2) by (simp add: reserved(1) reserved_db_def)
    ultimately show ?thesis using reserved(2,6) by (auto simp: accounted_def answers_known_def)
  qed (use other assms(3) in \<open>auto simp: accounted_def\<close>)
  then show "stock_ok db1" "r = None \<Longrightarrow> accounted e R_reserved db db1" "r \<noteq> None \<Longrightarrow> accounted e R_error db db1"
    by blast+
  show "r = Some err \<Longrightarrow> errors_is err s \<Longrightarrow> accounted e R_already_processed db db1"
    using ReserveAll_refused assms(1) other by (fastforce simp: accounted_def pg_reserve_def)
qed

lemma record_accounted:
  assumes "pg_record e oid reason db = (r, db1)" and "stock_ok db"
  shows "stock_ok db1" and "r = None \<Longrightarrow> accounted e R_insufficient_stock db db1"
    and "r \<noteq> None \<Longrightarrow> accounted e R_error db db1"
proof -
  have "stock_ok db1 \<and> (r = None \<longrightarrow> accounted e R_insufficient_stock db db1) \<and> (r \<noteq> None \<longrightarrow> accounted e R_error db db1)"
    using assms by (cases "f_commit (ie_record e)") (auto simp: pg_record_def RecordFailure_def inv_insert_outbox_def
        accounted_def answers_known_def failed_events_def new_outbox_row_def stock_ok_def split: option.splits)
  then show "stock_ok db1" "r = None \<Longrightarrow> accounted e R_insufficient_stock db db1" "r \<noteq> None \<Longrightarrow> accounted e R_error db db1"
    by blast+
qed

text \<open>A refused order: the reservation changed nothing, and the refusal is recorded.\<close>

lemma accounted_after:
  assumes "accounted e R_already_processed db db1" and "accounted e label db1 db2"
  shows "accounted e label db db2"
  using assms by (auto simp: accounted_def split: inv_result.splits)

lemma handle_accounted:
  assumes "pg_handleMessage e m (db, counts) = Returns (r, db', counts')" and "only_consumer e" and "stock_ok db"
  obtains label where "counts' = count_result label counts" "accounted e label db db'" "stock_ok db'"
proof (cases "unmarshal fields_InvOrderCreatedEvent zero_InvOrderCreatedEvent (msg_value m)")
  case None
  then have "counts' = count_result R_unmarshal_error counts" "db' = db"
    using assms(1) by (simp_all add: pg_handleMessage_def inv_handleMessage_def)
  then show thesis using that assms(3) by (simp add: accounted_def)
next
  case (Some event)
  let ?oid = "ic_OrderID event"
  obtain r1 db1 where res: "pg_reserve e ?oid (reservation_items event) db = Returns (r1, db1)"
    using pgs.no_panic by (metis call.exhaust prod.exhaust)
  note acc = reserve_accounted [OF res assms(2,3)]
  note run = assms(1) [unfolded pg_handleMessage_def inv_handleMessage_def ReserveStock_def]
  show thesis
  proof (cases r1)
    case None
    with run Some res have "counts' = count_result R_reserved counts" "db' = db1" by simp_all
    with acc None that show thesis by simp
  next
    case e1: (Some err)
    consider "errors_is err ErrAlreadyProcessed" | "\<not> errors_is err ErrAlreadyProcessed"
      "errors_is err ErrInsufficientStock \<or> errors_is err ErrStockNotFound" | "\<forall>s. \<not> errors_is err s"
      by (metis (full_types) inv_sentinel.exhaust)
    then show thesis
    proof cases
      case 1
      with run Some res e1 have "counts' = count_result R_already_processed counts" "db' = db1" by simp_all
      with acc(1,4) e1 1 that show thesis by blast
    next
      case 2
      obtain r2 db2 where rf: "pg_record e ?oid (error_text inv_error_msg err) db1 = (r2, db2)" by fastforce
      note acc2 = record_accounted [OF rf acc(1)]
      have same: "accounted e R_already_processed db db1" using acc(4) e1 2(2) by blast
      show thesis
      proof (cases r2)
        case None
        with run Some res e1 2 rf have "counts' = count_result R_insufficient_stock counts" "db' = db2" by simp_all
        with that accounted_after [OF same] acc2 None show thesis by blast
      next
        case e2: (Some err2)
        have "\<not> errors_is err2 s" for s using pgs.record_error rf e2 by blast
        with run Some res e1 2 rf e2 have "counts' = count_result R_error counts" "db' = db2" by simp_all
        with that accounted_after [OF same] acc2 e2 show thesis by blast
      qed
    next
      case 3
      with run Some res e1 have "counts' = count_result R_error counts" "db' = db1" by simp_all
      with acc(1,3) e1 that show thesis by blast
    qed
  qed
qed

section \<open>A run of the loop\<close>

definition is_handled :: "'s action \<Rightarrow> bool" where
  "is_handled a \<longleftrightarrow> (\<exists>off r. a = Handled off r)"

definition total_count :: "inv_counts \<Rightarrow> nat" where
  "total_count counts = sum_list (map counts inv_results)"

lemma is_handled_simps [simp]: "is_handled (Handled off r)" "\<not> is_handled (CommitOk off)" "\<not> is_handled (CommitErr off)"
  by (simp_all add: is_handled_def)

lemma total_count_result: "total_count (count_result k counts) = Suc (total_count counts)"
  by (cases k) (simp_all add: total_count_def inv_results_def count_result_def)

text \<open>The gain of a run between its counters and its database.\<close>

definition run_accounted :: "bool \<Rightarrow> inv_db \<times> inv_counts \<Rightarrow> inv_db \<times> inv_counts \<Rightarrow> bool" where
  "run_accounted known st st' \<longleftrightarrow> (case (st, st') of ((db, c), (db', c')) \<Rightarrow>
     length (processed db) + c' R_reserved \<le> length (processed db') + c R_reserved
   \<and> failed_events db + c' R_insufficient_stock \<le> failed_events db' + c R_insufficient_stock
   \<and> length (processed db') + failed_events db' + c R_reserved + c R_insufficient_stock + c R_error
       \<le> length (processed db) + failed_events db + c' R_reserved + c' R_insufficient_stock + c' R_error
   \<and> (known \<longrightarrow> length (processed db) + c' R_reserved = length (processed db') + c R_reserved
        \<and> failed_events db + c' R_insufficient_stock = failed_events db' + c R_insufficient_stock))"

lemma run_accounted_refl: "run_accounted known st st"
  by (simp add: run_accounted_def split: prod.splits)

lemma run_accounted_trans:
  assumes "run_accounted known st st1" and "run_accounted known st1 st2"
  shows "run_accounted known st st2"
  using assms by (cases st; cases st1; cases st2) (auto simp: run_accounted_def)

lemma run_accounted_message:
  assumes "accounted e label db db'" and "known \<longrightarrow> answers_known e"
  shows "run_accounted known (db, counts) (db', count_result label counts)"
  using assms by (cases label) (auto simp: run_accounted_def accounted_def count_result_def)

lemma loop_accounted:
  assumes "consume_loop pg_handleMessage visits (db, counts) = (st', acts)" and "stock_ok db"
    and "\<forall>v \<in> set visits. only_consumer (vi_env v) \<and> (known \<longrightarrow> answers_known (vi_env v))"
  shows "run_accounted known (db, counts) st'
    \<and> total_count (snd st') = total_count counts + length (filter is_handled acts)"
  using assms
proof (induction visits arbitrary: db counts acts)
  case (Cons v visits)
  show ?case
  proof (cases "vi_fetch v")
    case (Fetched off m)
    from Cons.prems(1) Fetched show ?thesis
    proof (cases rule: consume_loop_Fetched)
      case crash
      then show ?thesis using pgs.handle_no_panic unfolding pg_handleMessage_def by blast
    next
      case (returned r st1 acts')
      obtain db1 counts1 where st1: "st1 = (db1, counts1)" by fastforce
      have "only_consumer (vi_env v)" "known \<longrightarrow> answers_known (vi_env v)" using Cons.prems(3) by auto
      with handle_accounted [OF returned(1) [unfolded st1] _ Cons.prems(2)] obtain label where
        label: "counts1 = count_result label counts" "accounted (vi_env v) label db db1" "stock_ok db1" by blast
      have "run_accounted known (db, counts) (db1, counts1)"
        unfolding label(1) by (rule run_accounted_message) (use label(2) Cons.prems(3) in auto)
      moreover have rest: "run_accounted known (db1, counts1) st'
          \<and> total_count (snd st') = total_count counts1 + length (filter is_handled acts')"
        using Cons.IH [OF returned(2) [unfolded st1] label(3)] Cons.prems(3) by simp
      moreover have "length (filter is_handled acts) = Suc (length (filter is_handled acts'))"
        using returned(3) by (auto split: option.splits)
      ultimately show ?thesis using run_accounted_trans label(1) by (auto simp: total_count_result)
    qed
  qed (use Cons in \<open>auto simp: run_accounted_refl\<close>)
qed (auto simp: run_accounted_refl)

text \<open>
  Property C36 (functional). The counter of inventory-service tells the truth. After any run of
  the consumer's loop, alone on its topic: the series together have grown by the messages handled; those
  counted as \<open>reserved\<close> and \<open>insufficient_stock\<close> are no more than the orders reserved and the
  failures recorded since, exactly as many when every commit was answered, and what is missing is
  counted as \<open>error\<close>.
\<close>

theorem inventory_counters_account:
  assumes "inv_Run visits (db, \<lambda>_. 0) = ((db', counts), acts)" and "stock_ok db"
    and "\<forall>v \<in> set visits. only_consumer (vi_env v)"
  shows "sum_list (map snd (inv_series counts)) = length (filter is_handled acts)
    \<and> length (processed db) + series_value (inv_series counts) ''reserved'' \<le> length (processed db')
    \<and> failed_events db + series_value (inv_series counts) ''insufficient_stock'' \<le> failed_events db'
    \<and> length (processed db') + failed_events db' \<le> length (processed db) + failed_events db
        + series_value (inv_series counts) ''reserved'' + series_value (inv_series counts) ''insufficient_stock''
        + series_value (inv_series counts) ''error''
    \<and> ((\<forall>v \<in> set visits. answers_known (vi_env v)) \<longrightarrow>
        length (processed db) + series_value (inv_series counts) ''reserved'' = length (processed db')
        \<and> failed_events db + series_value (inv_series counts) ''insufficient_stock'' = failed_events db')"
proof -
  let ?known = "\<forall>v \<in> set visits. answers_known (vi_env v)"
  have "run_accounted ?known (db, \<lambda>_. 0) (db', counts)
    \<and> total_count counts = total_count (\<lambda>_. 0) + length (filter is_handled acts)"
    using loop_accounted [OF assms(1) [unfolded inv_Run_def] assms(2), of ?known] assms(3) by auto
  moreover have "sum_list (map snd (inv_series counts)) = total_count counts" for counts
    by (simp add: inv_series_def total_count_def comp_def)
  moreover have "total_count (\<lambda>_. 0) = 0" by (simp add: total_count_def inv_results_def)
  ultimately show ?thesis
    using series_value_label [of counts R_reserved] series_value_label [of counts R_insufficient_stock]
      series_value_label [of counts R_error]
    by (simp add: run_accounted_def)
qed

text \<open>An order is reserved, its message comes again, and an order for an unknown SKU is refused.\<close>

theorem inventory_counters_account_witness:
  "\<exists>db' counts acts. inv_Run (map (\<lambda>(oid, sku). \<lparr>vi_fetch = Fetched 7 (created_message oid sku 1), vi_env = sample_env, vi_commit = True\<rparr>)
        [(''o1'', ''a''), (''o1'', ''a''), (''o2'', ''zz'')]) (sample_stock, \<lambda>_. 0) = ((db', counts), acts)
    \<and> processed db' = [''o1''] \<and> failed_events db' = 1
    \<and> series_value (inv_series counts) ''reserved'' = 1 \<and> series_value (inv_series counts) ''insufficient_stock'' = 1
    \<and> sum_list (map snd (inv_series counts)) = 3"
proof -
  let ?vs = "map (\<lambda>(oid, sku). \<lparr>vi_fetch = Fetched 7 (created_message oid sku 1), vi_env = sample_env, vi_commit = True\<rparr>)
        [(''o1'', ''a''), (''o1'', ''a''), (''o2'', ''zz'')]"
  have u: "unmarshal fields_InvOrderCreatedEvent zero_InvOrderCreatedEvent (msg_value (created_message oid sku 1))
     = Some \<lparr>ic_OrderID = oid, ic_CustomerID = [],
         ic_Items = [\<lparr>ci_SKU = sku, ci_Name = [], ci_Quantity = word_of_int 1\<rparr>], ic_CreatedAt = []\<rparr>" for oid sku
    by (rule unmarshal_created_message) (simp add: int64_range_def)
  obtain db' counts acts where r: "inv_Run ?vs (sample_stock, \<lambda>_. 0) = ((db', counts), acts)" by (metis prod.exhaust)
  then have "processed db' = [''o1''] \<and> failed_events db' = 1 \<and> length (filter is_handled acts) = 3"
    by (auto simp: inv_Run_def run_inventory u sample_stock_def go_simps row_to_stock_def Reserve_def failed_events_def
        exec_update_stock_def quantity_column_def int4_range_def finish_reservation_def insert_processed_def new_outbox_row_def update_where_Cons)
  moreover have env: "\<forall>v \<in> set ?vs. only_consumer (vi_env v)" "\<forall>v \<in> set ?vs. answers_known (vi_env v)"
    by (simp_all add: only_consumer_def answers_known_def sample_env_def)
  moreover have "processed sample_stock = []" "failed_events sample_stock = 0" by (simp_all add: sample_stock_def failed_events_def)
  ultimately show ?thesis
    using inventory_counters_account [OF r sample_stock_ok(1) env(1)]
    by (intro exI [of _ db'] exI [of _ counts] exI [of _ acts] conjI [OF r]) simp
qed

end
