(* ===== verification/Order_Proto.thy ===== *)
theory Order_Proto
  imports Order_Domain
begin

text \<open>
  The messages of \<open>proto/order/v1/order.proto\<close> as the generated Go structs hold them, shared by
  order-service (the server) and api-gateway (the client), and the gRPC status a call ends with.

  A message-typed field is a pointer and may be nil (\<open>option\<close>); the elements of a repeated field
  are not nil. A \<open>Timestamp\<close> is the instant it stands for.
\<close>

record ProtoMoney =
  pm_Amount :: int64
  pm_Currency :: string

record ProtoItem =
  pi_Sku :: string
  pi_Name :: string
  pi_Price :: "ProtoMoney option"
  pi_Quantity :: int32

record CreateOrderRequest =
  cq_CustomerId :: string
  cq_Items :: "ProtoItem list"

record GetOrderRequest =
  gq_Id :: string

record ListOrdersRequest =
  lq_CustomerId :: string
  lq_Cursor :: string
  lq_Limit :: int32

record OrderResponse =
  rs_Id :: string
  rs_CustomerId :: string
  rs_Items :: "ProtoItem list"
  rs_TotalCost :: "ProtoMoney option"
  rs_Status :: string
  rs_Version :: int32
  rs_CreatedAt :: "gotime option"
  rs_UpdatedAt :: "gotime option"

record ListOrdersResponse =
  ls_Orders :: "OrderResponse list"
  ls_NextCursor :: string

datatype grpc_code = OK | Canceled | Unknown | InvalidArgument | DeadlineExceeded | NotFound
  | FailedPrecondition | Aborted | Internal | Unavailable | ResourceExhausted | Unimplemented | Unauthenticated

text \<open>A call's error: \<open>status.Error(code, message)\<close>.\<close>

type_synonym rpc_error = "grpc_code \<times> string"

section \<open>Quantities: \<open>int32\<close> on the wire, \<open>int\<close> in the domain\<close>

definition int32_of_int :: "int64 \<Rightarrow> int32" where
  "int32_of_int w = ucast w"

definition int_of_int32 :: "int32 \<Rightarrow> int64" where
  "int_of_int32 w = scast w"

lemma int32_round_trip [simp]: "int32_of_int (int_of_int32 w) = w"
  by (rule bit_word_eqI) (simp add: int32_of_int_def int_of_int32_def bit_unsigned_iff bit_signed_iff)

lemma sint_int_of_int32: "sint (int_of_int32 w) = sint w"
  unfolding int_of_int32_def by (rule sint_up_scast) (simp add: is_up)

end
