(* ===== verification/Gateway_Orders.thy ===== *)
theory Gateway_Orders
  imports Order_Proto
begin

text \<open>
  api-gateway's order endpoints: \<open>internal/delivery/http/order_handler.go\<close> over the client of
  \<open>internal/ports/order_client.go\<close> and the Redis cache of \<open>internal/cache/redis_cache.go\<close>.

  The gRPC client is an argument of each handler. Redis is a parameter: for each call whether it
  answers. A time is a natural number of nanoseconds. The validator's test for UUID texts and the
  texts of binding errors are arguments. A panic is answered by gin's recovery with 500 and no body.
\<close>

section \<open>Requests and responses\<close>

record gw_createOrderItemRequest =
  gi_SKU :: string
  gi_Name :: string
  gi_Price :: int64
  gi_Currency :: string
  gi_Quantity :: int32

record gw_createOrderRequest =
  gr_CustomerID :: string
  gr_Items :: "gw_createOrderItemRequest list"

fun decode_int32 :: "int32 \<Rightarrow> json \<Rightarrow> int32 option" where
  "decode_int32 old (JInt i) = (if int4_range i then Some (word_of_int i) else None)"
| "decode_int32 old JNull = Some old"
| "decode_int32 old _ = None"

definition fields_gw_item_request :: "gw_createOrderItemRequest fields" where
  "fields_gw_item_request =
     [(''sku'', \<lambda>j r. map_option (\<lambda>s. r\<lparr>gi_SKU := s\<rparr>) (decode_string (gi_SKU r) j)),
      (''name'', \<lambda>j r. map_option (\<lambda>s. r\<lparr>gi_Name := s\<rparr>) (decode_string (gi_Name r) j)),
      (''price'', \<lambda>j r. map_option (\<lambda>s. r\<lparr>gi_Price := s\<rparr>) (decode_int (gi_Price r) j)),
      (''currency'', \<lambda>j r. map_option (\<lambda>s. r\<lparr>gi_Currency := s\<rparr>) (decode_string (gi_Currency r) j)),
      (''quantity'', \<lambda>j r. map_option (\<lambda>s. r\<lparr>gi_Quantity := s\<rparr>) (decode_int32 (gi_Quantity r) j))]"

definition zero_gw_item_request :: gw_createOrderItemRequest where
  "zero_gw_item_request = \<lparr>gi_SKU = [], gi_Name = [], gi_Price = 0, gi_Currency = [], gi_Quantity = 0\<rparr>"

definition fields_gw_request :: "gw_createOrderRequest fields" where
  "fields_gw_request =
     [(''customer_id'', \<lambda>j r. map_option (\<lambda>s. r\<lparr>gr_CustomerID := s\<rparr>) (decode_string (gr_CustomerID r) j)),
      (''items'', \<lambda>j r. map_option (\<lambda>s. r\<lparr>gr_Items := s\<rparr>)
         (decode_slice (decode_struct fields_gw_item_request zero_gw_item_request) j))]"

definition gw_valid_item :: "gw_createOrderItemRequest \<Rightarrow> bool" where
  "gw_valid_item r \<longleftrightarrow> gi_SKU r \<noteq> [] \<and> gi_Name r \<noteq> [] \<and> gi_Price r \<noteq> 0 \<and> 0 < sint (gi_Price r)
     \<and> gi_Currency r \<noteq> [] \<and> rune_count (gi_Currency r) = 3 \<and> gi_Quantity r \<noteq> 0 \<and> 0 < sint (gi_Quantity r)"

definition gw_bind :: "(string \<Rightarrow> bool) \<Rightarrow> wire \<Rightarrow> gw_createOrderRequest option" where
  "gw_bind is_uuid body =
     (case unmarshal fields_gw_request \<lparr>gr_CustomerID = [], gr_Items = []\<rparr> body of
        None \<Rightarrow> None
      | Some req \<Rightarrow>
          if gr_CustomerID req \<noteq> [] \<and> is_uuid (gr_CustomerID req) \<and> 1 \<le> length (gr_Items req)
             \<and> list_all gw_valid_item (gr_Items req)
          then Some req else None)"

record orderItemResponse =
  gp_SKU :: string
  gp_Name :: string
  gp_Price :: int64
  gp_Currency :: string
  gp_Quantity :: int32

record gw_orderResponse =
  go_ID :: string
  go_CustomerID :: string
  go_Items :: "orderItemResponse list"
  go_TotalCost :: int64
  go_Currency :: string
  go_Status :: string
  go_Version :: int32
  go_CreatedAt :: string
  go_UpdatedAt :: string

datatype gw_body = GwError string | GwOrder gw_orderResponse | GwOrders "gw_orderResponse list" string | GwNoBody | GwRedirect

text \<open>\<open>AsTime\<close> of a nil timestamp is the epoch.\<close>

definition as_time :: "gotime option \<Rightarrow> gotime" where
  "as_time t = (case t of None \<Rightarrow> GoTime 1970 1 1 0 0 0 0 | Some t \<Rightarrow> t)"

fun gw_items :: "ProtoItem list \<Rightarrow> orderItemResponse list call" where
  "gw_items [] = Returns []"
| "gw_items (it # items) =
     (case pi_Price it of
        None \<Rightarrow> Panics
      | Some p \<Rightarrow>
          (case gw_items items of
             Panics \<Rightarrow> Panics
           | Returns rest \<Rightarrow> Returns (\<lparr>gp_SKU = pi_Sku it, gp_Name = pi_Name it, gp_Price = pm_Amount p,
               gp_Currency = pm_Currency p, gp_Quantity = pi_Quantity it\<rparr> # rest)))"

definition gw_toOrderResponse :: "OrderResponse \<Rightarrow> gw_orderResponse call" where
  "gw_toOrderResponse r =
     (case gw_items (rs_Items r) of
        Panics \<Rightarrow> Panics
      | Returns items \<Rightarrow>
          (case rs_TotalCost r of
             None \<Rightarrow> Panics
           | Some c \<Rightarrow> Returns \<lparr>go_ID = rs_Id r, go_CustomerID = rs_CustomerId r, go_Items = items,
               go_TotalCost = pm_Amount c, go_Currency = pm_Currency c, go_Status = rs_Status r,
               go_Version = rs_Version r, go_CreatedAt = rfc3339 (as_time (rs_CreatedAt r)),
               go_UpdatedAt = rfc3339 (as_time (rs_UpdatedAt r))\<rparr>))"

section \<open>Errors of the client\<close>

text \<open>What \<open>status.FromError\<close> tells apart.\<close>

datatype client_error = StatusError grpc_code string | PlainError string

definition http_code :: "grpc_code \<Rightarrow> nat" where
  "http_code c =
     (case c of InvalidArgument \<Rightarrow> 400 | NotFound \<Rightarrow> 404 | FailedPrecondition \<Rightarrow> 409 | Aborted \<Rightarrow> 409
      | Unavailable \<Rightarrow> 503 | _ \<Rightarrow> 500)"

definition writeGRPCError :: "client_error \<Rightarrow> nat \<times> gw_body" where
  "writeGRPCError e =
     (case e of
        PlainError m \<Rightarrow> (500, GwError ''internal error'')
      | StatusError c m \<Rightarrow> (http_code c, GwError m))"

section \<open>The cache\<close>

definition marshal_orderItemResponse :: "orderItemResponse \<Rightarrow> json" where
  "marshal_orderItemResponse i = JObj [(''sku'', JStr (gp_SKU i)), (''name'', JStr (gp_Name i)),
     (''price'', marshal_int (gp_Price i)), (''currency'', JStr (gp_Currency i)),
     (''quantity'', JInt (sint (gp_Quantity i)))]"

definition marshal_orderResponse :: "gw_orderResponse \<Rightarrow> json" where
  "marshal_orderResponse r = JObj [(''id'', JStr (go_ID r)), (''customer_id'', JStr (go_CustomerID r)),
     (''items'', JArr (map marshal_orderItemResponse (go_Items r))),
     (''total_cost'', marshal_int (go_TotalCost r)), (''currency'', JStr (go_Currency r)),
     (''status'', JStr (go_Status r)), (''version'', JInt (sint (go_Version r))),
     (''created_at'', JStr (go_CreatedAt r)), (''updated_at'', JStr (go_UpdatedAt r))]"

definition fields_orderItemResponse :: "orderItemResponse fields" where
  "fields_orderItemResponse =
     [(''sku'', \<lambda>j r. map_option (\<lambda>s. r\<lparr>gp_SKU := s\<rparr>) (decode_string (gp_SKU r) j)),
      (''name'', \<lambda>j r. map_option (\<lambda>s. r\<lparr>gp_Name := s\<rparr>) (decode_string (gp_Name r) j)),
      (''price'', \<lambda>j r. map_option (\<lambda>s. r\<lparr>gp_Price := s\<rparr>) (decode_int (gp_Price r) j)),
      (''currency'', \<lambda>j r. map_option (\<lambda>s. r\<lparr>gp_Currency := s\<rparr>) (decode_string (gp_Currency r) j)),
      (''quantity'', \<lambda>j r. map_option (\<lambda>s. r\<lparr>gp_Quantity := s\<rparr>) (decode_int32 (gp_Quantity r) j))]"

definition zero_orderItemResponse :: orderItemResponse where
  "zero_orderItemResponse = \<lparr>gp_SKU = [], gp_Name = [], gp_Price = 0, gp_Currency = [], gp_Quantity = 0\<rparr>"

definition fields_orderResponse :: "gw_orderResponse fields" where
  "fields_orderResponse =
     [(''id'', \<lambda>j r. map_option (\<lambda>s. r\<lparr>go_ID := s\<rparr>) (decode_string (go_ID r) j)),
      (''customer_id'', \<lambda>j r. map_option (\<lambda>s. r\<lparr>go_CustomerID := s\<rparr>) (decode_string (go_CustomerID r) j)),
      (''items'', \<lambda>j r. map_option (\<lambda>s. r\<lparr>go_Items := s\<rparr>)
         (decode_slice (decode_struct fields_orderItemResponse zero_orderItemResponse) j)),
      (''total_cost'', \<lambda>j r. map_option (\<lambda>s. r\<lparr>go_TotalCost := s\<rparr>) (decode_int (go_TotalCost r) j)),
      (''currency'', \<lambda>j r. map_option (\<lambda>s. r\<lparr>go_Currency := s\<rparr>) (decode_string (go_Currency r) j)),
      (''status'', \<lambda>j r. map_option (\<lambda>s. r\<lparr>go_Status := s\<rparr>) (decode_string (go_Status r) j)),
      (''version'', \<lambda>j r. map_option (\<lambda>s. r\<lparr>go_Version := s\<rparr>) (decode_int32 (go_Version r) j)),
      (''created_at'', \<lambda>j r. map_option (\<lambda>s. r\<lparr>go_CreatedAt := s\<rparr>) (decode_string (go_CreatedAt r) j)),
      (''updated_at'', \<lambda>j r. map_option (\<lambda>s. r\<lparr>go_UpdatedAt := s\<rparr>) (decode_string (go_UpdatedAt r) j))]"

definition zero_orderResponse :: gw_orderResponse where
  "zero_orderResponse = \<lparr>go_ID = [], go_CustomerID = [], go_Items = [], go_TotalCost = 0, go_Currency = [],
     go_Status = [], go_Version = 0, go_CreatedAt = [], go_UpdatedAt = []\<rparr>"

text \<open>Redis: each key with its value and the time it expires.\<close>

type_synonym cache = "string \<rightharpoonup> wire \<times> nat"

definition live_value :: "nat \<Rightarrow> string \<Rightarrow> cache \<Rightarrow> wire option" where
  "live_value now key c = (case c key of None \<Rightarrow> None | Some (v, expires) \<Rightarrow> if now < expires then Some v else None)"

text \<open>\<open>Get\<close>: an error, a miss (\<open>Inr None\<close>) or the decoded value. \<open>fails\<close>: Redis's error.\<close>

definition cache_Get :: "string option \<Rightarrow> nat \<Rightarrow> string \<Rightarrow> cache \<Rightarrow> string + gw_orderResponse option" where
  "cache_Get fails now key c =
     (case fails of
        Some m \<Rightarrow> Inl (''redis get: '' @ m)
      | None \<Rightarrow>
          (case live_value now key c of
             None \<Rightarrow> Inr None
           | Some v \<Rightarrow>
               (case unmarshal fields_orderResponse zero_orderResponse v of
                  None \<Rightarrow> Inl ''unmarshal cached value''
                | Some r \<Rightarrow> Inr (Some r))))"

text \<open>A failing \<open>SET\<close>, with whether Redis has stored the value although its answer was lost.\<close>

definition cache_Set ::
  "(string \<times> bool) option \<Rightarrow> nat \<Rightarrow> nat \<Rightarrow> string \<Rightarrow> gw_orderResponse \<Rightarrow> cache \<Rightarrow> string option \<times> cache" where
  "cache_Set fails ttl now key r c =
     (let stored = c(key \<mapsto> (Doc (marshal_orderResponse r), now + ttl)) in
      case fails of
        Some (m, took_effect) \<Rightarrow> (Some (''redis set: '' @ m), if took_effect then stored else c)
      | None \<Rightarrow> (None, stored))"

section \<open>Handlers\<close>

definition item_request_to_proto :: "gw_createOrderItemRequest \<Rightarrow> ProtoItem" where
  "item_request_to_proto it = \<lparr>pi_Sku = gi_SKU it, pi_Name = gi_Name it,
     pi_Price = Some \<lparr>pm_Amount = gi_Price it, pm_Currency = gi_Currency it\<rparr>, pi_Quantity = gi_Quantity it\<rparr>"

definition respond :: "nat \<Rightarrow> OrderResponse \<Rightarrow> nat \<times> gw_body" where
  "respond code resp = (case gw_toOrderResponse resp of Panics \<Rightarrow> (500, GwNoBody) | Returns r \<Rightarrow> (code, GwOrder r))"

definition gw_CreateOrder ::
  "(string \<Rightarrow> bool) \<Rightarrow> string \<Rightarrow> (CreateOrderRequest \<Rightarrow> 'st \<Rightarrow> (client_error + OrderResponse) \<times> 'st) \<Rightarrow> wire \<Rightarrow> 'st
   \<Rightarrow> (nat \<times> gw_body) \<times> 'st" where
  "gw_CreateOrder is_uuid bind_text client body st =
     (case gw_bind is_uuid body of
        None \<Rightarrow> ((400, GwError bind_text), st)
      | Some req \<Rightarrow>
          (case client \<lparr>cq_CustomerId = gr_CustomerID req, cq_Items = map item_request_to_proto (gr_Items req)\<rparr> st of
             (Inl e, st') \<Rightarrow> (writeGRPCError e, st')
           | (Inr resp, st') \<Rightarrow> (respond 201 resp, st')))"

text \<open>
  \<open>later\<close> is the time of the write to the cache; \<open>get_fails\<close> and \<open>set_fails\<close> Redis's
  errors.
\<close>

definition cache_key :: "string \<Rightarrow> string" where
  "cache_key oid = ''order:'' @ oid"

definition gw_GetOrder ::
  "string option \<Rightarrow> (string \<times> bool) option \<Rightarrow> nat \<Rightarrow> (GetOrderRequest \<Rightarrow> client_error + OrderResponse) \<Rightarrow> nat \<Rightarrow> nat
   \<Rightarrow> string \<Rightarrow> cache \<Rightarrow> (nat \<times> gw_body) \<times> cache" where
  "gw_GetOrder get_fails set_fails ttl client now later oid c =
     (case cache_Get get_fails now (cache_key oid) c of
        Inr (Some cached) \<Rightarrow> ((200, GwOrder cached), c)
      | _ \<Rightarrow>
          (case client \<lparr>gq_Id = oid\<rparr> of
             Inl e \<Rightarrow> (writeGRPCError e, c)
           | Inr resp \<Rightarrow>
               (case gw_toOrderResponse resp of
                  Panics \<Rightarrow> ((500, GwNoBody), c)
                | Returns result \<Rightarrow>
                    ((200, GwOrder result), snd (cache_Set set_fails ttl later (cache_key oid) result c)))))"

fun gw_orders :: "OrderResponse list \<Rightarrow> gw_orderResponse list call" where
  "gw_orders [] = Returns []"
| "gw_orders (r # rs) =
     (case gw_toOrderResponse r of
        Panics \<Rightarrow> Panics
      | Returns x \<Rightarrow> (case gw_orders rs of Panics \<Rightarrow> Panics | Returns xs \<Rightarrow> Returns (x # xs)))"

definition gw_ListOrders ::
  "(ListOrdersRequest \<Rightarrow> client_error + ListOrdersResponse) \<Rightarrow> string \<Rightarrow> string \<Rightarrow> nat \<times> gw_body" where
  "gw_ListOrders client customerID cursor =
     (if customerID = [] then (400, GwError ''customer_id is required'')
      else
        (case client \<lparr>lq_CustomerId = customerID, lq_Cursor = cursor, lq_Limit = 20\<rparr> of
           Inl e \<Rightarrow> writeGRPCError e
         | Inr resp \<Rightarrow>
             (case gw_orders (ls_Orders resp) of
                Panics \<Rightarrow> (500, GwNoBody)
              | Returns rs \<Rightarrow> (200, GwOrders rs (ls_NextCursor resp)))))"

section \<open>Lemmas on the cache\<close>

lemma sint_int4_range [simp]: "int4_range (sint (w :: int32))"
  using sint_range_size [of w] by (simp add: int4_range_def word_size)

lemma decode_int32_sint [simp]: "decode_int32 old (JInt (sint w)) = Some w"
  by (simp add: sint_int4_range)

lemma unmarshal_item:
  "decode_struct fields_orderItemResponse zero_orderItemResponse (marshal_orderItemResponse i) = Some i"
  by (cases i) (simp add: fields_orderItemResponse_def zero_orderItemResponse_def marshal_orderItemResponse_def
      find_field_def upper_def)

lemma unmarshal_marshal_orderResponse:
  "unmarshal fields_orderResponse zero_orderResponse (Doc (marshal_orderResponse r)) = Some r"
proof -
  have "those (map (decode_struct fields_orderItemResponse zero_orderItemResponse)
      (map marshal_orderItemResponse is)) = Some is" for "is"
    using those_map_cong [of "is" "decode_struct fields_orderItemResponse zero_orderItemResponse \<circ> marshal_orderItemResponse" "\<lambda>i. i"]
    by (simp add: unmarshal_item)
  then show ?thesis
    by (cases r) (simp add: fields_orderResponse_def zero_orderResponse_def marshal_orderResponse_def
        find_field_def upper_def del: map_map)
qed

lemma cache_key_inject [simp]: "cache_key a = cache_key b \<longleftrightarrow> a = b"
  by (simp add: cache_key_def)

end
