(* ===== verification/Gateway_Limiter.thy ===== *)
theory Gateway_Limiter
  imports Complex_Main Market_Prelude
begin

text \<open>
  api-gateway's rate limiter: the token bucket of \<open>internal/ratelimit/limiter.go\<close> (a script that
  Redis runs atomically) and the middleware \<open>internal/delivery/http/middleware/rate_limit.go\<close>.

  Numbers are those of an ordered field: the script computes in floating point, whose rounding is
  not modelled. Redis is a parameter: a call answers, fails without running the script, or runs it
  and loses the answer. Its clock, which ends a key's life an hour after the last write, is taken to
  be the gateway's. \<open>capacity\<close> and \<open>rate\<close> are 10 and 2 in \<open>main.go\<close>.
\<close>

datatype redis_call = RedisAnswers | RedisFails string | RedisLost string

type_synonym 'a bucket = "'a \<times> 'a"
type_synonym 'a buckets = "string \<rightharpoonup> 'a bucket"

section \<open>Definitions\<close>

text \<open>\<open>HMGET\<close> of a key that may have expired, an hour after its last write.\<close>

definition live_bucket :: "'a::linordered_field \<Rightarrow> 'a bucket option \<Rightarrow> 'a bucket option" where
  "live_bucket now b = (case b of None \<Rightarrow> None | Some (tokens, last_refill) \<Rightarrow>
     if now - last_refill < 3600 then Some (tokens, last_refill) else None)"

definition tokenBucketScript ::
  "'a::linordered_field \<Rightarrow> 'a \<Rightarrow> 'a \<Rightarrow> 'a \<Rightarrow> 'a bucket option \<Rightarrow> bool \<times> 'a bucket" where
  "tokenBucketScript capacity refill_rate now requested b =
     (let (tokens, last_refill) = (case live_bucket now b of None \<Rightarrow> (capacity, now) | Some bk \<Rightarrow> bk);
          elapsed = now - last_refill;
          refill = elapsed * refill_rate;
          tokens' = min capacity (tokens + refill) in
      if requested \<le> tokens' then (True, (tokens' - requested, now)) else (False, (tokens', now)))"

definition Allow ::
  "redis_call \<Rightarrow> 'a::linordered_field \<Rightarrow> 'a \<Rightarrow> 'a \<Rightarrow> string \<Rightarrow> 'a buckets \<Rightarrow> (string + bool) \<times> 'a buckets" where
  "Allow rc capacity rate now key store =
     (let (allowed, b) = tokenBucketScript capacity rate now 1 (store key) in
      case rc of
        RedisAnswers \<Rightarrow> (Inr allowed, store(key \<mapsto> b))
      | RedisFails m \<Rightarrow> (Inl (''eval token bucket script: '' @ m), store)
      | RedisLost m \<Rightarrow> (Inl (''eval token bucket script: '' @ m), store(key \<mapsto> b)))"

definition limiter_key :: "string \<Rightarrow> string" where
  "limiter_key clientIP = ''ratelimit:'' @ clientIP"

lemma limiter_key_inject [simp]: "limiter_key a = limiter_key b \<longleftrightarrow> a = b"
  by (simp add: limiter_key_def)

text \<open>
  The middleware in front of a handler \<open>next\<close>: \<open>Inl\<close> is the answer 429, \<open>Inr\<close> what
  the handler makes of the request.
\<close>

definition RateLimit ::
  "redis_call \<Rightarrow> 'a::linordered_field \<Rightarrow> 'a \<Rightarrow> 'a \<Rightarrow> string \<Rightarrow> ('st \<Rightarrow> 'resp \<times> 'st) \<Rightarrow> 'a buckets \<times> 'st
   \<Rightarrow> (nat \<times> string + 'resp) \<times> 'a buckets \<times> 'st" where
  "RateLimit rc capacity rate now clientIP next_handler s =
     (case s of (store, st) \<Rightarrow>
      case Allow rc capacity rate now (limiter_key clientIP) store of
        (Inl e, store') \<Rightarrow> (case next_handler st of (resp, st') \<Rightarrow> (Inr resp, store', st'))
      | (Inr False, store') \<Rightarrow> (Inl (429, ''rate limit exceeded''), store', st)
      | (Inr True, store') \<Rightarrow> (case next_handler st of (resp, st') \<Rightarrow> (Inr resp, store', st')))"

section \<open>The bucket\<close>

text \<open>Requests at the given times against one bucket: which are allowed, and the bucket after them.\<close>

fun bucket_run ::
  "'a::linordered_field \<Rightarrow> 'a \<Rightarrow> 'a list \<Rightarrow> 'a bucket option \<Rightarrow> bool list \<times> 'a bucket option" where
  "bucket_run capacity rate [] b = ([], b)"
| "bucket_run capacity rate (now # moments) b =
     (let (allowed, b1) = tokenBucketScript capacity rate now 1 b;
          (rest, b2) = bucket_run capacity rate moments (Some b1) in (allowed # rest, b2))"

definition bucket_ok :: "'a::linordered_field \<Rightarrow> 'a \<Rightarrow> 'a bucket option \<Rightarrow> bool" where
  "bucket_ok capacity now b \<longleftrightarrow>
     (case b of None \<Rightarrow> True | Some (tokens, last_refill) \<Rightarrow> 0 \<le> tokens \<and> tokens \<le> capacity \<and> last_refill \<le> now)"

text \<open>What the bucket may still give at \<open>now\<close> before anything is refilled later.\<close>

definition level :: "'a::linordered_field \<Rightarrow> 'a \<Rightarrow> 'a \<Rightarrow> 'a bucket option \<Rightarrow> 'a" where
  "level capacity rate now b =
     (case b of None \<Rightarrow> capacity | Some (tokens, last_refill) \<Rightarrow> min capacity (tokens + (now - last_refill) * rate))"

lemma level_script:
  assumes "bucket_ok capacity now b" and "0 \<le> rate" and "capacity \<le> rate * 3600"
  shows "tokenBucketScript capacity rate now 1 b
    = (if 1 \<le> level capacity rate now b then (True, (level capacity rate now b - 1, now))
       else (False, (level capacity rate now b, now)))"
proof (cases b)
  case (Some bk)
  obtain tokens last_refill where bk: "bk = (tokens, last_refill)" by fastforce
  show ?thesis
  proof (cases "now - last_refill < 3600")
    case False
    then have "rate * 3600 \<le> rate * (now - last_refill)"
      using assms(2) by (intro mult_left_mono) auto
    then have "capacity \<le> tokens + (now - last_refill) * rate"
      using assms(1,3) by (simp add: bucket_ok_def Some bk mult.commute)
    with False show ?thesis
      by (simp add: tokenBucketScript_def live_bucket_def level_def Some bk)
  qed (simp add: tokenBucketScript_def live_bucket_def level_def Some bk Let_def)
qed (simp add: tokenBucketScript_def live_bucket_def level_def Let_def)

lemma level_le: "level capacity rate now b \<le> capacity"
  by (simp add: level_def split: option.splits)

lemma level_nonneg:
  "bucket_ok capacity now b \<Longrightarrow> 0 \<le> rate \<Longrightarrow> 0 \<le> capacity \<Longrightarrow> 0 \<le> level capacity rate now b"
  by (auto simp: level_def bucket_ok_def split: option.splits)

lemma level_later:
  "now \<le> later \<Longrightarrow> level capacity rate later (Some (t, now)) \<le> t + (later - now) * rate"
  by (simp add: level_def)

lemma bucket_run_bound:
  assumes "0 \<le> rate" and "1 \<le> capacity" and "capacity \<le> rate * 3600"
  shows "bucket_ok capacity (hd moments) b \<Longrightarrow> sorted moments \<Longrightarrow> moments \<noteq> [] \<Longrightarrow>
    of_nat (length (filter (\<lambda>a. a) (fst (bucket_run capacity rate moments b))))
      \<le> level capacity rate (hd moments) b + (last moments - hd moments) * rate"
proof (induction moments arbitrary: b)
  case (Cons now moments)
  have ok: "bucket_ok capacity now b" using Cons.prems(1) by simp
  let ?lv = "level capacity rate now b"
  note script = level_script [OF ok assms(1,3)]
  have nn: "0 \<le> ?lv" using level_nonneg [OF ok assms(1)] assms(2) by simp
  obtain a t where at: "tokenBucketScript capacity rate now 1 b = (a, (t, now))"
    "t = ?lv - (if a then 1 else 0)" "0 \<le> t" "t \<le> capacity"
    using script nn level_le [of capacity rate now b] by (cases "1 \<le> ?lv") auto
  show ?case
  proof (cases moments)
    case Nil
    with at nn show ?thesis by (auto simp: Let_def split: if_splits)
  next
    case (Cons now2 rest)
    have le: "now \<le> now2" using Cons.prems(2) Cons by simp
    have "bucket_ok capacity (hd moments) (Some (t, now))" using at le Cons by (simp add: bucket_ok_def)
    with Cons.IH [of "Some (t, now)"] Cons.prems(2) Cons
    have "of_nat (length (filter (\<lambda>a. a) (fst (bucket_run capacity rate moments (Some (t, now))))))
        \<le> level capacity rate now2 (Some (t, now)) + (last moments - now2) * rate" by simp
    also have "\<dots> \<le> t + (now2 - now) * rate + (last moments - now2) * rate"
      using level_later [OF le] by simp
    finally have "of_nat (length (filter (\<lambda>a. a) (fst (bucket_run capacity rate moments (Some (t, now))))))
        \<le> t + (last moments - now) * rate"
      by (simp add: algebra_simps)
    then show ?thesis using at Cons by (auto simp: Let_def split: prod.splits if_splits)
  qed
qed simp

section \<open>Clients\<close>

text \<open>Requests of many clients, each with its time, while Redis answers.\<close>

fun limiter_run ::
  "'a::linordered_field \<Rightarrow> 'a \<Rightarrow> ('a \<times> string) list \<Rightarrow> 'a buckets \<Rightarrow> (string \<times> (string + bool)) list" where
  "limiter_run capacity rate [] store = []"
| "limiter_run capacity rate ((now, ip) # reqs) store =
     (case Allow RedisAnswers capacity rate now (limiter_key ip) store of
        (res, store') \<Rightarrow> (ip, res) # limiter_run capacity rate reqs store')"

definition passed :: "string \<Rightarrow> (string \<times> (string + bool)) list \<Rightarrow> nat" where
  "passed ip outcomes = length (filter (\<lambda>(ip', res). ip' = ip \<and> res = Inr True) outcomes)"

lemma limiter_run_bucket:
  "passed ip (limiter_run capacity rate reqs store)
   = length (filter (\<lambda>a. a) (fst (bucket_run capacity rate
       (map fst (filter (\<lambda>(now, ip'). ip' = ip) reqs)) (store (limiter_key ip)))))"
proof (induction reqs arbitrary: store)
  case (Cons req reqs)
  obtain now ip' where req: "req = (now, ip')" by fastforce
  obtain a b where script: "tokenBucketScript capacity rate now 1 (store (limiter_key ip')) = (a, b)"
    by (metis surj_pair)
  let ?store = "store(limiter_key ip' \<mapsto> b)"
  have step: "limiter_run capacity rate (req # reqs) store = (ip', Inr a) # limiter_run capacity rate reqs ?store"
    by (simp add: req Allow_def script)
  have count: "passed ip (limiter_run capacity rate (req # reqs) store)
      = (if ip' = ip \<and> a then 1 else 0) + passed ip (limiter_run capacity rate reqs ?store)"
    unfolding step by (simp add: passed_def)
  have look: "?store (limiter_key ip) = (if ip' = ip then Some b else store (limiter_key ip))"
    by auto
  show ?case
  proof (cases "ip' = ip")
    case True
    have "passed ip (limiter_run capacity rate reqs ?store)
        = length (filter (\<lambda>a. a) (fst (bucket_run capacity rate
            (map fst (filter (\<lambda>(now, ip'). ip' = ip) reqs)) (Some b))))"
      unfolding Cons.IH look using True by simp
    moreover have "fst (bucket_run capacity rate (now # ms) (store (limiter_key ip)))
        = a # fst (bucket_run capacity rate ms (Some b))" for ms
      using script True by (simp add: Let_def split: prod.splits)
    ultimately show ?thesis
      unfolding count using True by (simp add: req del: bucket_run.simps)
  next
    case False
    have "passed ip (limiter_run capacity rate reqs ?store)
        = length (filter (\<lambda>a. a) (fst (bucket_run capacity rate
            (map fst (filter (\<lambda>(now, ip'). ip' = ip) reqs)) (store (limiter_key ip)))))"
      unfolding Cons.IH look using False by simp
    then show ?thesis
      unfolding count using False by (simp add: req)
  qed
qed (simp add: passed_def)

section \<open>Guarantees of the limiter\<close>

text \<open>
  While Redis answers, in any interval a client gets at most
  \<open>capacity\<close> requests through plus \<open>rate\<close> for every second of it, whatever other clients do
  in between and whatever requests went before (the bucket at the start is any the script can have
  left): the burst is the capacity and the sustained rate is the refill rate. The expiry of an idle
  key gives nothing away, because an hour refills the bucket (\<open>capacity \<le> rate * 3600\<close>, which
  10 and 2 satisfy).
\<close>

theorem bucket_bound:
  assumes "0 \<le> rate" and "1 \<le> capacity" and "capacity \<le> rate * 3600"
    and "moments = map fst (filter (\<lambda>(now, ip'). ip' = ip) reqs)" and "moments \<noteq> []" and "sorted moments"
    and "bucket_ok capacity (hd moments) (store (limiter_key ip))"
  shows "of_nat (passed ip (limiter_run capacity rate reqs store))
    \<le> capacity + (last moments - hd moments) * rate"
  using bucket_run_bound [OF assms(1-3,7,6,5)] level_le [of capacity rate "hd moments" "store (limiter_key ip)"]
  by (simp add: limiter_run_bucket assms(4) [symmetric])

theorem bucket_bound_witness:
  "passed ''ip1'' (limiter_run (10::rat) 2 (replicate 12 (100, ''ip1'') @ [(100, ''ip2''), (101, ''ip1'')]) Map.empty) \<le> 12"
proof -
  let ?reqs = "replicate 12 (100::rat, ''ip1'') @ [(100, ''ip2''), (101, ''ip1'')]"
  have "of_nat (passed ''ip1'' (limiter_run (10::rat) 2 ?reqs Map.empty))
      \<le> 10 + (last (map fst (filter (\<lambda>(now, ip'). ip' = ''ip1'') ?reqs))
               - hd (map fst (filter (\<lambda>(now, ip'). ip' = ''ip1'') ?reqs))) * 2"
    by (rule bucket_bound) (simp_all add: numeral_eq_Suc bucket_ok_def)
  also have "\<dots> = of_nat 12" by (simp add: numeral_eq_Suc)
  finally show ?thesis unfolding of_nat_le_iff .
qed

text \<open>
  A client that stays silent for the time one token takes gets its next
  request through.
\<close>

theorem idle_client_passes:
  assumes "0 < rate" and "1 \<le> capacity" and "capacity \<le> rate * 3600"
    and "bucket_ok capacity now (store key)"
    and "\<forall>tokens last_refill. store key = Some (tokens, last_refill) \<longrightarrow> 1 \<le> (now - last_refill) * rate"
  shows "fst (Allow RedisAnswers capacity rate now key store) = Inr True"
proof -
  have "1 \<le> level capacity rate now (store key)"
  proof (cases "store key")
    case (Some bk)
    obtain tokens last_refill where "bk = (tokens, last_refill)" by fastforce
    with Some assms(2,4,5) show ?thesis by (simp add: level_def bucket_ok_def)
  qed (use assms(2) in \<open>simp add: level_def\<close>)
  then show ?thesis
    using level_script [OF assms(4) _ assms(3)] assms(1) by (simp add: Allow_def)
qed

theorem idle_client_passes_witness:
  "fst (Allow RedisAnswers (10::rat) 2 101 ''k'' [''k'' \<mapsto> (0, 100)]) = Inr True"
  by (rule idle_client_passes) (simp_all add: bucket_ok_def)

text \<open>
  The middleware answers 429 without running the handler exactly when
  Redis answers and the bucket has no token; otherwise the handler runs once, also when Redis
  fails, and the answer is the handler's.
\<close>

theorem RateLimit_outcome:
  "\<exists>store'. RateLimit rc capacity rate now ip next_handler (store, st) =
    (if rc = RedisAnswers \<and> \<not> fst (tokenBucketScript capacity rate now 1 (store (limiter_key ip)))
     then (Inl (429, ''rate limit exceeded''), store', st)
     else (Inr (fst (next_handler st)), store', snd (next_handler st)))"
  by (cases rc) (auto simp: RateLimit_def Allow_def split: prod.splits bool.splits)

end
