(* ===== verification/Order_Pagination.thy ===== *)
theory Order_Pagination
  imports Order_UseCase
begin

text \<open>
  Reading a customer's orders page by page: \<open>ListByCustomer\<close> of
  \<open>internal/repository/postgres/order_repo.go\<close> behind \<open>ListOrders\<close> of the use case, each
  page with the cursor the page before returned.

  \<open>list_pages\<close> is the client's loop; the database may be another one at each page
  (\<open>dbs\<close>), as other requests keep writing, and fail at each page (\<open>fs\<close>). What is shown: the walk
  ends; an order is never listed twice, and an order that is there all the time is listed unless the
  rows of a page break off unnoticed; and over a database that stands still and does not fail the
  walk gives the whole list, newest first.
\<close>

section \<open>The client's loop\<close>

text \<open>\<open>None\<close>: a page is answered with an error, or the fuel is spent.\<close>

fun list_pages ::
  "(nat \<Rightarrow> db_faults) \<Rightarrow> (nat \<Rightarrow> order_db) \<Rightarrow> string \<Rightarrow> int \<Rightarrow> nat \<Rightarrow> nat \<Rightarrow> string \<Rightarrow> Order list list option" where
  "list_pages fs dbs cust limit k 0 cursor = None"
| "list_pages fs dbs cust limit k (Suc fuel) cursor =
     (case ListOrders (ListByCustomer rfc3339_nano parse_rfc3339 (fs k)) cust cursor limit (dbs k) of
        Returns (Inr (page, next)) \<Rightarrow>
          (if next = [] then Some [page]
           else map_option ((#) page) (list_pages fs dbs cust limit (Suc k) fuel next))
      | _ \<Rightarrow> None)"

definition order_key :: "Order \<Rightarrow> gotime \<times> string" where
  "order_key ord = (CreatedAt ord, ID ord)"

text \<open>The rows behind a cursor, and the page a fetch makes of them.\<close>

definition rows_after :: "(gotime \<times> string) option \<Rightarrow> string \<Rightarrow> order_db \<Rightarrow> order_row list" where
  "rows_after after cust db =
     newest_first (filter (\<lambda>r. case after of None \<Rightarrow> True | Some k \<Rightarrow> page_key r < k) (customer_rows cust db))"

definition as_order :: "order_row \<Rightarrow> Order" where
  "as_order r = row_to_order r []"

definition cursor_of :: "(gotime \<times> string) option \<Rightarrow> string" where
  "cursor_of after = (case after of None \<Rightarrow> [] | Some (t, oid) \<Rightarrow> encodeCursor rfc3339_nano t oid)"

lemma order_key_as_order [simp]: "order_key (as_order r) = page_key r"
  by (simp add: order_key_def as_order_def page_key_def row_to_order_def)

definition newer_first :: "order_row list \<Rightarrow> bool" where
  "newer_first = sorted_wrt (\<lambda>a b. page_key b < page_key a)"

section \<open>One page\<close>

lemma set_rows_after:
  "set (rows_after after cust db)
   = {r \<in> set (customer_rows cust db). case after of None \<Rightarrow> True | Some k \<Rightarrow> page_key r < k}"
  by (auto simp: rows_after_def newest_first_def)

lemma newer_first_rows_after:
  assumes "primary_key db"
  shows "newer_first (rows_after after cust db)"
proof -
  let ?F = "filter (\<lambda>r. case after of None \<Rightarrow> True | Some k \<Rightarrow> page_key r < k) (customer_rows cust db)"
  have ids: "distinct (map or_id ?F)"
    using assms by (auto simp: primary_key_def customer_rows_def distinct_map inj_on_def)
  then have "distinct (map page_key ?F)"
    by (auto simp: distinct_map inj_on_def page_key_def)
  then have "distinct (map page_key (sort_key page_key ?F))"
    by (auto simp: distinct_map)
  then have "sorted_wrt (<) (map page_key (sort_key page_key ?F))"
    by (simp add: strict_sorted_iff)
  then show ?thesis
    by (simp add: newer_first_def rows_after_def newest_first_def sorted_wrt_rev sorted_wrt_map)
qed

text \<open>The cursors the loop meets: none, or one that decodes to its position.\<close>

definition good_after :: "(gotime \<times> string) option \<Rightarrow> bool" where
  "good_after after \<longleftrightarrow> (case after of None \<Rightarrow> True | Some (t, _) \<Rightarrow> cursor_time t)"

definition page_limit :: "int \<Rightarrow> int" where
  "page_limit limit = (if limit \<le> 0 \<or> 100 < limit then 20 else limit)"

lemma page_limit_pos: "0 < nat (page_limit limit)" "int (nat (page_limit limit)) = page_limit limit"
  "page_limit limit \<noteq> 0" "\<not> page_limit limit < 0"
  by (auto simp: page_limit_def)

lemma select_page_rows:
  "select_page f cust after (page_limit limit) db
   = (case f_exec f 0 of Some m \<Rightarrow> Inl (Opaque m) | None \<Rightarrow> Inr (take (nat (page_limit limit)) (rows_after after cust db)))"
  by (simp add: select_page_def page_limit_pos(4) rows_after_def split: option.split)

text \<open>The rows of a page that the client gets: fewer when their stream breaks off.\<close>

definition page_rows :: "db_faults \<Rightarrow> string \<Rightarrow> int \<Rightarrow> (gotime \<times> string) option \<Rightarrow> order_db \<Rightarrow> order_row list" where
  "page_rows f cust limit after db = delivered (f_rows f) (take (nat (page_limit limit)) (rows_after after cust db))"

definition no_error :: "db_faults \<Rightarrow> bool" where
  "no_error f \<longleftrightarrow> f_exec f 0 = None \<and> (\<forall>j. f_scan f j = None)"

definition next_of :: "int \<Rightarrow> order_row list \<Rightarrow> string" where
  "next_of limit page = (if length page = nat (page_limit limit) then cursor_of (Some (page_key (last page))) else [])"

lemma ListOrders_page:
  assumes "good_after after"
  shows "ListOrders (ListByCustomer rfc3339_nano parse_rfc3339 f) cust (cursor_of after) limit db = Returns (Inr (got, nxt))
      \<Longrightarrow> got = map as_order (page_rows f cust limit after db) \<and> nxt = next_of limit (page_rows f cust limit after db)"
    and "no_error f \<Longrightarrow> ListOrders (ListByCustomer rfc3339_nano parse_rfc3339 f) cust (cursor_of after) limit db
      = Returns (Inr (map as_order (page_rows f cust limit after db), next_of limit (page_rows f cust limit after db)))"
proof -
  have dec: "(if cursor_of after = [] then Inr None
      else case decodeCursor parse_rfc3339 (cursor_of after) of
        Inl e \<Rightarrow> Inl (Wrapf msg_decode_cursor e '''') | Inr k \<Rightarrow> Inr (Some k))
      = (Inr after :: order_error + _)"
    using assms by (auto simp: cursor_of_def good_after_def utc.decode_encode split: option.splits prod.splits)
  define page where "page = page_rows f cust limit after db"
  have len: "int (length page) = page_limit limit \<longleftrightarrow> length page = nat (page_limit limit)"
    using page_limit_pos(2) [of limit] by auto
  have answer: "(let page = map (\<lambda>r. row_to_order r []) page in
      if int (length page) = page_limit limit
      then (if page = [] then Panics
            else Returns (Inr (page, encodeCursor rfc3339_nano (CreatedAt (last page)) (ID (last page)))))
      else Returns (Inr (page, []))) = Returns (Inr (map as_order page, next_of limit page))"
  proof (cases "length page = nat (page_limit limit)")
    case True
    then have ne: "page \<noteq> []" using page_limit_pos(1) [of limit] by fastforce
    then have "cursor_of (Some (page_key (last page)))
      = encodeCursor rfc3339_nano (CreatedAt (last (map as_order page))) (ID (last (map as_order page)))"
      by (simp add: cursor_of_def page_key_def last_map as_order_def row_to_order_def)
    with True ne len show ?thesis by (simp add: as_order_def [symmetric] Let_def next_of_def)
  next
    case False
    with len show ?thesis by (simp add: as_order_def [symmetric] next_of_def)
  qed
  have list: "ListByCustomer rfc3339_nano parse_rfc3339 f cust (cursor_of after) (page_limit limit) db
    = (case f_exec f 0 of
         Some m \<Rightarrow> Returns (Inl (Wrapf msg_query_orders (Opaque m) ''''))
       | None \<Rightarrow> (case scan_rows (f_scan f) 0 page of
           Inl e \<Rightarrow> Returns (Inl (Wrapf ''scan order: '' e ''''))
         | Inr got \<Rightarrow> (let page = map (\<lambda>r. row_to_order r []) got in
             if int (length page) = page_limit limit
             then (if page = [] then Panics
                   else Returns (Inr (page, encodeCursor rfc3339_nano (CreatedAt (last page)) (ID (last page)))))
             else Returns (Inr (page, [])))))"
    unfolding ListByCustomer_def dec
    by (simp add: select_page_rows page_def page_rows_def split: option.split)
  have found: "ListByCustomer rfc3339_nano parse_rfc3339 f cust (cursor_of after) (page_limit limit) db
      = Returns (Inr (map as_order page, next_of limit page))"
    if "f_exec f 0 = None" "scan_rows (f_scan f) 0 page = (Inr got :: order_error + _)" for got
    using scan_rows_Inr [OF that(2)] that by (simp only: list answer option.case sum.case)
  show "ListOrders (ListByCustomer rfc3339_nano parse_rfc3339 f) cust (cursor_of after) limit db = Returns (Inr (got, nxt))
      \<Longrightarrow> got = map as_order (page_rows f cust limit after db) \<and> nxt = next_of limit (page_rows f cust limit after db)"
    unfolding ListOrders_def page_limit_def [symmetric] Let_def
    by (cases "f_exec f 0"; cases "scan_rows (f_scan f) 0 page :: order_error + _")
      (simp_all add: found page_def [symmetric], simp_all add: list)
  show "no_error f \<Longrightarrow> ListOrders (ListByCustomer rfc3339_nano parse_rfc3339 f) cust (cursor_of after) limit db
      = Returns (Inr (map as_order (page_rows f cust limit after db), next_of limit (page_rows f cust limit after db)))"
    unfolding ListOrders_def page_limit_def [symmetric] Let_def
    using found [of page] by (simp add: no_error_def page_def [symmetric] fun_eq_iff [symmetric])
qed

lemma page_rows_prefix:
  obtains m where "page_rows f cust limit after db = take m (rows_after after cust db)" "m \<le> nat (page_limit limit)"
    "f_rows f = None \<longrightarrow> m = nat (page_limit limit)"
proof (cases "f_rows f")
  case None
  with that [of "nat (page_limit limit)"] show thesis by (simp add: page_rows_def delivered_def)
next
  case (Some n)
  with that [of "min n (nat (page_limit limit))"] show thesis by (simp add: page_rows_def delivered_def)
qed

lemma page_rows_no_faults: "page_rows no_faults cust limit after db = take (nat (page_limit limit)) (rows_after after cust db)"
  by (simp add: page_rows_def delivered_def)

section \<open>The walk over a changing database\<close>

text \<open>The creation times of the customer's rows print as cursors.\<close>

definition printable_rows :: "string \<Rightarrow> order_db \<Rightarrow> bool" where
  "printable_rows cust db \<longleftrightarrow> (\<forall>r \<in> set (customer_rows cust db). cursor_time (or_created_at r))"

lemma good_after_last:
  assumes "printable_rows cust db" and "rs \<noteq> []" and "set rs \<subseteq> set (rows_after after cust db)"
  shows "good_after (Some (page_key (last rs)))"
proof -
  have "last rs \<in> set (customer_rows cust db)"
    using subsetD [OF assms(3) last_in_set [OF assms(2)]] by (simp add: set_rows_after)
  then show ?thesis using assms(1) by (auto simp: good_after_def page_key_def printable_rows_def)
qed

lemma list_pages_SomeE:
  assumes "list_pages fs dbs cust limit k (Suc fuel) (cursor_of after) = Some pages" and "good_after after"
  obtains page where "page = page_rows (fs k) cust limit after (dbs k)"
    "length page \<noteq> nat (page_limit limit) \<longrightarrow> pages = [map as_order page]"
    "length page = nat (page_limit limit) \<longrightarrow> (\<exists>pages'. pages = map as_order page # pages'
        \<and> list_pages fs dbs cust limit (Suc k) fuel (cursor_of (Some (page_key (last page)))) = Some pages')"
proof -
  let ?page = "page_rows (fs k) cust limit after (dbs k)"
  obtain got nxt where l: "ListOrders (ListByCustomer rfc3339_nano parse_rfc3339 (fs k)) cust (cursor_of after) limit (dbs k)
      = Returns (Inr (got, nxt))"
    using assms(1) by (auto split: call.splits sum.splits prod.splits)
  note page = ListOrders_page(1) [OF assms(2) l]
  have "cursor_of (Some k) \<noteq> []" for k by (simp add: cursor_of_def split: prod.splits)
  with assms(1) l page show thesis by (intro that [of ?page]) (auto simp: next_of_def split: if_splits)
qed

lemma list_pages_no_error:
  assumes "good_after after" and "no_error (fs k)"
  shows "list_pages fs dbs cust limit k (Suc fuel) (cursor_of after)
    = (let page = page_rows (fs k) cust limit after (dbs k) in
       if length page = nat (page_limit limit)
       then map_option ((#) (map as_order page))
              (list_pages fs dbs cust limit (Suc k) fuel (cursor_of (Some (page_key (last page)))))
       else Some [map as_order page])"
  by (simp add: ListOrders_page(2) [OF assms] next_of_def Let_def) (simp add: cursor_of_def split: prod.splits)

lemma list_pages_Suc:
  assumes "good_after after" and "fs k = no_faults"
  shows "list_pages fs dbs cust limit k (Suc fuel) (cursor_of after)
    = (let page = take (nat (page_limit limit)) (rows_after after cust (dbs k)) in
       if length page = nat (page_limit limit)
       then map_option ((#) (map as_order page))
              (list_pages fs dbs cust limit (Suc k) fuel (cursor_of (Some (page_key (last page)))))
       else Some [map as_order page])"
  using list_pages_no_error [OF assms(1), of fs k dbs cust limit fuel] assms(2)
  by (simp add: no_error_def page_rows_no_faults)

lemma newer_first_append:
  "newer_first (xs @ ys) \<longleftrightarrow> newer_first xs \<and> newer_first ys \<and> (\<forall>x \<in> set xs. \<forall>y \<in> set ys. page_key y < page_key x)"
  by (auto simp: newer_first_def sorted_wrt_append)

lemma newer_first_last:
  "newer_first xs \<Longrightarrow> x \<in> set xs \<Longrightarrow> page_key (last xs) \<le> page_key x"
proof (induction xs rule: rev_induct)
  case (snoc y ys)
  then show ?case by (auto simp: newer_first_append order.order_iff_strict)
qed simp

text \<open>The keys below a cursor.\<close>

definition below :: "(gotime \<times> string) option \<Rightarrow> gotime \<times> string \<Rightarrow> bool" where
  "below after key \<longleftrightarrow> (case after of None \<Rightarrow> True | Some k \<Rightarrow> key < k)"

lemma list_pages_walk:
  assumes "\<forall>k. primary_key (dbs k) \<and> printable_rows cust (dbs k)"
    and "list_pages fs dbs cust limit k fuel (cursor_of after) = Some pages" and "good_after after"
  shows "sorted_wrt (\<lambda>a b. order_key b < order_key a) (concat pages)
    \<and> (\<forall>x \<in> set (concat pages). below after (order_key x))
    \<and> ((\<forall>i. f_rows (fs i) = None) \<longrightarrow> (\<forall>key. below after key \<and> (\<forall>i. key \<in> page_key ` set (customer_rows cust (dbs i)))
         \<longrightarrow> key \<in> order_key ` set (concat pages)))"
  using assms(2,3)
proof (induction fuel arbitrary: k after pages)
  case (Suc fuel)
  define rows where "rows = rows_after after cust (dbs k)"
  obtain page where pages: "page = page_rows (fs k) cust limit after (dbs k)"
    "length page \<noteq> nat (page_limit limit) \<longrightarrow> pages = [map as_order page]"
    "length page = nat (page_limit limit) \<longrightarrow> (\<exists>pages'. pages = map as_order page # pages'
        \<and> list_pages fs dbs cust limit (Suc k) fuel (cursor_of (Some (page_key (last page)))) = Some pages')"
    using list_pages_SomeE [OF Suc.prems] .
  obtain m where m: "page = take m rows" "f_rows (fs k) = None \<longrightarrow> m = nat (page_limit limit)"
    using page_rows_prefix [of "fs k" cust limit after "dbs k"] pages(1) by (metis rows_def)
  define rest where "rest = drop m rows"
  have rows: "rows = page @ rest" by (simp add: m rest_def)
  have nf: "newer_first rows" using assms(1) by (simp add: rows_def newer_first_rows_after)
  have set_rows: "set rows = {r \<in> set (customer_rows cust (dbs k)). below after (page_key r)}"
    by (simp add: rows_def set_rows_after below_def)
  have nf_page: "newer_first page" using nf by (simp add: rows newer_first_append)
  have sorted_page: "sorted_wrt (\<lambda>a b. order_key b < order_key a) (map as_order page)"
    using nf_page by (simp add: newer_first_def sorted_wrt_map)
  have page_below: "below after (order_key x)" if "x \<in> set (map as_order page)" for x
    using that set_rows by (auto simp: rows)
  show ?case
  proof (cases "length page = nat (page_limit limit)")
    case False
    then have "pages = [map as_order page]" using pages(2) by simp
    moreover have "key \<in> page_key ` set page"
      if "f_rows (fs k) = None" "below after key" "\<forall>i. key \<in> page_key ` set (customer_rows cust (dbs i))" for key
    proof -
      have "rest = []" using False m that(1) by (simp add: rest_def)
      with that(2,3) set_rows rows show ?thesis by auto
    qed
    ultimately show ?thesis using sorted_page page_below by (auto simp: image_image)
  next
    case True
    let ?k = "page_key (last page)"
    obtain pages' where p: "pages = map as_order page # pages'"
      "list_pages fs dbs cust limit (Suc k) fuel (cursor_of (Some ?k)) = Some pages'"
      using pages(3) True by blast
    have ne: "page \<noteq> []" using True page_limit_pos(1) [of limit] by fastforce
    have good: "good_after (Some ?k)"
      by (rule good_after_last [of cust "dbs k" page after])
        (use assms(1) ne rows in \<open>auto simp: rows_def [symmetric]\<close>)
    note IH = Suc.IH [OF p(2) good]
    have k_below: "below after ?k" using page_below ne by (force simp: image_iff)
    have lt: "order_key y < order_key x" if "x \<in> set (map as_order page)" "y \<in> set (concat pages')" for x y
    proof -
      have "order_key y < ?k" using IH that(2) by (auto simp: below_def)
      moreover have "?k \<le> order_key x" using newer_first_last [OF nf_page] that(1) by auto
      ultimately show ?thesis by simp
    qed
    have covered: "key \<in> order_key ` set (concat pages)"
      if unbroken: "\<forall>i. f_rows (fs i) = None"
        and key: "below after key" "\<forall>i. key \<in> page_key ` set (customer_rows cust (dbs i))" for key
    proof (cases "key < ?k")
      case True
      then have "below (Some ?k) key" by (simp add: below_def)
      with IH unbroken key(2) have "key \<in> order_key ` set (concat pages')" by blast
      then show ?thesis by (auto simp: p(1))
    next
      case False
      obtain r where r: "r \<in> set rows" "page_key r = key"
        using key set_rows by auto
      have "r \<in> set page"
      proof (rule ccontr)
        assume "r \<notin> set page"
        then have "r \<in> set rest" using r(1) rows by auto
        then have "page_key r < ?k" using nf rows ne by (simp add: newer_first_append)
        with False r(2) show False by simp
      qed
      then have "as_order r \<in> set (concat pages)" by (simp add: p(1))
      then show ?thesis by (rule image_eqI [rotated]) (simp add: r(2))
    qed
    have rest_below: "below after (order_key y)" if "y \<in> set (concat pages')" for y
    proof -
      have "order_key y < ?k" using IH that by (auto simp: below_def)
      with k_below show ?thesis by (cases after) (auto simp: below_def dest: less_trans)
    qed
    have cc: "concat pages = map as_order page @ concat pages'" by (simp add: p(1))
    have "sorted_wrt (\<lambda>a b. order_key b < order_key a) (concat pages)"
      unfolding cc sorted_wrt_append using sorted_page lt IH by blast
    moreover have "\<forall>x \<in> set (concat pages). below after (order_key x)"
      unfolding cc set_append using page_below rest_below by blast
    ultimately show ?thesis using covered by blast
  qed
qed simp

text \<open>
  The walk ends: the keys below the cursor become fewer by a full page with every page, out of those
  that the customer's rows have at all while it lasts.
\<close>

lemma full_page_progress:
  assumes "newer_first page" and "length page = L" and "page \<noteq> []" and "finite K" and "page_key ` set page \<subseteq> K"
    and "\<forall>r \<in> set page. below after (page_key r)"
  shows "card {key \<in> K. below (Some (page_key (last page))) key} + L \<le> card {key \<in> K. below after key}"
proof -
  let ?A = "{key \<in> K. below (Some (page_key (last page))) key}" and ?B = "page_key ` set page"
  have "distinct (map page_key page)"
    using assms(1) unfolding newer_first_def
    by (induction page) (auto simp: order.strict_implies_not_eq)
  then have "card ?B = L" using assms(2) distinct_card [of "map page_key page"] by simp
  have low: "key < page_key r" if "key < page_key (last page)" "r \<in> set page" for key r
    using newer_first_last [OF assms(1) that(2)] that(1) by simp
  then have "?A \<inter> ?B = {}" by (fastforce simp: below_def)
  moreover have "?A \<subseteq> {key \<in> K. below after key}"
    using assms(3,6) by (cases after) (auto simp: below_def dest: less_trans)
  then have "?A \<union> ?B \<subseteq> {key \<in> K. below after key}" using assms(5,6) by blast
  ultimately have "card ?A + card ?B \<le> card {key \<in> K. below after key}"
    using card_mono [of "{key \<in> K. below after key}" "?A \<union> ?B"] assms(4) by (simp add: card_Un_disjoint)
  with \<open>card ?B = L\<close> show ?thesis by simp
qed

lemma list_pages_ends:
  assumes "\<forall>i. primary_key (dbs i) \<and> printable_rows cust (dbs i)" and "\<forall>i. no_error (fs i)" and "finite K"
    and "\<forall>i < k + fuel. page_key ` set (customer_rows cust (dbs i)) \<subseteq> K" and "good_after after"
    and "card {key \<in> K. below after key} div nat (page_limit limit) < fuel"
  shows "\<exists>pages. list_pages fs dbs cust limit k fuel (cursor_of after) = Some pages"
  using assms(4-6)
proof (induction fuel arbitrary: k after)
  case (Suc fuel)
  define L where "L = nat (page_limit limit)"
  have L: "0 < L" using page_limit_pos(1) by (simp add: L_def)
  define page where "page = page_rows (fs k) cust limit after (dbs k)"
  obtain m where m: "page = take m (rows_after after cust (dbs k))"
    using page_rows_prefix [of "fs k" cust limit after "dbs k"] page_def by metis
  have sub: "set page \<subseteq> set (rows_after after cust (dbs k))" unfolding m by (rule set_take_subset)
  note unfold = list_pages_no_error [where fs = fs and k = k and dbs = dbs and cust = cust and limit = limit and fuel = fuel,
      OF Suc.prems(2) spec [OF assms(2), of k], folded page_def L_def]
  show ?case
  proof (cases "length page = L")
    case False
    then show ?thesis unfolding unfold by simp
  next
    case True
    then have ne: "page \<noteq> []" using L by fastforce
    have nf: "newer_first page"
      using newer_first_rows_after [of "dbs k" after cust] assms(1) append_take_drop_id [of m]
      unfolding m by (metis newer_first_append)
    have good: "good_after (Some (page_key (last page)))"
      using good_after_last [OF _ ne sub] assms(1) by blast
    have "page_key ` set page \<subseteq> K" "\<forall>r \<in> set page. below after (page_key r)"
      using sub spec [OF Suc.prems(1), of k] by (auto simp: set_rows_after below_def)
    from div_le_mono [OF full_page_progress [OF nf True ne assms(3) this], of L] Suc.prems(3)
    have "card {key \<in> K. below (Some (page_key (last page))) key} div L < fuel"
      unfolding L_def [symmetric] div_add_self2 [OF less_imp_neq [OF L, symmetric]] by simp
    from Suc.IH [OF _ good this [unfolded L_def], of "Suc k"] Suc.prems(1) show ?thesis
      unfolding unfold using True by auto
  qed
qed simp

section \<open>The walk over a database that stands still\<close>

lemma rows_after_filter:
  assumes "below after k"
  shows "rows_after (Some k) cust db = filter (\<lambda>r. page_key r < k) (rows_after after cust db)"
proof -
  have "below after (page_key r)" if "page_key r < k" for r
    using that assms by (auto simp: below_def split: option.splits)
  then have "filter (\<lambda>r. below after (page_key r) \<and> page_key r < k) rs = filter (\<lambda>r. page_key r < k) rs" for rs
    by (auto intro: filter_cong)
  then show ?thesis
    by (simp add: rows_after_def newest_first_def below_def [symmetric] rev_filter [symmetric] filter_sort)
qed

lemma rows_after_page:
  assumes "primary_key db" and "page \<noteq> []" and "rows_after after cust db = page @ rest"
  shows "rows_after (Some (page_key (last page))) cust db = rest"
proof -
  have nf: "newer_first page" "\<forall>x \<in> set page. \<forall>y \<in> set rest. page_key y < page_key x"
    using newer_first_rows_after [OF assms(1), of after cust] unfolding assms(3) newer_first_append by auto
  have "last page \<in> set (rows_after after cust db)" using assms(2,3) by simp
  then have "below after (page_key (last page))" by (simp add: set_rows_after below_def)
  then have "rows_after (Some (page_key (last page))) cust db
      = filter (\<lambda>r. page_key r < page_key (last page)) (page @ rest)"
    unfolding assms(3) [symmetric] by (rule rows_after_filter)
  moreover have "filter (\<lambda>r. page_key r < page_key (last page)) page = []"
    using newer_first_last [OF nf(1)] by (auto simp: filter_empty_conv not_less)
  moreover have "filter (\<lambda>r. page_key r < page_key (last page)) rest = rest"
    using nf(2) assms(2) by simp
  ultimately show ?thesis by simp
qed

lemma list_pages_still:
  assumes "primary_key db" and "printable_rows cust db" and "good_after after"
    and "length (rows_after after cust db) div nat (page_limit limit) < fuel"
  shows "\<exists>pages. list_pages (\<lambda>_. no_faults) (\<lambda>_. db) cust limit k fuel (cursor_of after) = Some pages
    \<and> concat pages = map as_order (rows_after after cust db)
    \<and> (\<forall>page \<in> set pages. length page \<le> nat (page_limit limit))"
  using assms(3,4)
proof (induction fuel arbitrary: k after)
  case (Suc fuel)
  define L where "L = nat (page_limit limit)"
  define rows where "rows = rows_after after cust db"
  note unfold = list_pages_Suc [OF Suc.prems(1), where fs = "\<lambda>_. no_faults" and dbs = "\<lambda>_. db" and cust = cust and limit = limit and k = k and fuel = fuel, OF refl,
      folded rows_def L_def]
  have L: "0 < L" using page_limit_pos(1) by (simp add: L_def)
  show ?case
  proof (cases "L \<le> length rows")
    case False
    then show ?thesis
      unfolding unfold rows_def [symmetric] L_def [symmetric] by (simp add: Let_def)
  next
    case True
    let ?page = "take L rows" and ?rest = "drop L rows"
    have ne: "?page \<noteq> []" using True L by (cases rows) auto
    have rest: "rows_after (Some (page_key (last ?page))) cust db = ?rest"
      by (rule rows_after_page [OF assms(1) ne, of after]) (simp add: rows_def)
    have good: "good_after (Some (page_key (last ?page)))"
      by (rule good_after_last [OF assms(2) ne, of after]) (simp add: rows_def set_take_subset)
    have "length ?rest div L < fuel"
      using Suc.prems(2) True L by (simp add: rows_def [symmetric] L_def [symmetric] le_div_geq)
    then obtain pages where pages:
      "list_pages (\<lambda>_. no_faults) (\<lambda>_. db) cust limit (Suc k) fuel (cursor_of (Some (page_key (last ?page)))) = Some pages"
      "concat pages = map as_order ?rest" "\<forall>page \<in> set pages. length page \<le> L"
      using Suc.IH [OF good, of "Suc k"] unfolding rest L_def [symmetric] by blast
    have "map as_order ?page @ map as_order ?rest = map as_order rows"
      by (simp flip: map_append)
    then show ?thesis
      unfolding unfold rows_def [symmetric] L_def [symmetric]
      using True pages by (simp add: Let_def)
  qed
qed simp

text \<open>
  Property C20 (functional). Over a database that stands still, following the cursors from the
  first page ends after at most one page more than the orders fill, no page is longer than the
  limit (20 if the client asks for none or for more than 100), and the pages together are exactly
  the customer's orders, newest first and by descending id where the times are equal.
\<close>

theorem list_pages_complete:
  assumes "primary_key db" and "printable_rows cust db"
  shows "\<exists>pages. list_pages (\<lambda>_. no_faults) (\<lambda>_. db) cust limit 0
       (Suc (length (customer_rows cust db) div nat (page_limit limit))) [] = Some pages
    \<and> concat pages = map as_order (newest_first (customer_rows cust db))
    \<and> (\<forall>page \<in> set pages. length page \<le> nat (page_limit limit))"
  using list_pages_still [OF assms, of None limit "Suc (length (customer_rows cust db) div nat (page_limit limit))" 0]
  by (simp add: good_after_def cursor_of_def rows_after_def newest_first_def)

definition sample_listing :: order_db where
  "sample_listing = \<lparr>orders = [(sample_order_row StatusCreated 1)\<lparr>or_id := ''a''\<rparr>,
     (sample_order_row StatusCreated 1)\<lparr>or_id := ''b''\<rparr>], order_items = [], order_outbox = []\<rparr>"

lemma sample_listing_ok: "primary_key sample_listing" "printable_rows ''c1'' sample_listing"
  by (auto simp: sample_listing_def primary_key_def printable_rows_def customer_rows_def sample_order_row_def
      cursor_time_def valid_time_def json_year_def days_in_def)

lemma length_sample_listing:
  "length (customer_rows ''c1'' sample_listing) = 2" "length (rows_after None ''c1'' sample_listing) = 2"
  by (simp_all add: rows_after_def newest_first_def sample_listing_def customer_rows_def sample_order_row_def)

theorem list_pages_complete_witness:
  "\<exists>pages. list_pages (\<lambda>_. no_faults) (\<lambda>_. sample_listing) ''c1'' 1 0 3 [] = Some pages
    \<and> concat pages = map as_order (newest_first (customer_rows ''c1'' sample_listing))
    \<and> length (concat pages) = 2"
  using list_pages_complete [OF sample_listing_ok, of 1]
  by (auto simp: length_sample_listing page_limit_def newest_first_def numeral_3_eq_3 simp del: list_pages.simps)

text \<open>
  Property C21 (safety). While other requests insert orders and change statuses between the
  pages, a walk lists strictly newest first, so no order twice, whatever fails; and when no page's rows
  break off unnoticed, it lists every order that is in the database all the time. It comes to its end
  when no page is answered with an error: if all the rows the customer has meanwhile are from a finite set
  \<open>K\<close>, after one page more than \<open>K\<close> fills.
\<close>

theorem list_pages_concurrent:
  assumes "\<forall>k. primary_key (dbs k) \<and> printable_rows cust (dbs k)"
  shows "(list_pages fs dbs cust limit 0 fuel [] = Some pages \<longrightarrow>
        sorted_wrt (\<lambda>a b. order_key b < order_key a) (concat pages)
        \<and> ((\<forall>i. f_rows (fs i) = None) \<longrightarrow> (\<forall>key. (\<forall>i. key \<in> page_key ` set (customer_rows cust (dbs i)))
             \<longrightarrow> key \<in> order_key ` set (concat pages))))
    \<and> (finite K \<and> (\<forall>i \<le> card K div nat (page_limit limit). page_key ` set (customer_rows cust (dbs i)) \<subseteq> K)
        \<and> (\<forall>i. no_error (fs i)) \<longrightarrow>
        (\<exists>pages. list_pages fs dbs cust limit 0 (Suc (card K div nat (page_limit limit))) [] = Some pages))"
  using list_pages_walk [OF assms, of fs limit 0 fuel None pages]
    list_pages_ends [OF assms, of fs K 0 "Suc (card K div nat (page_limit limit))" None limit]
  by (simp add: cursor_of_def good_after_def below_def less_Suc_eq_le del: list_pages.simps)

text \<open>
  A walk of two pages while a third order is inserted and another's status changes between them, and one
  whose first page breaks off and is taken for the last.
\<close>

definition grown_listing :: order_db where
  "grown_listing = \<lparr>orders = [(sample_order_row StatusCreated 1)\<lparr>or_id := ''a''\<rparr>,
     (sample_order_row StatusConfirmed 3)\<lparr>or_id := ''b''\<rparr>, (sample_order_row StatusCreated 1)\<lparr>or_id := ''c''\<rparr>],
     order_items = [], order_outbox = []\<rparr>"

definition changing_listing :: "nat \<Rightarrow> order_db" where
  "changing_listing k = (if k = 0 then sample_listing else grown_listing)"

lemma grown_listing_ok: "primary_key grown_listing" "printable_rows ''c1'' grown_listing"
  by (auto simp: grown_listing_def primary_key_def printable_rows_def customer_rows_def sample_order_row_def
      cursor_time_def valid_time_def json_year_def days_in_def)

definition listed_keys :: "(gotime \<times> string) set" where
  "listed_keys = page_key ` set (customer_rows ''c1'' grown_listing)"

theorem list_pages_concurrent_witness:
  "\<exists>pages. list_pages (\<lambda>_. no_faults) changing_listing ''c1'' 1 0 4 [] = Some pages
    \<and> changing_listing 0 \<noteq> changing_listing 1
    \<and> sorted_wrt (\<lambda>a b. order_key b < order_key a) (concat pages)
    \<and> page_key ((sample_order_row StatusCreated 1)\<lparr>or_id := ''a''\<rparr>) \<in> order_key ` set (concat pages)
    \<and> page_key ((sample_order_row StatusCreated 1)\<lparr>or_id := ''b''\<rparr>) \<in> order_key ` set (concat pages)"
proof -
  have ok: "\<forall>k. primary_key (changing_listing k) \<and> printable_rows ''c1'' (changing_listing k)"
    using sample_listing_ok grown_listing_ok by (simp add: changing_listing_def)
  have keys: "listed_keys = {page_key ((sample_order_row StatusCreated 1)\<lparr>or_id := i\<rparr>) | i. i \<in> {''a'', ''b'', ''c''}}"
    by (auto simp: listed_keys_def grown_listing_def customer_rows_def sample_order_row_def page_key_def)
  have fin: "finite listed_keys" by (simp add: listed_keys_def)
  have sub: "page_key ` set (customer_rows ''c1'' (changing_listing i)) \<subseteq> listed_keys" for i
    by (auto simp: changing_listing_def keys sample_listing_def grown_listing_def customer_rows_def
        sample_order_row_def page_key_def)
  have "card listed_keys = 3"
  proof -
    have eq: "listed_keys = (\<lambda>i. page_key ((sample_order_row StatusCreated 1)\<lparr>or_id := i\<rparr>)) ` {''a'', ''b'', ''c''}"
      by (auto simp: keys)
    show ?thesis unfolding eq by (simp add: page_key_def)
  qed
  then have fuel: "Suc (card listed_keys div nat (page_limit 1)) = 4" by (simp add: page_limit_def)
  have faultless: "\<forall>i::nat. no_error no_faults" by (simp add: no_error_def)
  note claim = list_pages_concurrent [OF ok, of "\<lambda>_. no_faults" 1, unfolded no_faults_simps]
  obtain pages where p: "list_pages (\<lambda>_. no_faults) changing_listing ''c1'' 1 0 4 [] = Some pages"
    using claim [of 0 "[]" listed_keys] fin sub faultless unfolding fuel by blast
  have all: "page_key ((sample_order_row StatusCreated 1)\<lparr>or_id := i\<rparr>) \<in> page_key ` set (customer_rows ''c1'' (changing_listing k))"
    if "i \<in> {''a'', ''b''}" for i k
    using that by (auto simp: changing_listing_def sample_listing_def grown_listing_def customer_rows_def
        sample_order_row_def page_key_def)
  have "changing_listing 0 \<noteq> changing_listing 1"
    by (simp add: changing_listing_def sample_listing_def grown_listing_def)
  moreover have s: "sorted_wrt (\<lambda>a b. order_key b < order_key a) (concat pages)"
    "\<forall>key. (\<forall>i. key \<in> page_key ` set (customer_rows ''c1'' (changing_listing i))) \<longrightarrow> key \<in> order_key ` set (concat pages)"
    using conjunct1 [OF claim [of 4 pages listed_keys], rule_format, OF p] by blast+
  ultimately show ?thesis
    using p s(2) [rule_format, OF all [of "''a''"]] s(2) [rule_format, OF all [of "''b''"]] by (intro exI [of _ pages]) simp
qed

text \<open>Rows that break off unnoticed: the first order alone is taken for the whole list.\<close>

theorem broken_page_ends_walk:
  "\<exists>page. list_pages (\<lambda>_. no_faults\<lparr>f_rows := Some 1\<rparr>) (\<lambda>_. sample_listing) ''c1'' 20 0 1 [] = Some [page]
    \<and> length page = 1 \<and> length (customer_rows ''c1'' sample_listing) = 2"
proof -
  let ?fs = "\<lambda>_::nat. no_faults\<lparr>f_rows := Some 1\<rparr>"
  have ok: "good_after None" "no_error (?fs 0)" by (simp_all add: good_after_def no_error_def)
  have len: "length (page_rows (?fs 0) ''c1'' 20 None sample_listing) = 1"
    using length_sample_listing by (simp add: page_rows_def delivered_def page_limit_def)
  have "list_pages ?fs (\<lambda>_. sample_listing) ''c1'' 20 0 1 (cursor_of None)
      = Some [map as_order (page_rows (?fs 0) ''c1'' 20 None sample_listing)]"
    using list_pages_no_error [where fs = ?fs and k = 0 and fuel = 0 and dbs = "\<lambda>_. sample_listing" and cust = "''c1''"
        and limit = 20, OF ok] len
    by (simp add: page_limit_def del: list_pages.simps)
  with len show ?thesis by (simp add: cursor_of_def length_sample_listing del: list_pages.simps)
qed

lemma ListByCustomer_Panics:
  assumes "ListByCustomer fmt parse f cust cursor limit db = Panics"
  shows "limit = 0"
proof -
  define after where "after = (if cursor = [] then Inr None
    else (case decodeCursor parse cursor of
            Inl e \<Rightarrow> Inl (Wrapf msg_decode_cursor e '''') | Inr k \<Rightarrow> Inr (Some k)))"
  note eq = assms [unfolded ListByCustomer_def, folded after_def]
  obtain k where k: "after = Inr k" using eq by (cases after) simp_all
  obtain rows where rows: "select_page f cust k limit db = Inr rows"
    using eq k by (cases "select_page f cust k limit db") simp_all
  obtain got where "scan_rows (f_scan f) 0 (delivered (f_rows f) rows) = (Inr got :: order_error + _)"
    using eq k rows by (cases "scan_rows (f_scan f) 0 (delivered (f_rows f) rows) :: order_error + _") simp_all
  with eq k rows show ?thesis by (auto simp: Let_def split: if_splits)
qed

text \<open>
  Listing never panics: the index of the last order of a page is only
  taken of a page that is not empty, because the use case replaces the limit 0 (for which the
  repository alone would take it of an empty page) before the repository sees it. This holds for
  every limit, cursor and pattern of failures.
\<close>

theorem ListOrders_no_panic:
  "ListOrders (ListByCustomer fmt parse f) cust cursor limit db \<noteq> Panics"
  using ListByCustomer_Panics [of fmt parse f cust cursor "page_limit limit" db] page_limit_pos(3) [of limit]
  by (auto simp: ListOrders_def page_limit_def [symmetric] split: sum.splits call.splits)

end
