(* ===== verification/Order_Grpc.thy ===== *)
theory Order_Grpc
  imports Order_Proto Order_Pagination Order_System
begin

text \<open>
  order-service's gRPC server: \<open>internal/delivery/grpc/order_server.go\<close>, and the interceptor
  around every call, \<open>internal/interceptor/metrics_interceptor.go\<close>.

  The use case is an argument of each method, as the server holds a \<open>ports.OrderUseCase\<close>. No
  interceptor recovers from a panic, so \<open>Panics\<close> here ends the process.
\<close>

section \<open>Definitions\<close>

text \<open>\<open>mapDomainErrToGRPC\<close>.\<close>

definition mapDomainErrToGRPC :: "order_error \<Rightarrow> rpc_error" where
  "mapDomainErrToGRPC e =
     (if errors_is e ErrEmptyItems then (InvalidArgument, error_text order_error_msg e)
      else if errors_is e ErrInvalidTransition then (FailedPrecondition, error_text order_error_msg e)
      else if errors_is e ErrOptimisticLock then (Aborted, error_text order_error_msg e)
      else (Internal, ''internal error''))"

definition item_to_proto :: "OrderItem \<Rightarrow> ProtoItem" where
  "item_to_proto it = \<lparr>pi_Sku = SKU it, pi_Name = Name it,
     pi_Price = Some \<lparr>pm_Amount = Amount (Price it), pm_Currency = Currency (Price it)\<rparr>,
     pi_Quantity = int32_of_int (Quantity it)\<rparr>"

definition toOrderResponse :: "Order \<Rightarrow> OrderResponse" where
  "toOrderResponse ord = \<lparr>rs_Id = ID ord, rs_CustomerId = CustomerID ord,
     rs_Items = map item_to_proto (Items ord),
     rs_TotalCost = Some \<lparr>pm_Amount = Amount (TotalCost ord), pm_Currency = Currency (TotalCost ord)\<rparr>,
     rs_Status = status_text (Status ord), rs_Version = word_of_int (Version ord),
     rs_CreatedAt = Some (CreatedAt ord), rs_UpdatedAt = Some (UpdatedAt ord)\<rparr>"

text \<open>The loop over the request's items; \<open>it.Price.Amount\<close> of a nil price panics.\<close>

fun proto_to_items :: "ProtoItem list \<Rightarrow> OrderItem list call" where
  "proto_to_items [] = Returns []"
| "proto_to_items (it # items) =
     (case pi_Price it of
        None \<Rightarrow> Panics
      | Some p \<Rightarrow>
          (case proto_to_items items of
             Panics \<Rightarrow> Panics
           | Returns rest \<Rightarrow>
               Returns (\<lparr>SKU = pi_Sku it, Name = pi_Name it, Price = NewMoney (pm_Amount p) (pm_Currency p),
                         Quantity = int_of_int32 (pi_Quantity it)\<rparr> # rest)))"

definition grpc_CreateOrder ::
  "(CreateOrderInput \<Rightarrow> 'st \<Rightarrow> (order_error + Order) \<times> 'st) \<Rightarrow> CreateOrderRequest \<Rightarrow> 'st
   \<Rightarrow> ((rpc_error + OrderResponse) \<times> 'st) call" where
  "grpc_CreateOrder create req st =
     (case proto_to_items (cq_Items req) of
        Panics \<Rightarrow> Panics
      | Returns items \<Rightarrow>
          (case create \<lparr>in_CustomerID = cq_CustomerId req, in_Items = items\<rparr> st of
             (Inl e, st') \<Rightarrow> Returns (Inl (mapDomainErrToGRPC e), st')
           | (Inr ord, st') \<Rightarrow> Returns (Inr (toOrderResponse ord), st')))"

definition grpc_GetOrder ::
  "(string \<Rightarrow> order_error + Order) \<Rightarrow> GetOrderRequest \<Rightarrow> rpc_error + OrderResponse" where
  "grpc_GetOrder get req =
     (case get (gq_Id req) of
        Inl e \<Rightarrow> Inl (mapDomainErrToGRPC e)
      | Inr ord \<Rightarrow> Inr (toOrderResponse ord))"

definition grpc_ListOrders ::
  "(string \<Rightarrow> string \<Rightarrow> int \<Rightarrow> (order_error + Order list \<times> string) call) \<Rightarrow> ListOrdersRequest
   \<Rightarrow> (rpc_error + ListOrdersResponse) call" where
  "grpc_ListOrders list_orders req =
     (case list_orders (lq_CustomerId req) (lq_Cursor req) (sint (lq_Limit req)) of
        Panics \<Rightarrow> Panics
      | Returns (Inl e) \<Rightarrow> Returns (Inl (mapDomainErrToGRPC e))
      | Returns (Inr (page, nextCursor)) \<Rightarrow>
          Returns (Inr \<lparr>ls_Orders = map toOrderResponse page, ls_NextCursor = nextCursor\<rparr>))"

text \<open>
  \<open>MetricsUnaryInterceptor\<close>: the counter per method and code; the observed duration does not
  matter to anything. A panic passes through before the counters.
\<close>

definition MetricsUnaryInterceptor ::
  "string \<Rightarrow> ((rpc_error + 'r) \<times> 'st) call \<Rightarrow> (string \<times> grpc_code \<Rightarrow> nat)
   \<Rightarrow> ((rpc_error + 'r) \<times> 'st) call \<times> (string \<times> grpc_code \<Rightarrow> nat)" where
  "MetricsUnaryInterceptor fullMethod result requests =
     (case result of
        Panics \<Rightarrow> (Panics, requests)
      | Returns (resp, st) \<Rightarrow>
          (let code = (case resp of Inl (c, _) \<Rightarrow> c | Inr _ \<Rightarrow> OK) in
           (Returns (resp, st), requests((fullMethod, code) := requests (fullMethod, code) + 1))))"

section \<open>Lemmas\<close>

lemma proto_to_items_Panics:
  "proto_to_items items = Panics \<longleftrightarrow> (\<exists>it \<in> set items. pi_Price it = None)"
  by (induction items) (auto split: option.splits call.splits)

text \<open>A request's items come back in the response: nothing is lost between \<open>int32\<close> and \<open>int\<close>.\<close>

lemma proto_to_items_round_trip:
  "proto_to_items items = Returns its \<Longrightarrow> map item_to_proto its = items"
proof (induction items arbitrary: its)
  case (Cons it items)
  then show ?case by (cases it) (auto simp: item_to_proto_def NewMoney_def split: option.splits call.splits)
qed simp

lemma mapDomainErrToGRPC_codes:
  "fst (mapDomainErrToGRPC e) \<in> {InvalidArgument, FailedPrecondition, Aborted, Internal}"
  by (simp add: mapDomainErrToGRPC_def)

text \<open>What PostgreSQL's repository behind the use case answers to a read.\<close>

lemma GetOrder_error_Internal:
  assumes "GetOrder (GetByID f) oid db = Inl e"
  shows "mapDomainErrToGRPC e = (Internal, ''internal error'')"
  using assms by (auto simp: GetOrder_def mapDomainErrToGRPC_def dest: GetByID_Inl split: sum.splits)

section \<open>Guarantees of the server\<close>

text \<open>The create method over PostgreSQL's repository; the state is the database and the counter.\<close>

definition pg_create :: "pg_env \<Rightarrow> string \<Rightarrow> gotime \<Rightarrow> CreateOrderInput \<Rightarrow> order_db \<times> nat
    \<Rightarrow> (order_error + Order) \<times> order_db \<times> nat" where
  "pg_create w uid now input st = CreateOrder (pg_save w) uid now input (fst st) (snd st)"

lemma grpc_CreateOrder_Panics:
  "grpc_CreateOrder create req st = Panics \<longleftrightarrow> (\<exists>it \<in> set (cq_Items req). pi_Price it = None)"
  by (auto simp: grpc_CreateOrder_def proto_to_items_Panics [symmetric] split: call.splits sum.splits prod.splits)

text \<open>
  A create request panics exactly when one of its items has no price
  (a message a client may send, since every field of the wire format is optional), whatever the
  use case; as no interceptor recovers, the service goes down with it.
\<close>

theorem grpc_CreateOrder_panics:
  "grpc_CreateOrder create req st = Panics \<longleftrightarrow> (\<exists>it \<in> set (cq_Items req). pi_Price it = None)"
  by (rule grpc_CreateOrder_Panics)

text \<open>What a create request answers and leaves.\<close>

lemma grpc_CreateOrder_results:
  assumes "grpc_CreateOrder (pg_create (f, rid, now) uid t) req (db, n) = Returns (res, db', n')"
  shows "case res of
      Inr r \<Rightarrow> rs_Id r = uid \<and> rs_CustomerId r = cq_CustomerId req \<and> rs_Items r = cq_Items req
        \<and> rs_Status r = ''CREATED'' \<and> rs_Version r = 1 \<and> n' = Suc n
        \<and> \<not> has_key or_id uid (orders db)
        \<and> (\<exists>ord payload. r = toOrderResponse ord \<and> NewOrder uid (cq_CustomerId req) (Items ord) t = Inr ord
             \<and> db' = saved rid (now 0) ord EventTypeOrderCreated payload db)
    | Inl (c, m) \<Rightarrow> n' = n \<and> c \<in> {InvalidArgument, Internal} \<and> (c = InvalidArgument \<longleftrightarrow> cq_Items req = [])
        \<and> (db' = db \<or> (\<exists>m. f_commit f = CommitUnknown m))"
proof -
  obtain items where items: "proto_to_items (cq_Items req) = Returns items"
    using assms by (auto simp: grpc_CreateOrder_def split: call.splits)
  note same_items = proto_to_items_round_trip [OF items]
  let ?input = "\<lparr>in_CustomerID = cq_CustomerId req, in_Items = items\<rparr>"
  obtain cres where c: "CreateOrder (pg_save (f, rid, now)) uid t ?input db n = (cres, db', n')"
    and res: "res = (case cres of Inl e \<Rightarrow> Inl (mapDomainErrToGRPC e) | Inr ord \<Rightarrow> Inr (toOrderResponse ord))"
    using assms by (auto simp: grpc_CreateOrder_def items pg_create_def split: sum.splits prod.splits)
  note facts = CreateOrder_results [OF c]
  show ?thesis
  proof (cases cres)
    case (Inl e)
    have "fst (mapDomainErrToGRPC e) \<in> {InvalidArgument, Internal}
      \<and> (fst (mapDomainErrToGRPC e) = InvalidArgument \<longleftrightarrow> cq_Items req = [])"
    proof -
      have sentinel: "errors_is e s \<longleftrightarrow> s = ErrEmptyItems \<and> items = []" for s using facts by (simp add: Inl)
      have "items = [] \<longleftrightarrow> cq_Items req = []" using same_items by auto
      then show ?thesis by (simp add: mapDomainErrToGRPC_def sentinel)
    qed
    moreover have "n' = n" "db' = db \<or> (\<exists>m. f_commit f = CommitUnknown m)" using facts by (auto simp only: Inl sum.case)
    ultimately show ?thesis by (cases "mapDomainErrToGRPC e") (auto simp: res Inl)
  next
    case (Inr ord)
    then have new: "NewOrder uid (cq_CustomerId req) items t = Inr ord" using facts by simp
    note fields = NewOrder_fields [OF new]
    obtain payload where saved: "db' = saved rid (now 0) ord EventTypeOrderCreated payload db" and
      rest: "n' = Suc n" "\<not> has_key or_id uid (orders db)"
      using facts by (auto simp: Inr)
    have r: "res = Inr (toOrderResponse ord)" by (simp add: res Inr)
    have fields': "ID ord = uid" "CustomerID ord = cq_CustomerId req" "map item_to_proto (Items ord) = cq_Items req"
      "Status ord = StatusCreated" "Version ord = 1" "NewOrder uid (cq_CustomerId req) (Items ord) t = Inr ord"
      using fields same_items new by simp_all
    have ex: "\<exists>ord' payload. toOrderResponse ord = toOrderResponse ord' \<and> NewOrder uid (cq_CustomerId req) (Items ord') t = Inr ord'
        \<and> db' = saved rid (now 0) ord' EventTypeOrderCreated payload db"
      using fields'(6) saved by blast
    have "rs_Id (toOrderResponse ord) = uid" "rs_CustomerId (toOrderResponse ord) = cq_CustomerId req"
      "rs_Items (toOrderResponse ord) = cq_Items req" "rs_Status (toOrderResponse ord) = ''CREATED''"
      "rs_Version (toOrderResponse ord) = 1"
      by (simp_all add: toOrderResponse_def fields'(1-5))
    with ex rest show ?thesis unfolding r sum.case by blast
  qed
qed

text \<open>
  A create request whose items all have prices succeeds exactly
  with the order's snapshot: the response repeats the request's customer and items (the
  conversions between 32 and 64 bits lose nothing), carries the id the service chose, status
  \<open>CREATED\<close> and version 1, and the database now holds the order and its event. An error leaves
  no order behind unless the answer of the commit was lost, and says InvalidArgument exactly for a
  request without items.
\<close>

theorem grpc_CreateOrder_snapshot:
  assumes "grpc_CreateOrder (pg_create (f, rid, now) uid t) req (db, n) = Returns (res, db', n')"
  shows "case res of
      Inr r \<Rightarrow> rs_Id r = uid \<and> rs_CustomerId r = cq_CustomerId req \<and> rs_Items r = cq_Items req
        \<and> rs_Status r = ''CREATED'' \<and> rs_Version r = 1 \<and> n' = Suc n
        \<and> \<not> has_key or_id uid (orders db)
        \<and> (\<exists>ord payload. r = toOrderResponse ord \<and> NewOrder uid (cq_CustomerId req) (Items ord) t = Inr ord
             \<and> db' = saved rid (now 0) ord EventTypeOrderCreated payload db)
    | Inl (c, m) \<Rightarrow> n' = n \<and> c \<in> {InvalidArgument, Internal} \<and> (c = InvalidArgument \<longleftrightarrow> cq_Items req = [])
        \<and> (db' = db \<or> (\<exists>m. f_commit f = CommitUnknown m))"
  by (rule grpc_CreateOrder_results [OF assms])

theorem grpc_CreateOrder_snapshot_witness:
  "\<exists>r db'. grpc_CreateOrder (pg_create (no_faults, ''r1'', \<lambda>_. sample_time) ''o1'' sample_time)
      \<lparr>cq_CustomerId = ''c1'', cq_Items = map item_to_proto sample_items\<rparr> (empty_order_db, 0)
      = Returns (Inr r, db', 1)
    \<and> rs_Items r = map item_to_proto sample_items \<and> rs_Status r = ''CREATED''"
proof -
  let ?req = "\<lparr>cq_CustomerId = ''c1'', cq_Items = map item_to_proto sample_items\<rparr>"
  have "proto_to_items (map item_to_proto sample_items) = Returns sample_items"
    by (simp add: sample_items_def item_to_proto_def NewMoney_def int_of_int32_def int32_of_int_def)
  then have g: "grpc_CreateOrder (pg_create (no_faults, ''r1'', \<lambda>_. sample_time) ''o1'' sample_time) ?req (empty_order_db, 0)
    = Returns (Inr (toOrderResponse sample_order),
        saved ''r1'' sample_time sample_order EventTypeOrderCreated sample_payload empty_order_db, 1)"
    by (simp add: grpc_CreateOrder_def pg_create_def CreateOrder_def NewOrder_sample marshal_sample pg_save_def
        save_sample)
  from grpc_CreateOrder_snapshot [OF g] g show ?thesis by simp
qed

text \<open>
  A read over PostgreSQL's repository that fails, because there is no
  such order or because the database does not answer, always ends with the code Internal and the
  text \<open>internal error\<close>: the code NotFound never leaves the server.
\<close>

theorem grpc_GetOrder_error:
  assumes "grpc_GetOrder (\<lambda>oid. GetOrder (GetByID f) oid db) req = Inl e"
  shows "e = (Internal, ''internal error'')"
  using assms by (auto simp: grpc_GetOrder_def dest: GetOrder_error_Internal split: sum.splits)

theorem grpc_GetOrder_error_witness:
  "grpc_GetOrder (\<lambda>oid. GetOrder (GetByID no_faults) oid empty_order_db) \<lparr>gq_Id = ''o1''\<rparr>
    = Inl (Internal, ''internal error'')"
proof -
  obtain e where e: "grpc_GetOrder (\<lambda>oid. GetOrder (GetByID no_faults) oid empty_order_db) \<lparr>gq_Id = ''o1''\<rparr> = Inl e"
    by (simp add: grpc_GetOrder_def GetOrder_def GetByID_no_faults empty_order_db_def)
  with grpc_GetOrder_error [OF e] show ?thesis by simp
qed

end
