(* ===== verification/Gateway_System.thy ===== *)
theory Gateway_System
  imports Gateway_Orders Gateway_Limiter Order_Grpc
begin

text \<open>
  api-gateway in front of order-service.

  The locale \<open>order_client\<close> is the interface \<open>ports.OrderClient\<close> as the read handler needs
  it: the answer at each time, and that an answered order is complete. The cache's staleness and its
  independence of Redis are proved inside it; it is interpreted on order-service's gRPC server over
  PostgreSQL's repository.
\<close>

section \<open>The client's contract\<close>

locale order_client =
  fixes get :: "nat \<Rightarrow> GetOrderRequest \<Rightarrow> client_error + OrderResponse"
  assumes complete: "get t req = Inr resp \<Longrightarrow> gw_toOrderResponse resp \<noteq> Panics"
begin

text \<open>What the service answered for an order at a time, as the gateway shows it.\<close>

definition answered :: "nat \<Rightarrow> string \<Rightarrow> gw_orderResponse \<Rightarrow> bool" where
  "answered t oid r \<longleftrightarrow> (\<exists>resp. get t \<lparr>gq_Id = oid\<rparr> = Inr resp \<and> gw_toOrderResponse resp = Returns r)"

text \<open>
  Every entry is an answer from a time \<open>t\<close> up to \<open>present\<close> and expires at most the time to
  live after \<open>t\<close>, plus the time \<open>d\<close> a request may take from the answer to the write.
\<close>

definition entries_answered :: "nat \<Rightarrow> nat \<Rightarrow> nat \<Rightarrow> cache \<Rightarrow> bool" where
  "entries_answered d ttl present c \<longleftrightarrow> (\<forall>oid v expires. c (cache_key oid) = Some (v, expires) \<longrightarrow>
     (\<exists>t r. t \<le> present \<and> expires \<le> t + d + ttl \<and> answered t oid r \<and> v = Doc (marshal_orderResponse r)))"

lemma cache_Get_answered:
  assumes "entries_answered d ttl present c" and "cache_Get fails now (cache_key oid) c = Inr (Some r)"
  shows "\<exists>t \<le> present. now < t + d + ttl \<and> answered t oid r"
proof -
  obtain v expires where v: "c (cache_key oid) = Some (v, expires)" "now < expires"
    "unmarshal fields_orderResponse zero_orderResponse v = Some r"
    using assms(2) by (auto simp: cache_Get_def live_value_def split: option.splits if_splits)
  then obtain t r' where "t \<le> present" "expires \<le> t + d + ttl" "answered t oid r'" "v = Doc (marshal_orderResponse r')"
    using assms(1) unfolding entries_answered_def by blast
  with v show ?thesis
    using unmarshal_marshal_orderResponse [of r'] by (intro exI [of _ t]) auto
qed

lemma GetOrder_answered:
  assumes "entries_answered d ttl present c" and "present \<le> tr" and "now \<le> tr" and "later \<le> tr + d" and "0 < ttl"
    and "gw_GetOrder get_fails set_fails ttl (get tr) now later oid c = ((200, GwOrder r), c')"
  shows "(\<exists>t \<le> tr. now < t + d + ttl \<and> answered t oid r) \<and> entries_answered d ttl tr c'"
proof -
  have old: "entries_answered d ttl tr c"
    using assms(1,2) unfolding entries_answered_def by (meson order_trans)
  show ?thesis
  proof (cases "\<exists>cached. cache_Get get_fails now (cache_key oid) c = Inr (Some cached)")
    case True
    then have "cache_Get get_fails now (cache_key oid) c = Inr (Some r)" "c' = c"
      using assms(6) by (auto simp: gw_GetOrder_def)
    with cache_Get_answered [OF old] old show ?thesis by blast
  next
    case False
    then obtain resp where resp: "get tr \<lparr>gq_Id = oid\<rparr> = Inr resp" "gw_toOrderResponse resp = Returns r"
      "c' = snd (cache_Set set_fails ttl later (cache_key oid) r c)"
      using assms(6)
      by (auto simp: gw_GetOrder_def writeGRPCError_def split: sum.splits option.splits call.splits client_error.splits)
    then have ans: "answered tr oid r" by (auto simp: answered_def)
    have "entries_answered d ttl tr c'"
      unfolding entries_answered_def
    proof (intro allI impI)
      fix oid' v expires assume e: "c' (cache_key oid') = Some (v, expires)"
      show "\<exists>t r. t \<le> tr \<and> expires \<le> t + d + ttl \<and> answered t oid' r \<and> v = Doc (marshal_orderResponse r)"
      proof (cases "c (cache_key oid') = Some (v, expires)")
        case True
        with old show ?thesis unfolding entries_answered_def by blast
      next
        case False
        with e resp(3) have "oid' = oid" "v = Doc (marshal_orderResponse r)" "expires = later + ttl"
          by (auto simp: cache_Set_def Let_def split: option.splits prod.splits if_splits)
        with ans assms(4) show ?thesis by (intro exI [of _ tr] exI [of _ r]) simp
      qed
    qed
    with ans assms(3,5) show ?thesis by (intro conjI exI [of _ tr]) auto
  qed
qed

text \<open>A Redis that does not answer is like a Redis that holds nothing.\<close>

lemma GetOrder_without_redis:
  "fst (gw_GetOrder (Some m) set_fails ttl (get tr) now later oid c)
   = fst (gw_GetOrder None set_fails' ttl' (get tr) now' later' oid Map.empty)"
  by (simp add: gw_GetOrder_def cache_Get_def live_value_def split: sum.splits call.splits)

end

section \<open>order-service behind the client\<close>

lemma gw_items_of_order: "gw_items (map item_to_proto its) = Returns (map (\<lambda>it. \<lparr>gp_SKU = SKU it,
    gp_Name = Name it, gp_Price = Amount (Price it), gp_Currency = Currency (Price it),
    gp_Quantity = int32_of_int (Quantity it)\<rparr>) its)"
  by (induction its) (simp_all add: item_to_proto_def)

text \<open>How an order looks through the server and the gateway.\<close>

definition gw_view :: "Order \<Rightarrow> gw_orderResponse" where
  "gw_view ord = \<lparr>go_ID = ID ord, go_CustomerID = CustomerID ord,
     go_Items = map (\<lambda>it. \<lparr>gp_SKU = SKU it, gp_Name = Name it, gp_Price = Amount (Price it),
       gp_Currency = Currency (Price it), gp_Quantity = int32_of_int (Quantity it)\<rparr>) (Items ord),
     go_TotalCost = Amount (TotalCost ord), go_Currency = Currency (TotalCost ord),
     go_Status = status_text (Status ord), go_Version = word_of_int (Version ord),
     go_CreatedAt = rfc3339 (CreatedAt ord), go_UpdatedAt = rfc3339 (UpdatedAt ord)\<rparr>"

lemma gw_toOrderResponse_order [simp]: "gw_toOrderResponse (toOrderResponse ord) = Returns (gw_view ord)"
  by (simp add: gw_toOrderResponse_def toOrderResponse_def gw_items_of_order gw_view_def as_time_def)

definition rpc_result :: "rpc_error + 'r \<Rightarrow> client_error + 'r" where
  "rpc_result res = (case res of Inl (c, m) \<Rightarrow> Inl (StatusError c m) | Inr r \<Rightarrow> Inr r)"

text \<open>
  What becomes of a call on its way: it is delivered and answered, it never reaches the server, or the
  server has served it and the client does not get the answer (the connection breaks, the context of the
  request is cancelled). A server that crashes does not answer: the client sees Unavailable.
\<close>

datatype transport = Delivered | NotSent rpc_error | ReplyLost rpc_error

definition over_rpc :: "transport \<Rightarrow> ((rpc_error + 'r) \<times> 'st) call \<Rightarrow> 'st \<Rightarrow> (client_error + 'r) \<times> 'st" where
  "over_rpc tr served st =
     (case tr of
        Delivered \<Rightarrow> (case served of
            Panics \<Rightarrow> (Inl (StatusError Unavailable ''''), st)
          | Returns (res, st') \<Rightarrow> (rpc_result res, st'))
      | NotSent (c, m) \<Rightarrow> (Inl (StatusError c m), st)
      | ReplyLost (c, m) \<Rightarrow> (Inl (StatusError c m), case served of Panics \<Rightarrow> st | Returns (res, st') \<Rightarrow> st'))"

text \<open>The codes gRPC itself ends a call with; it documents that the others come from the server's methods only.\<close>

definition library_code :: "grpc_code \<Rightarrow> bool" where
  "library_code c \<longleftrightarrow> c \<in> {Canceled, Unknown, DeadlineExceeded, ResourceExhausted, Unimplemented, Internal,
     Unavailable, Unauthenticated}"

definition library_transport :: "transport \<Rightarrow> bool" where
  "library_transport tr \<longleftrightarrow>
     (case tr of Delivered \<Rightarrow> True | NotSent (c, m) \<Rightarrow> library_code c | ReplyLost (c, m) \<Rightarrow> library_code c)"

lemma over_rpc_Delivered [simp]: "over_rpc Delivered (Returns (res, st')) st = (rpc_result res, st')"
  by (simp add: over_rpc_def)

lemma over_rpc_Inr: "over_rpc tr served st = (Inr r, st') \<Longrightarrow> tr = Delivered \<and> served = Returns (Inr r, st')"
  by (auto simp: over_rpc_def rpc_result_def split: transport.splits call.splits sum.splits prod.splits)

text \<open>\<open>OrderClient.GetOrder\<close> on the server, with the transport, the database and the failures of each time.\<close>

definition pg_get ::
  "(nat \<Rightarrow> transport) \<Rightarrow> (nat \<Rightarrow> order_db) \<Rightarrow> (nat \<Rightarrow> db_faults) \<Rightarrow> nat \<Rightarrow> GetOrderRequest \<Rightarrow> client_error + OrderResponse" where
  "pg_get trs dbs fs t req =
     fst (over_rpc (trs t) (Returns (grpc_GetOrder (\<lambda>oid. GetOrder (GetByID (fs t)) oid (dbs t)) req, ())) ())"

lemma pg_get_Inr:
  assumes "pg_get trs dbs fs t req = Inr resp"
  shows "\<exists>ord. GetByID (fs t) (gq_Id req) (dbs t) = Inr ord \<and> resp = toOrderResponse ord"
proof -
  have "grpc_GetOrder (\<lambda>oid. GetOrder (GetByID (fs t)) oid (dbs t)) req = Inr resp"
    using over_rpc_Inr [of "trs t" "Returns (grpc_GetOrder (\<lambda>oid. GetOrder (GetByID (fs t)) oid (dbs t)) req, ())" "()" resp "()"]
      assms by (simp add: pg_get_def prod_eq_iff)
  then show ?thesis by (auto simp: grpc_GetOrder_def GetOrder_def split: sum.splits prod.splits)
qed

interpretation gwpg: order_client "pg_get trs dbs fs" for trs dbs fs
  by unfold_locales (auto dest: pg_get_Inr)

definition pg_client_create ::
  "transport \<Rightarrow> pg_env \<Rightarrow> string \<Rightarrow> gotime \<Rightarrow> CreateOrderRequest \<Rightarrow> order_db \<times> nat
   \<Rightarrow> (client_error + OrderResponse) \<times> order_db \<times> nat" where
  "pg_client_create tr w uid t req st = over_rpc tr (grpc_CreateOrder (pg_create w uid t) req st) st"

section \<open>Guarantees of the gateway\<close>

text \<open>
  Property C32 (safety). An order the gateway shows is one the service held at most the
  cache's time to live before the request (plus the time a request takes between reading the order
  and writing the cache), whatever Redis and the transport of the calls do: \<open>entries_answered\<close>, which an empty cache satisfies,
  is kept by every read, and what is shown satisfies it.
\<close>

theorem gateway_read_staleness:
  assumes "gwpg.entries_answered trs dbs fs d ttl present c" and "present \<le> tr" and "now \<le> tr" and "later \<le> tr + d"
    and "0 < ttl" and "gw_GetOrder get_fails set_fails ttl (pg_get trs dbs fs tr) now later oid c = ((200, GwOrder r), c')"
  shows "(\<exists>t \<le> tr. now < t + d + ttl \<and> (\<exists>ord. GetByID (fs t) oid (dbs t) = Inr ord \<and> r = gw_view ord))
    \<and> gwpg.entries_answered trs dbs fs d ttl tr c' \<and> gwpg.entries_answered trs dbs fs d ttl present Map.empty"
proof -
  note fresh = gwpg.GetOrder_answered [OF assms]
  then obtain t where t: "t \<le> tr" "now < t + d + ttl" "gwpg.answered trs dbs fs t oid r" by blast
  then obtain ord where "GetByID (fs t) oid (dbs t) = Inr ord \<and> r = gw_view ord"
    unfolding gwpg.answered_def by (auto dest!: pg_get_Inr)
  with t fresh show ?thesis by (auto simp: gwpg.entries_answered_def)
qed

definition sample_dbs :: "nat \<Rightarrow> order_db" where
  "sample_dbs t = (if t < 10 then os_db sample_created else os_db sample_published)"

lemma get_sample_dbs: "t < 10 \<Longrightarrow> GetByID no_faults ''o1'' (sample_dbs t)
    = Inr (sample_order\<lparr>CreatedAt := timestamptz sample_time, UpdatedAt := timestamptz sample_time\<rparr>)"
  by (simp add: sample_dbs_def sample_created_def GetByID_no_faults saved_def empty_order_db_def find_row_Cons
      sample_order_def items_of_def sample_items_def item_to_row_def row_to_item_def row_to_order_def order_to_row_def)

theorem gateway_read_staleness_witness:
  "\<exists>r c'. gw_GetOrder None None 5 (pg_get (\<lambda>_. Delivered) sample_dbs (\<lambda>_. no_faults) 9) 8 10 ''o1'' Map.empty = ((200, GwOrder r), c')
    \<and> go_Status r = ''CREATED'' \<and> gwpg.entries_answered (\<lambda>_. Delivered) sample_dbs (\<lambda>_. no_faults) 1 5 9 c'"
proof -
  let ?ord = "sample_order\<lparr>CreatedAt := timestamptz sample_time, UpdatedAt := timestamptz sample_time\<rparr>"
  have "pg_get (\<lambda>_. Delivered) sample_dbs (\<lambda>_. no_faults) 9 \<lparr>gq_Id = ''o1''\<rparr> = Inr (toOrderResponse ?ord)"
    by (simp add: pg_get_def grpc_GetOrder_def GetOrder_def get_sample_dbs rpc_result_def)
  then obtain c' where g: "gw_GetOrder None None 5 (pg_get (\<lambda>_. Delivered) sample_dbs (\<lambda>_. no_faults) 9) 8 10 ''o1'' Map.empty
      = ((200, GwOrder (gw_view ?ord)), c')"
    by (simp add: gw_GetOrder_def cache_Get_def live_value_def cache_Set_def)
  have "gwpg.entries_answered (\<lambda>_. Delivered) sample_dbs (\<lambda>_. no_faults) 1 5 0 Map.empty"
    by (simp add: gwpg.entries_answered_def)
  from gateway_read_staleness [OF this _ _ _ _ g] g show ?thesis
    by (simp add: gw_view_def sample_order_def)
qed

text \<open>
  Redis is an optimisation: when it does not answer the read, the
  response is the one of a gateway whose cache is empty, and an error of the write to the cache
  changes no response.
\<close>

theorem gateway_without_redis:
  "fst (gw_GetOrder (Some m) set_fails ttl (pg_get trs dbs fs tr) now later oid c)
     = fst (gw_GetOrder None set_fails' ttl' (pg_get trs dbs fs tr) now' later' oid Map.empty)
   \<and> fst (gw_GetOrder get_fails (Some w) ttl (pg_get trs dbs fs tr) now later oid c)
     = fst (gw_GetOrder get_fails None ttl (pg_get trs dbs fs tr) now later oid c)"
  using gwpg.GetOrder_without_redis [of m set_fails ttl trs dbs fs tr now later oid c set_fails' ttl' now' later']
  by (auto simp: gw_GetOrder_def split: sum.splits option.splits call.splits)

text \<open>
  Reading an order that does not exist is answered with status 500 and
  \<open>internal error\<close>: order-service turns its not-found into the code Internal, so the gateway's
  case for NotFound, and the 404 its documentation promises, cannot be reached.
\<close>

theorem gateway_missing_order:
  assumes "\<not> has_key or_id oid (orders (dbs tr))" and "trs tr = Delivered" and "cache_Get get_fails now (cache_key oid) c = Inr None"
  shows "gw_GetOrder get_fails set_fails ttl (pg_get trs dbs fs tr) now later oid c
    = ((500, GwError ''internal error''), c)"
proof -
  have "find_row or_id oid (orders (dbs tr)) = None" using assms(1) by (simp add: find_row_None)
  then obtain e where e: "GetOrder (GetByID (fs tr)) oid (dbs tr) = Inl e"
    by (cases "f_exec (fs tr) 0") (auto simp: GetOrder_def GetByID_def)
  have "pg_get trs dbs fs tr \<lparr>gq_Id = oid\<rparr> = Inl (StatusError Internal ''internal error'')"
    using GetOrder_error_Internal [OF e] assms(2) by (simp add: pg_get_def grpc_GetOrder_def e rpc_result_def)
  then show ?thesis
    using assms(3) by (simp add: gw_GetOrder_def writeGRPCError_def http_code_def)
qed

theorem gateway_missing_order_witness:
  "gw_GetOrder None None 5 (pg_get (\<lambda>_. Delivered) (\<lambda>_. empty_order_db) (\<lambda>_. no_faults) 0) 0 0 ''o1'' Map.empty
    = ((500, GwError ''internal error''), Map.empty)"
  by (rule gateway_missing_order) (simp_all add: empty_order_db_def has_key_def cache_Get_def live_value_def)

lemma gw_bind_Some:
  "gw_bind is_uuid body = Some req \<Longrightarrow> gr_Items req \<noteq> [] \<and> (\<forall>it \<in> set (gr_Items req). gw_valid_item it)"
  by (auto simp: gw_bind_def list_all_iff split: option.splits if_splits)

text \<open>The item of a response that repeats an item of a request.\<close>

definition echo_item :: "gw_createOrderItemRequest \<Rightarrow> orderItemResponse" where
  "echo_item it = \<lparr>gp_SKU = gi_SKU it, gp_Name = gi_Name it, gp_Price = gi_Price it,
     gp_Currency = gi_Currency it, gp_Quantity = gi_Quantity it\<rparr>"

lemma gw_items_echo:
  "map item_to_proto its = map item_request_to_proto reqs \<Longrightarrow> go_Items (gw_view ord) = map echo_item reqs"
  if "Items ord = its"
proof -
  assume eq: "map item_to_proto its = map item_request_to_proto reqs"
  have "gw_items (map item_request_to_proto rs) = Returns (map echo_item rs)" for rs
    by (induction rs) (simp_all add: item_request_to_proto_def echo_item_def)
  with eq gw_items_of_order [of its] that show ?thesis by (simp add: gw_view_def)
qed

text \<open>What a create request leaves behind, from the gateway down to the database.\<close>

lemma library_http_code: "library_code c \<Longrightarrow> http_code c \<in> {500, 503}"
  by (auto simp: library_code_def http_code_def)

lemma gw_create_results:
  assumes "library_transport tr"
    and "gw_CreateOrder is_uuid bind_text (pg_client_create tr (f, rid, now) uid t) body (db, n)
    = ((code, resp), db', n')"
  shows "code \<in> {201, 400, 500, 503} \<and> (code = 400 \<longleftrightarrow> gw_bind is_uuid body = None)
    \<and> (code \<noteq> 201 \<longrightarrow> db' = db \<or> (\<exists>m. f_commit f = CommitUnknown m) \<or> (\<exists>e. tr = ReplyLost e))
    \<and> (code = 400 \<longrightarrow> db' = db)
    \<and> (code = 201 \<longrightarrow> (\<exists>req ord payload. gw_bind is_uuid body = Some req \<and> resp = GwOrder (gw_view ord)
         \<and> go_ID (gw_view ord) = uid \<and> go_Items (gw_view ord) = map echo_item (gr_Items req)
         \<and> go_TotalCost (gw_view ord) = word_of_int (exact_total (Items ord))
         \<and> (int64_range (exact_total (Items ord)) \<longrightarrow> sint (go_TotalCost (gw_view ord)) = exact_total (Items ord))
         \<and> db' = saved rid (now 0) ord EventTypeOrderCreated payload db))"
proof (cases "gw_bind is_uuid body")
  case None
  with assms(2) show ?thesis by (auto simp: gw_CreateOrder_def)
next
  case (Some req)
  let ?req = "\<lparr>cq_CustomerId = gr_CustomerID req, cq_Items = map item_request_to_proto (gr_Items req)\<rparr>"
  have "grpc_CreateOrder (pg_create (f, rid, now) uid t) ?req (db, n) \<noteq> Panics"
    by (auto simp: grpc_CreateOrder_Panics item_request_to_proto_def)
  then obtain res db1 n1 where g: "grpc_CreateOrder (pg_create (f, rid, now) uid t) ?req (db, n) = Returns (res, db1, n1)"
    by (metis call.exhaust prod.exhaust)
  note facts = grpc_CreateOrder_results [OF g]
  show ?thesis
  proof (cases "tr = Delivered")
    case False
    with assms(1) obtain c m where "library_code c" "tr = NotSent (c, m) \<or> tr = ReplyLost (c, m)"
      by (cases tr) (auto simp: library_transport_def)
    moreover from this have "code = http_code c" "tr = NotSent (c, m) \<longrightarrow> db' = db"
      using assms(2) Some g by (auto simp: gw_CreateOrder_def pg_client_create_def over_rpc_def writeGRPCError_def)
    ultimately show ?thesis using library_http_code [of c] Some by auto
  next
    case True
    note sent = assms(2) [unfolded True]
    show ?thesis
    proof (cases res)
      case (Inl e)
      obtain c m where e: "e = (c, m)" by fastforce
      have "c \<noteq> InvalidArgument" "db1 = db \<or> (\<exists>m. f_commit f = CommitUnknown m)"
        "c \<in> {InvalidArgument, Internal}"
        using facts gw_bind_Some [OF Some] by (auto simp: Inl e)
      moreover have "(code, resp) = writeGRPCError (StatusError c m)" "db' = db1"
        using sent Some g by (auto simp: gw_CreateOrder_def pg_client_create_def rpc_result_def Inl e)
      ultimately show ?thesis using Some by (auto simp: writeGRPCError_def http_code_def)
    next
      case (Inr r)
      obtain ord payload where o: "r = toOrderResponse ord" "db1 = saved rid (now 0) ord EventTypeOrderCreated payload db"
        "NewOrder uid (gr_CustomerID req) (Items ord) t = Inr ord"
        using facts by (auto simp: Inr)
      have items: "map item_to_proto (Items ord) = map item_request_to_proto (gr_Items req)" "ID ord = uid"
        using facts by (simp_all add: Inr o(1) toOrderResponse_def)
      obtain it its where its: "Items ord = it # its" using NewOrder_fields(8) [OF o(3)] by (cases "Items ord") auto
      have tot: "Amount (TotalCost ord) = word_of_int (exact_total (Items ord))"
        using o(3) unfolding its NewOrder_Cons by auto
      have "code = 201" "resp = GwOrder (gw_view ord)" "db' = db1"
        using sent Some g by (auto simp: gw_CreateOrder_def pg_client_create_def rpc_result_def Inr respond_def o(1))
      with Some o(2) items(2) gw_items_echo [OF refl items(1)] tot show ?thesis
        by (auto simp: gw_view_def sint_of_int_in_range)
    qed
  qed
qed


definition sample_gw_body :: wire where
  "sample_gw_body = Doc (JObj [(''customer_id'', JStr ''c1''), (''items'', JArr
     [JObj [(''sku'', JStr ''s1''), (''name'', JStr ''n''), (''price'', JInt 5), (''currency'', JStr ''USD''),
            (''quantity'', JInt 2)]])])"

lemma bind_sample_gw_body:
  "gw_bind (\<lambda>_. True) sample_gw_body = Some \<lparr>gr_CustomerID = ''c1'', gr_Items =
     [\<lparr>gi_SKU = ''s1'', gi_Name = ''n'', gi_Price = 5, gi_Currency = ''USD'', gi_Quantity = 2\<rparr>]\<rparr>"
  by (simp add: gw_bind_def sample_gw_body_def fields_gw_request_def fields_gw_item_request_def find_field_def
      upper_def zero_gw_item_request_def int64_range_def int4_range_def gw_valid_item_def rune_count_def)

lemma gw_CreateOrder_sample:
  "gw_CreateOrder (\<lambda>_. True) ''bad'' (pg_client_create Delivered (no_faults, ''r1'', \<lambda>_. sample_time) ''o1'' sample_time)
      sample_gw_body (empty_order_db, 0) = ((201, GwOrder (gw_view sample_order)),
        saved ''r1'' sample_time sample_order EventTypeOrderCreated sample_payload empty_order_db, 1)"
proof -
  have "map item_request_to_proto [\<lparr>gi_SKU = ''s1'', gi_Name = ''n'', gi_Price = 5, gi_Currency = ''USD'', gi_Quantity = 2\<rparr>]
      = map item_to_proto sample_items"
    by (simp add: item_request_to_proto_def sample_items_def item_to_proto_def int32_of_int_def)
  moreover have "proto_to_items (map item_to_proto sample_items) = Returns sample_items"
    by (simp add: sample_items_def item_to_proto_def NewMoney_def int_of_int32_def int32_of_int_def)
  ultimately show ?thesis
    by (simp add: gw_CreateOrder_def bind_sample_gw_body pg_client_create_def grpc_CreateOrder_def pg_create_def
        CreateOrder_def NewOrder_sample marshal_sample pg_save_def save_sample rpc_result_def respond_def)
qed


end
