(* ===== verification/Gateway_Server.thy ===== *)
theory Gateway_Server
  imports Gateway_System
begin

text \<open>
  The gateway as a server: the middleware \<open>internal/delivery/http/middleware/metrics.go\<close>, the
  routes of \<open>RegisterRoutes\<close> and the chain that \<open>cmd/gateway/main.go\<close> builds around
  them, over the counters of \<open>internal/metrics/metrics.go\<close>.

  gin is a parameter: \<open>router\<close> tells which route a method and a path match. What is used of it
  is that a route runs the middlewares registered before it, in order, that \<open>c.Next()\<close> runs the
  rest of the chain, \<open>c.Abort()\<close> skips it, and that the recovery of \<open>gin.Default()\<close>
  answers 500 to a panic. A path that matches a route but for a final slash is redirected
  (\<open>RedirectTrailingSlash\<close>, on in \<open>gin.Default()\<close>) with 301 for GET and 307 for other methods, outside the
  chain, so past the limiter and the metrics. The swagger and metrics pages are foreign handlers and
  parameters too.
\<close>

section \<open>Routes\<close>

datatype gw_route = R_Swagger | R_Metrics | R_CreateOrder | R_GetOrder string | R_ListOrders | R_Unmatched
  | R_Redirect

text \<open>\<open>c.FullPath()\<close>: the pattern of the route, empty when none matches.\<close>

fun FullPath :: "gw_route \<Rightarrow> string" where
  "FullPath R_Swagger = ''/swagger/*any''"
| "FullPath R_Metrics = ''/metrics''"
| "FullPath R_CreateOrder = ''/api/v1'' @ ''/orders'' @ ''''"
| "FullPath (R_GetOrder _) = ''/api/v1'' @ ''/orders'' @ ''/:id''"
| "FullPath R_ListOrders = ''/api/v1'' @ ''/orders'' @ ''''"
| "FullPath R_Unmatched = ''''"
| "FullPath R_Redirect = ''''"

record http_request =
  rq_Method :: string
  rq_Path :: string
  rq_ClientIP :: string
  rq_Body :: wire
  rq_Query :: "string \<Rightarrow> string"

section \<open>Metrics\<close>

text \<open>The counter of each series of labels, and how many durations each histogram has seen.\<close>

record http_metrics =
  HTTPRequestsTotal :: "string \<times> string \<times> string \<Rightarrow> nat"
  HTTPRequestDuration :: "string \<times> string \<Rightarrow> nat"

definition no_requests :: http_metrics where
  "no_requests = \<lparr>HTTPRequestsTotal = (\<lambda>_. 0), HTTPRequestDuration = (\<lambda>_. 0)\<rparr>"

definition path_label :: "gw_route \<Rightarrow> string" where
  "path_label route = (if FullPath route = [] then ''unmatched'' else FullPath route)"

definition count_request :: "string \<Rightarrow> string \<Rightarrow> nat \<Rightarrow> http_metrics \<Rightarrow> http_metrics" where
  "count_request meth path code ms =
     ms\<lparr>HTTPRequestsTotal := (HTTPRequestsTotal ms)((meth, path, decimal code) := Suc (HTTPRequestsTotal ms (meth, path, decimal code))),
        HTTPRequestDuration := (HTTPRequestDuration ms)((meth, path) := Suc (HTTPRequestDuration ms (meth, path)))\<rparr>"

text \<open>A panic of the rest of the chain passes through the middleware, which then counts nothing.\<close>

definition Metrics ::
  "string \<Rightarrow> gw_route \<Rightarrow> ('st \<Rightarrow> (nat \<times> gw_body) call \<times> 'st) \<Rightarrow> http_metrics \<times> 'st
   \<Rightarrow> (nat \<times> gw_body) call \<times> http_metrics \<times> 'st" where
  "Metrics meth route next_handler s =
     (case s of (ms, st) \<Rightarrow>
      case next_handler st of
        (Panics, st') \<Rightarrow> (Panics, ms, st')
      | (Returns (code, body), st') \<Rightarrow> (Returns (code, body), count_request meth (path_label route) code ms, st'))"

section \<open>The server\<close>

text \<open>
  What is outside the gateway during one request: Redis's behaviour and clock for the limiter, its
  errors and the times for the cache, and the order client.
\<close>

record ('a, 'st) request_env =
  rv_limiter :: redis_call
  rv_time :: 'a
  rv_get_fails :: "string option"
  rv_set_fails :: "(string \<times> bool) option"
  rv_now :: nat
  rv_later :: nat
  rv_create :: "CreateOrderRequest \<Rightarrow> 'st \<Rightarrow> (client_error + OrderResponse) \<times> 'st"
  rv_get :: "GetOrderRequest \<Rightarrow> 'st \<Rightarrow> client_error + OrderResponse"
  rv_list :: "ListOrdersRequest \<Rightarrow> 'st \<Rightarrow> client_error + ListOrdersResponse"

definition cache_ttl :: nat where
  "cache_ttl = 5 * 10 ^ 9"

definition handler_call :: "nat \<times> gw_body \<Rightarrow> (nat \<times> gw_body) call" where
  "handler_call resp = (if snd resp = GwNoBody then Panics else Returns resp)"

text \<open>The handler of a route, on the cache and the service.\<close>

definition gw_handler ::
  "(string \<Rightarrow> bool) \<Rightarrow> string \<Rightarrow> (gw_route \<Rightarrow> nat \<times> gw_body) \<Rightarrow> ('a, 'st) request_env \<Rightarrow> http_request \<Rightarrow> gw_route
   \<Rightarrow> cache \<times> 'st \<Rightarrow> (nat \<times> gw_body) call \<times> cache \<times> 'st" where
  "gw_handler is_uuid bind_text pages env req route s =
     (case s of (c, st) \<Rightarrow>
      case route of
        R_CreateOrder \<Rightarrow> (case gw_CreateOrder is_uuid bind_text (rv_create env) (rq_Body req) st of
            (resp, st') \<Rightarrow> (handler_call resp, c, st'))
      | R_GetOrder oid \<Rightarrow> (case gw_GetOrder (rv_get_fails env) (rv_set_fails env) cache_ttl (\<lambda>r. rv_get env r st)
            (rv_now env) (rv_later env) oid c of (resp, c') \<Rightarrow> (handler_call resp, c', st))
      | R_ListOrders \<Rightarrow> (handler_call (gw_ListOrders (\<lambda>r. rv_list env r st) (rq_Query req ''customer_id'')
            (rq_Query req ''cursor'')), c, st)
      | R_Unmatched \<Rightarrow> (Returns (404, GwError ''404 page not found''), c, st)
      | _ \<Rightarrow> (Returns (pages route), c, st))"

text \<open>
  The chain of a route: the swagger page was registered before the metrics middleware.
\<close>

definition gw_chain ::
  "(string \<Rightarrow> bool) \<Rightarrow> string \<Rightarrow> (gw_route \<Rightarrow> nat \<times> gw_body) \<Rightarrow> ('a, 'st) request_env \<Rightarrow> http_request \<Rightarrow> gw_route
   \<Rightarrow> http_metrics \<times> cache \<times> 'st \<Rightarrow> (nat \<times> gw_body) call \<times> http_metrics \<times> cache \<times> 'st" where
  "gw_chain is_uuid bind_text pages env req route s =
     (case route of
        R_Swagger \<Rightarrow> (case s of (ms, rest) \<Rightarrow>
          (case gw_handler is_uuid bind_text pages env req route rest of (resp, rest') \<Rightarrow> (resp, ms, rest')))
      | _ \<Rightarrow> Metrics (rq_Method req) route (gw_handler is_uuid bind_text pages env req route) s)"

record ('a, 'st) gateway =
  gw_Buckets :: "'a buckets"
  gw_Metrics :: http_metrics
  gw_Cache :: cache
  gw_Service :: 'st

definition gw_serve ::
  "(string \<Rightarrow> string \<Rightarrow> gw_route) \<Rightarrow> (string \<Rightarrow> bool) \<Rightarrow> string \<Rightarrow> (gw_route \<Rightarrow> nat \<times> gw_body)
   \<Rightarrow> ('a::linordered_field, 'st) request_env \<Rightarrow> http_request \<Rightarrow> ('a, 'st) gateway \<Rightarrow> (nat \<times> gw_body) \<times> ('a, 'st) gateway" where
  "gw_serve router is_uuid bind_text pages env req g =
     (if router (rq_Method req) (rq_Path req) = R_Redirect
      then ((if rq_Method req = ''GET'' then 301 else 307, GwRedirect), g)
      else (case RateLimit (rv_limiter env) 10 2 (rv_time env) (rq_ClientIP req)
             (gw_chain is_uuid bind_text pages env req (router (rq_Method req) (rq_Path req)))
             (gw_Buckets g, gw_Metrics g, gw_Cache g, gw_Service g) of
        (resp, buckets, ms, c, st) \<Rightarrow>
          (case resp of
             Inl (code, msg) \<Rightarrow> (code, GwError msg)
           | Inr Panics \<Rightarrow> (500, GwNoBody)
           | Inr (Returns r) \<Rightarrow> r,
           \<lparr>gw_Buckets = buckets, gw_Metrics = ms, gw_Cache = c, gw_Service = st\<rparr>)))"

fun gw_run ::
  "(string \<Rightarrow> string \<Rightarrow> gw_route) \<Rightarrow> (string \<Rightarrow> bool) \<Rightarrow> string \<Rightarrow> (gw_route \<Rightarrow> nat \<times> gw_body)
   \<Rightarrow> (('a::linordered_field, 'st) request_env \<times> http_request) list \<Rightarrow> ('a, 'st) gateway
   \<Rightarrow> (nat \<times> gw_body) list \<times> ('a, 'st) gateway" where
  "gw_run router is_uuid bind_text pages [] g = ([], g)"
| "gw_run router is_uuid bind_text pages ((env, req) # reqs) g =
     (case gw_serve router is_uuid bind_text pages env req g of (resp, g1) \<Rightarrow>
        case gw_run router is_uuid bind_text pages reqs g1 of (resps, g2) \<Rightarrow> (resp # resps, g2))"

section \<open>Status labels\<close>

lemma decimal_not_Nil [simp]: "decimal n \<noteq> []"
  by (subst decimal.simps) simp

lemma decimal_inject [simp]: "decimal m = decimal n \<longleftrightarrow> m = n"
proof
  show "decimal m = decimal n \<Longrightarrow> m = n"
  proof (induction m arbitrary: n rule: decimal.induct)
    case (1 m)
    have digits: "digit m = digit n \<Longrightarrow> m mod 10 = n mod 10"
      by (metis digit_value_digit option.inject)
    have m: "decimal m = (if m < 10 then [digit m] else decimal (m div 10) @ [digit m])"
      and n: "decimal n = (if n < 10 then [digit n] else decimal (n div 10) @ [digit n])"
      by (rule decimal.simps)+
    have "(m < 10 \<longleftrightarrow> n < 10) \<and> digit m = digit n \<and> (\<not> m < 10 \<longrightarrow> m div 10 = n div 10)"
      using "1.prems" "1.IH" [of "n div 10"] unfolding m n
      by (auto simp: decimal_not_Nil [symmetric] split: if_splits)
    with digits show ?case by (metis div_mult_mod_eq mod_less)
  qed
qed simp

section \<open>One request\<close>

definition refused :: "('a::linordered_field, 'st) request_env \<Rightarrow> http_request \<Rightarrow> ('a, 'st) gateway \<Rightarrow> bool" where
  "refused env req g \<longleftrightarrow> rv_limiter env = RedisAnswers
     \<and> \<not> fst (tokenBucketScript 10 2 (rv_time env) 1 (gw_Buckets g (limiter_key (rq_ClientIP req))))"

text \<open>The buckets change the same way whatever the handler does.\<close>

lemma gw_serve_redirect:
  "router (rq_Method req) (rq_Path req) = R_Redirect \<Longrightarrow> gw_serve router is_uuid bind_text pages env req g
    = ((if rq_Method req = ''GET'' then 301 else 307, GwRedirect), g)"
  by (simp add: gw_serve_def)

lemma gw_serve_eq:
  assumes "router (rq_Method req) (rq_Path req) \<noteq> R_Redirect"
  shows "gw_serve router is_uuid bind_text pages env req g =
     (let route = router (rq_Method req) (rq_Path req);
          buckets = snd (Allow (rv_limiter env) 10 2 (rv_time env) (limiter_key (rq_ClientIP req)) (gw_Buckets g)) in
      if refused env req g then ((429, GwError ''rate limit exceeded''), g\<lparr>gw_Buckets := buckets\<rparr>)
      else (case gw_handler is_uuid bind_text pages env req route (gw_Cache g, gw_Service g) of (resp, c, st) \<Rightarrow>
        (case resp of Panics \<Rightarrow> (500, GwNoBody) | Returns r \<Rightarrow> r,
         \<lparr>gw_Buckets = buckets,
          gw_Metrics = (case resp of
             Returns (code, body) \<Rightarrow>
               if route = R_Swagger then gw_Metrics g else count_request (rq_Method req) (path_label route) code (gw_Metrics g)
           | Panics \<Rightarrow> gw_Metrics g),
          gw_Cache = c, gw_Service = st\<rparr>)))"
proof (cases "refused env req g")
  case True
  then show ?thesis
    using assms by (auto simp: gw_serve_def RateLimit_def Allow_def refused_def Let_def split: prod.splits)
next
  case False
  obtain res store' where allow: "Allow (rv_limiter env) 10 2 (rv_time env) (limiter_key (rq_ClientIP req)) (gw_Buckets g)
      = (res, store')" by fastforce
  then have "res \<noteq> Inr False"
    using False by (cases "rv_limiter env") (auto simp: Allow_def refused_def Let_def split: prod.splits)
  with allow show ?thesis
    using False assms
    by (cases "router (rq_Method req) (rq_Path req) = R_Swagger")
      (auto simp: gw_serve_def RateLimit_def gw_chain_def Metrics_def Let_def
        split: prod.splits call.splits sum.splits bool.splits gw_route.splits)
qed

lemma handler_code:
  assumes "\<forall>r. fst (pages r) \<noteq> 429 \<and> snd (pages r) \<notin> {GwNoBody, GwRedirect}"
    and "gw_handler is_uuid bind_text pages env req route s = (Returns (code, body), s')"
  shows "code \<noteq> 429 \<and> body \<notin> {GwNoBody, GwRedirect}"
  using assms(2) spec [OF assms(1), of route]
  by (cases route)
    (auto simp: gw_handler_def handler_call_def gw_CreateOrder_def gw_GetOrder_def gw_ListOrders_def respond_def
      writeGRPCError_def http_code_def
      split: prod.splits option.splits sum.splits call.splits client_error.splits grpc_code.splits if_splits)

text \<open>An answered request: one whose handler has answered, counted or not.\<close>

definition answered_by_handler :: "nat \<times> gw_body \<Rightarrow> bool" where
  "answered_by_handler resp \<longleftrightarrow> fst resp \<noteq> 429 \<and> snd resp \<notin> {GwNoBody, GwRedirect}"

lemma gw_serve_metrics:
  assumes "\<forall>r. fst (pages r) \<noteq> 429 \<and> snd (pages r) \<notin> {GwNoBody, GwRedirect}"
    and "gw_serve router is_uuid bind_text pages env req g = (resp, g')"
  shows "gw_Metrics g' = (let route = router (rq_Method req) (rq_Path req) in
      if answered_by_handler resp \<and> route \<noteq> R_Swagger
      then count_request (rq_Method req) (path_label route) (fst resp) (gw_Metrics g) else gw_Metrics g)
    \<and> (router (rq_Method req) (rq_Path req) \<noteq> R_Redirect \<longrightarrow> (fst resp = 429 \<longleftrightarrow> refused env req g) \<and> snd resp \<noteq> GwRedirect
        \<and> gw_Buckets g' = snd (Allow (rv_limiter env) 10 2 (rv_time env) (limiter_key (rq_ClientIP req)) (gw_Buckets g)))
    \<and> (router (rq_Method req) (rq_Path req) = R_Redirect \<longrightarrow> snd resp = GwRedirect \<and> fst resp \<noteq> 429 \<and> g' = g)
    \<and> (fst resp = 429 \<longrightarrow> gw_Cache g' = gw_Cache g \<and> gw_Service g' = gw_Service g)"
proof (cases "router (rq_Method req) (rq_Path req) = R_Redirect")
  case True
  with assms(2) show ?thesis by (auto simp: gw_serve_redirect answered_by_handler_def split: if_splits)
next
  case route: False
  show ?thesis
  proof (cases "refused env req g")
    case True
    with assms(2) route show ?thesis by (auto simp: gw_serve_eq answered_by_handler_def Let_def)
  next
    case False
    let ?route = "router (rq_Method req) (rq_Path req)"
    obtain res s' where h: "gw_handler is_uuid bind_text pages env req ?route (gw_Cache g, gw_Service g) = (res, s')"
      by (metis surj_pair)
    show ?thesis
    proof (cases res)
      case Panics
      with False route h assms(2) show ?thesis
        by (auto simp: gw_serve_eq answered_by_handler_def Let_def split: prod.splits)
    next
      case (Returns cb)
      with handler_code [OF assms(1), of is_uuid bind_text env req ?route _ "fst cb" "snd cb" s'] route h False assms(2)
      show ?thesis
        by (auto simp: gw_serve_eq answered_by_handler_def Let_def split: prod.splits)
    qed
  qed
qed

section \<open>Many requests\<close>

text \<open>The requests of a run that one series of the counter stands for.\<close>

definition in_series ::
  "(string \<Rightarrow> string \<Rightarrow> gw_route) \<Rightarrow> string \<times> string \<times> nat \<Rightarrow> (('a, 'st) request_env \<times> http_request) \<times> nat \<times> gw_body \<Rightarrow> bool" where
  "in_series router series x =
     (case (series, x) of ((meth, path, code), ((env, req), resp)) \<Rightarrow>
        let route = router (rq_Method req) (rq_Path req) in
        rq_Method req = meth \<and> path_label route = path \<and> fst resp = code \<and> route \<noteq> R_Swagger \<and> answered_by_handler resp)"

text \<open>A client's request that is answered by anything but 429 and gin's redirect.\<close>

definition let_through :: "string \<Rightarrow> (('a, 'st) request_env \<times> http_request) \<times> nat \<times> gw_body \<Rightarrow> bool" where
  "let_through ip x = (case x of ((env, req), resp) \<Rightarrow> rq_ClientIP req = ip \<and> fst resp \<noteq> 429 \<and> snd resp \<noteq> GwRedirect)"

definition limited :: "(string \<Rightarrow> string \<Rightarrow> gw_route) \<Rightarrow> ('a, 'st) request_env \<times> http_request \<Rightarrow> bool" where
  "limited router x = (case x of (env, req) \<Rightarrow> router (rq_Method req) (rq_Path req) \<noteq> R_Redirect)"

lemma gw_run_counts:
  assumes "\<forall>r. fst (pages r) \<noteq> 429 \<and> snd (pages r) \<notin> {GwNoBody, GwRedirect}"
  shows "gw_run router is_uuid bind_text pages reqs g = (resps, g') \<Longrightarrow>
    HTTPRequestsTotal (gw_Metrics g') (meth, path, decimal code)
    = HTTPRequestsTotal (gw_Metrics g) (meth, path, decimal code)
      + length (filter (in_series router (meth, path, code)) (zip reqs resps))"
proof (induction reqs arbitrary: g resps)
  case (Cons er reqs)
  obtain env req where er: "er = (env, req)" by fastforce
  obtain resp g1 where serve: "gw_serve router is_uuid bind_text pages env req g = (resp, g1)" by fastforce
  obtain resps1 where run: "gw_run router is_uuid bind_text pages reqs g1 = (resps1, g')" "resps = resp # resps1"
    using Cons.prems serve by (auto simp: er split: prod.splits)
  have "HTTPRequestsTotal (gw_Metrics g1) (meth, path, decimal code) = HTTPRequestsTotal (gw_Metrics g) (meth, path, decimal code)
      + (if in_series router (meth, path, code) (er, resp) then 1 else 0)"
    using gw_serve_metrics [OF assms serve]
    by (auto simp: er in_series_def count_request_def Let_def)
  with Cons.IH [OF run(1)] show ?case by (simp add: run(2))
qed simp

lemma gw_run_passed:
  assumes "\<forall>r. fst (pages r) \<noteq> 429 \<and> snd (pages r) \<notin> {GwNoBody, GwRedirect}"
  shows "gw_run router is_uuid bind_text pages reqs g = (resps, g') \<Longrightarrow> \<forall>(env, req) \<in> set reqs. rv_limiter env = RedisAnswers \<Longrightarrow>
    length (filter (let_through ip) (zip reqs resps))
    = passed ip (limiter_run 10 2 (map (\<lambda>(env, req). (rv_time env, rq_ClientIP req)) (filter (limited router) reqs)) (gw_Buckets g))"
proof (induction reqs arbitrary: g resps)
  case Nil
  then show ?case by (simp add: passed_def)
next
  case (Cons er reqs)
  obtain env req where er: "er = (env, req)" by fastforce
  obtain resp g1 where serve: "gw_serve router is_uuid bind_text pages env req g = (resp, g1)" by fastforce
  obtain resps1 where run: "gw_run router is_uuid bind_text pages reqs g1 = (resps1, g')" "resps = resp # resps1"
    using Cons.prems(1) serve by (auto simp: er split: prod.splits)
  have ans: "rv_limiter env = RedisAnswers" using Cons.prems(2) by (simp add: er)
  obtain a b where script: "tokenBucketScript 10 2 (rv_time env) 1 (gw_Buckets g (limiter_key (rq_ClientIP req))) = (a, b)"
    by (metis surj_pair)
  note facts = gw_serve_metrics [OF assms serve]
  show ?case
  proof (cases "limited router er")
    case False
    then have "snd resp = GwRedirect" "g1 = g" using facts by (auto simp: er limited_def)
    with Cons.IH [OF run(1)] Cons.prems(2) False show ?thesis by (auto simp: er run(2) let_through_def)
  next
    case True
    then have route: "router (rq_Method req) (rq_Path req) \<noteq> R_Redirect" by (simp add: er limited_def)
    have allow: "Allow RedisAnswers 10 2 (rv_time env) (limiter_key (rq_ClientIP req)) (gw_Buckets g) = (Inr a, gw_Buckets g1)"
      using facts route by (simp add: ans Allow_def script)
    have "fst resp = 429 \<longleftrightarrow> \<not> a" "snd resp \<noteq> GwRedirect" using facts route by (simp_all add: refused_def ans script)
    with Cons.IH [OF run(1)] Cons.prems(2) True show ?thesis
      by (auto simp: er run(2) let_through_def allow passed_def)
  qed
qed

section \<open>Guarantees of the server\<close>

text \<open>
  Property C29 (bounds). The gateway shields the services from a client: in any interval, while
  Redis answers, at most 10 of a client's requests plus 2 for every second of the interval are
  answered by anything but 429 or gin's redirect of a final slash, whatever other clients do and however
  the handlers behave; a request answered with 429 has reached neither cache nor service, and one that is
  redirected, which the limiter does not see, nothing at all.
\<close>

theorem gateway_throttles:
  assumes "\<forall>r. fst (pages r) \<noteq> 429 \<and> snd (pages r) \<notin> {GwNoBody, GwRedirect}"
    and "gw_run router is_uuid bind_text pages reqs g = (resps, g')"
    and "\<forall>(env, req) \<in> set reqs. rv_limiter env = RedisAnswers"
    and "moments = map (\<lambda>(env, req). rv_time env) (filter (\<lambda>(env, req). rq_ClientIP req = ip) (filter (limited router) reqs))"
    and "moments \<noteq> []" and "sorted moments" and "bucket_ok 10 (hd moments) (gw_Buckets g (limiter_key ip))"
  shows "of_nat (length (filter (let_through ip) (zip reqs resps))) \<le> 10 + (last moments - hd moments) * 2
    \<and> (\<forall>env req resp g1. gw_serve router is_uuid bind_text pages env req g = (resp, g1) \<longrightarrow>
         (fst resp = 429 \<longrightarrow> gw_Cache g1 = gw_Cache g \<and> gw_Service g1 = gw_Service g)
         \<and> (snd resp = GwRedirect \<longrightarrow> g1 = g))"
proof
  let ?reqs = "filter (limited router) reqs"
  let ?arrivals = "map (\<lambda>(env, req). (rv_time env, rq_ClientIP req)) ?reqs"
  have moments: "moments = map fst (filter (\<lambda>(now, ip'). ip' = ip) ?arrivals)"
    unfolding assms(4) by (induction ?reqs) (auto simp: filter_map comp_def case_prod_beta)
  have "of_nat (passed ip (limiter_run 10 2 ?arrivals (gw_Buckets g))) \<le> 10 + (last moments - hd moments) * 2"
    using assms(5-7) bucket_bound [of 2 10 moments ip ?arrivals "gw_Buckets g"] moments by simp
  then show "of_nat (length (filter (let_through ip) (zip reqs resps))) \<le> 10 + (last moments - hd moments) * 2"
    by (simp add: gw_run_passed [OF assms(1-3)])
  show "\<forall>env req resp g1. gw_serve router is_uuid bind_text pages env req g = (resp, g1) \<longrightarrow>
      (fst resp = 429 \<longrightarrow> gw_Cache g1 = gw_Cache g \<and> gw_Service g1 = gw_Service g)
      \<and> (snd resp = GwRedirect \<longrightarrow> g1 = g)"
    using gw_serve_metrics [OF assms(1)] by blast
qed

definition sample_request_env :: "(rat, unit) request_env" where
  "sample_request_env = \<lparr>rv_limiter = RedisAnswers, rv_time = 100, rv_get_fails = None, rv_set_fails = None,
     rv_now = 0, rv_later = 0, rv_create = (\<lambda>_ st. (Inl (PlainError []), st)), rv_get = (\<lambda>_ _. Inl (PlainError [])),
     rv_list = (\<lambda>_ _. Inl (StatusError Unavailable ''down''))\<rparr>"

definition sample_http_request :: "string \<Rightarrow> http_request" where
  "sample_http_request path = \<lparr>rq_Method = ''GET'', rq_Path = path, rq_ClientIP = ''ip1'', rq_Body = Malformed,
     rq_Query = (\<lambda>_. ''c1'')\<rparr>"

definition sample_router :: "string \<Rightarrow> string \<Rightarrow> gw_route" where
  "sample_router meth path = (if path = ''/api/v1/orders'' then R_ListOrders
     else if path = ''/swagger/index.html'' then R_Swagger else R_Unmatched)"

definition fresh_gateway :: "(rat, unit) gateway" where
  "fresh_gateway = \<lparr>gw_Buckets = Map.empty, gw_Metrics = no_requests, gw_Cache = Map.empty, gw_Service = ()\<rparr>"

theorem gateway_throttles_witness:
  "\<exists>resps g'. gw_run sample_router (\<lambda>_. True) [] (\<lambda>_. (200, GwError []))
      (replicate 12 (sample_request_env, sample_http_request ''/'')) fresh_gateway = (resps, g')
    \<and> length (filter (let_through ''ip1'') (zip (replicate 12 (sample_request_env, sample_http_request ''/'')) resps)) \<le> 10"
proof -
  let ?reqs = "replicate 12 (sample_request_env, sample_http_request ''/'')"
  obtain resps g' where run: "gw_run sample_router (\<lambda>_. True) [] (\<lambda>_. (200, GwError [])) ?reqs fresh_gateway = (resps, g')"
    by fastforce
  have m: "map (\<lambda>(env, req). rv_time env) (filter (\<lambda>(env, req). rq_ClientIP req = ''ip1'')
      (filter (limited sample_router) ?reqs)) = replicate 12 (100::rat)"
    by (simp add: sample_request_env_def sample_http_request_def limited_def sample_router_def)
  have "of_nat (length (filter (let_through ''ip1'') (zip ?reqs resps)))
      \<le> 10 + (last (replicate 12 (100::rat)) - hd (replicate 12 100)) * 2"
    using gateway_throttles [OF _ run _ m [symmetric]]
    by (simp add: sample_request_env_def fresh_gateway_def bucket_ok_def)
  also have "\<dots> = of_nat 10" by simp
  finally show ?thesis unfolding of_nat_le_iff using run by blast
qed

text \<open>
  Property C30 (functional). What the counter \<open>http_requests_total\<close> says after any run of
  requests: each series has grown by exactly the requests of that method that the router matched to
  that pattern and a handler answered with that status. Neither a request refused with 429, nor one
  of the swagger page, nor one that gin redirects, nor one whose handler panicked is in any series, although the declaration of
  the counter says that it counts all requests.
\<close>

theorem gateway_requests_counted:
  assumes "\<forall>r. fst (pages r) \<noteq> 429 \<and> snd (pages r) \<notin> {GwNoBody, GwRedirect}"
    and "gw_run router is_uuid bind_text pages reqs g = (resps, g')"
  shows "HTTPRequestsTotal (gw_Metrics g') (meth, path, decimal code)
      = HTTPRequestsTotal (gw_Metrics g) (meth, path, decimal code)
        + length (filter (in_series router (meth, path, code)) (zip reqs resps))
    \<and> (path \<notin> {''/metrics'', ''/api/v1/orders'', ''/api/v1/orders/:id'', ''unmatched''} \<longrightarrow>
        HTTPRequestsTotal (gw_Metrics g') (meth, path, decimal code) = HTTPRequestsTotal (gw_Metrics g) (meth, path, decimal code))
    \<and> (code = 429 \<longrightarrow>
        HTTPRequestsTotal (gw_Metrics g') (meth, path, decimal code) = HTTPRequestsTotal (gw_Metrics g) (meth, path, decimal code))"
proof -
  have "in_series router (meth, path, code) x \<Longrightarrow> code \<noteq> 429
      \<and> path \<in> {''/metrics'', ''/api/v1/orders'', ''/api/v1/orders/:id'', ''unmatched''}" for x
  proof -
    have "path_label route \<in> {''/metrics'', ''/api/v1/orders'', ''/api/v1/orders/:id'', ''unmatched''}"
      if "route \<noteq> R_Swagger" for route
      using that by (cases route) (simp_all add: path_label_def)
    then show "in_series router (meth, path, code) x \<Longrightarrow> ?thesis" for x
      by (auto simp: in_series_def answered_by_handler_def Let_def split: prod.splits)
  qed
  then have "code = 429 \<or> path \<notin> {''/metrics'', ''/api/v1/orders'', ''/api/v1/orders/:id'', ''unmatched''} \<Longrightarrow>
      filter (in_series router (meth, path, code)) (zip reqs resps) = []"
    by (auto simp: filter_empty_conv)
  with gw_run_counts [OF assms] show ?thesis by auto
qed

theorem gateway_requests_counted_witness:
  "\<exists>resps g'. gw_run sample_router (\<lambda>_. True) [] (\<lambda>_. (200, GwError []))
      (map (\<lambda>p. (sample_request_env, sample_http_request p)) [''/api/v1/orders'', ''/swagger/index.html'', ''/nothing'']) fresh_gateway
      = (resps, g')
    \<and> map fst resps = [503, 200, 404]
    \<and> HTTPRequestsTotal (gw_Metrics g') (''GET'', ''/api/v1/orders'', decimal 503) = 1
    \<and> HTTPRequestsTotal (gw_Metrics g') (''GET'', ''/swagger/*any'', decimal 200) = 0"
proof -
  let ?reqs = "map (\<lambda>p. (sample_request_env, sample_http_request p)) [''/api/v1/orders'', ''/swagger/index.html'', ''/nothing'']"
  obtain resps g' where run: "gw_run sample_router (\<lambda>_. True) [] (\<lambda>_. (200, GwError [])) ?reqs fresh_gateway = (resps, g')"
    by fastforce
  have resps: "resps = [(503, GwError ''down''), (200, GwError []), (404, GwError ''404 page not found'')]"
    using run
    by (simp add: gw_serve_def RateLimit_def Allow_def tokenBucketScript_def live_bucket_def gw_chain_def Metrics_def
        sample_request_env_def sample_http_request_def sample_router_def fresh_gateway_def gw_handler_def handler_call_def
        gw_ListOrders_def writeGRPCError_def http_code_def)
  have "HTTPRequestsTotal (gw_Metrics g') (''GET'', ''/api/v1/orders'', decimal 503) = 1"
    "HTTPRequestsTotal (gw_Metrics g') (''GET'', ''/swagger/*any'', decimal 200) = 0"
    using gateway_requests_counted [OF _ run, of "''GET''" "''/api/v1/orders''" 503]
      gateway_requests_counted [OF _ run, of "''GET''" "''/swagger/*any''" 200]
    by (simp_all add: resps in_series_def answered_by_handler_def path_label_def sample_http_request_def sample_router_def
        fresh_gateway_def no_requests_def)
  with run resps show ?thesis by simp
qed

text \<open>
  Property C31 (type). Every answer of an order route is of one of three shapes, whatever the
  order client and Redis do: the route's success code with the route's document, one of the codes
  400, 404, 409, 429, 500 and 503 with an error text, or the 500 of a recovered panic. Reading never
  changes what the service holds, and only reading one order touches the cache.
\<close>

theorem gateway_answers_typed:
  assumes "gw_serve router is_uuid bind_text pages env req g = ((code, body), g')"
    and "router (rq_Method req) (rq_Path req) = route" and "route = R_CreateOrder \<or> route = R_GetOrder oid \<or> route = R_ListOrders"
  shows "(code = (if route = R_CreateOrder then 201 else 200)
        \<and> (if route = R_ListOrders then (\<exists>rs next. body = GwOrders rs next) else (\<exists>r. body = GwOrder r))
      \<or> code \<in> {400, 404, 409, 429, 500, 503} \<and> (\<exists>m. body = GwError m)
      \<or> code = 500 \<and> body = GwNoBody)
    \<and> (route \<noteq> R_CreateOrder \<longrightarrow> gw_Service g' = gw_Service g)
    \<and> (route \<noteq> R_GetOrder oid \<longrightarrow> gw_Cache g' = gw_Cache g)"
proof (cases "refused env req g")
  case True
  with assms show ?thesis by (auto simp: gw_serve_eq Let_def)
next
  case False
  have err: "c \<in> {400, 404, 409, 429, 500, 503} \<and> (\<exists>m. b = GwError m)" if "writeGRPCError e = (c, b)" for e c b
    using that by (auto simp: writeGRPCError_def http_code_def split: client_error.splits grpc_code.splits)
  from assms(3) consider "route = R_CreateOrder" | "route = R_GetOrder oid" | "route = R_ListOrders" by blast
  then show ?thesis
  proof cases
    case 1
    with False assms(1,2) show ?thesis
      by (auto simp: gw_serve_eq Let_def gw_handler_def handler_call_def gw_CreateOrder_def respond_def
          dest!: err split: prod.splits option.splits sum.splits call.splits if_splits)
  next
    case 2
    with False assms(1,2) show ?thesis
      by (auto simp: gw_serve_eq Let_def gw_handler_def handler_call_def gw_GetOrder_def
          dest!: err split: prod.splits option.splits sum.splits call.splits if_splits)
  next
    case 3
    with False assms(1,2) show ?thesis
      by (auto simp: gw_serve_eq Let_def gw_handler_def handler_call_def gw_ListOrders_def
          dest!: err split: prod.splits option.splits sum.splits call.splits if_splits)
  qed
qed

theorem gateway_answers_typed_witness:
  "\<exists>g'. gw_serve sample_router (\<lambda>_. True) [] (\<lambda>_. (200, GwError [])) sample_request_env (sample_http_request ''/api/v1/orders'')
      fresh_gateway = ((503, GwError ''down''), g') \<and> gw_Cache g' = Map.empty"
proof -
  obtain code body g' where s: "gw_serve sample_router (\<lambda>_. True) [] (\<lambda>_. (200, GwError [])) sample_request_env
      (sample_http_request ''/api/v1/orders'') fresh_gateway = ((code, body), g')" by (metis surj_pair)
  then have "code = 503 \<and> body = GwError ''down''"
    by (auto simp: gw_serve_def RateLimit_def Allow_def tokenBucketScript_def live_bucket_def gw_chain_def Metrics_def
        sample_request_env_def sample_http_request_def sample_router_def fresh_gateway_def gw_handler_def handler_call_def
        gw_ListOrders_def writeGRPCError_def http_code_def)
  moreover have "gw_Cache g' = gw_Cache fresh_gateway"
    using gateway_answers_typed [OF s refl, where oid = "''o1''"] by (simp add: sample_router_def sample_http_request_def)
  ultimately show ?thesis using s by (simp add: fresh_gateway_def)
qed

end
