(* ===== verification/Gateway_Reads.thy ===== *)
theory Gateway_Reads
  imports Gateway_System
begin

text \<open>
  What a client of the gateway reads: the list of its orders, page by page, and an order it has just
  created. The gateway's handlers stand in front of order-service's gRPC server, use case and
  PostgreSQL repository.
\<close>

section \<open>Listing through the gateway\<close>

text \<open>\<open>OrderClient.ListOrders\<close> on the server.\<close>

definition pg_list :: "transport \<Rightarrow> db_faults \<Rightarrow> order_db \<Rightarrow> ListOrdersRequest \<Rightarrow> client_error + ListOrdersResponse" where
  "pg_list tr f db req = fst (over_rpc tr
     (case grpc_ListOrders (\<lambda>cust cursor limit. ListOrders (ListByCustomer rfc3339_nano parse_rfc3339 f) cust cursor limit db) req of
        Panics \<Rightarrow> Panics
      | Returns res \<Rightarrow> Returns (res, ())) ())"

text \<open>
  The loop of a client of \<open>GET /orders\<close>: the next page is asked for with \<open>next_cursor\<close>. At each page the
  transport, the failures and the database are other ones.
\<close>

fun gw_list_walk ::
  "(nat \<Rightarrow> transport) \<Rightarrow> (nat \<Rightarrow> db_faults) \<Rightarrow> (nat \<Rightarrow> order_db) \<Rightarrow> string \<Rightarrow> nat \<Rightarrow> nat \<Rightarrow> string
   \<Rightarrow> gw_orderResponse list list option" where
  "gw_list_walk trs fs dbs cust k 0 cursor = None"
| "gw_list_walk trs fs dbs cust k (Suc fuel) cursor =
     (case gw_ListOrders (pg_list (trs k) (fs k) (dbs k)) cust cursor of
        (code, GwOrders page next_cursor) \<Rightarrow>
          (if next_cursor = [] then Some [page]
           else map_option ((#) page) (gw_list_walk trs fs dbs cust (Suc k) fuel next_cursor))
      | _ \<Rightarrow> None)"

lemma gw_orders_of_orders: "gw_orders (map toOrderResponse page) = Returns (map gw_view page)"
  by (induction page) simp_all

lemma gw_ListOrders_pg:
  assumes "cust \<noteq> []"
  shows "gw_ListOrders (pg_list Delivered f db) cust cursor =
    (case ListOrders (ListByCustomer rfc3339_nano parse_rfc3339 f) cust cursor 20 db of
       Panics \<Rightarrow> (503, GwError '''')
     | Returns (Inl e) \<Rightarrow> writeGRPCError (StatusError (fst (mapDomainErrToGRPC e)) (snd (mapDomainErrToGRPC e)))
     | Returns (Inr (page, next_cursor)) \<Rightarrow> (200, GwOrders (map gw_view page) next_cursor))"
  using assms
  by (simp add: gw_ListOrders_def pg_list_def over_rpc_def grpc_ListOrders_def rpc_result_def writeGRPCError_def http_code_def
      gw_orders_of_orders split: call.splits sum.splits prod.splits)

text \<open>The client's walk through the gateway is the walk over the use case with pages of twenty.\<close>

lemma gw_list_walk_pages:
  assumes "cust \<noteq> []"
  shows "gw_list_walk (\<lambda>_. Delivered) fs dbs cust k fuel cursor = map_option (map (map gw_view)) (list_pages fs dbs cust 20 k fuel cursor)"
proof (induction fuel arbitrary: k cursor)
  case (Suc fuel)
  show ?case
  proof (cases "ListOrders (ListByCustomer rfc3339_nano parse_rfc3339 (fs k)) cust cursor 20 (dbs k)")
    case Panics
    then show ?thesis by (simp add: gw_ListOrders_pg [OF assms])
  next
    case (Returns res)
    show ?thesis
    proof (cases res)
      case (Inl e)
      with Returns show ?thesis by (simp add: gw_ListOrders_pg [OF assms] writeGRPCError_def)
    next
      case (Inr pn)
      with Returns Suc.IH show ?thesis
        by (cases pn) (simp add: gw_ListOrders_pg [OF assms] option.map_comp comp_def)
    qed
  qed
qed simp

text \<open>
  Property C19 (functional). A client that follows \<open>next_cursor\<close> from the first page of
  \<open>GET /orders\<close> until it is empty gets, over a database that stands still meanwhile and when nothing
  fails, exactly its orders, newest first, on pages of at most twenty, after at most one page more than
  they fill. Each order is shown
  with its stored fields, but with no items: the query of the list does not load them.
\<close>

theorem gateway_lists_orders:
  assumes "cust \<noteq> []" and "primary_key db" and "printable_rows cust db"
  shows "\<exists>pages. gw_list_walk (\<lambda>_. Delivered) (\<lambda>_. no_faults) (\<lambda>_. db) cust 0 (Suc (length (customer_rows cust db) div 20)) [] = Some pages
    \<and> concat pages = map (\<lambda>r. gw_view (row_to_order r [])) (newest_first (customer_rows cust db))
    \<and> (\<forall>page \<in> set pages. length page \<le> 20) \<and> (\<forall>r \<in> set (concat pages). go_Items r = [])"
proof -
  have limit: "nat (page_limit 20) = 20" by (simp add: page_limit_def)
  obtain pages where pages: "list_pages (\<lambda>_. no_faults) (\<lambda>_. db) cust 20 0 (Suc (length (customer_rows cust db) div 20)) [] = Some pages"
    "concat pages = map as_order (newest_first (customer_rows cust db))" "\<forall>page \<in> set pages. length page \<le> 20"
    using list_pages_still [OF assms(2,3), of None 20 "Suc (length (customer_rows cust db) div 20)" 0]
    by (auto simp: limit good_after_def cursor_of_def rows_after_def newest_first_def simp del: list_pages.simps)
  have all: "concat (map (map gw_view) pages) = map (\<lambda>r. gw_view (row_to_order r [])) (newest_first (customer_rows cust db))"
    by (simp add: map_concat [symmetric] pages(2) as_order_def comp_def)
  show ?thesis
    using pages(1,3) all
    by (intro exI [of _ "map (map gw_view) pages"] conjI)
      (auto simp: gw_list_walk_pages [OF assms(1)] all gw_view_def row_to_order_def simp del: list_pages.simps gw_list_walk.simps)
qed

theorem gateway_lists_orders_witness:
  "\<exists>pages. gw_list_walk (\<lambda>_. Delivered) (\<lambda>_. no_faults) (\<lambda>_. sample_listing) ''c1'' 0 1 [] = Some pages \<and> length (concat pages) = 2
    \<and> (\<forall>r \<in> set (concat pages). go_Items r = [])"
  using gateway_lists_orders [OF _ sample_listing_ok]
  by (auto simp: length_sample_listing newest_first_def simp del: gw_list_walk.simps)

section \<open>Reading what was created\<close>

lemma created_order_saved:
  assumes "gw_CreateOrder is_uuid bind_text (pg_client_create tr0 (f, rid, now) uid t) body (db, n)
      = ((201, GwOrder r), db', n')"
  shows "\<exists>ord payload. r = gw_view ord \<and> db' = saved rid (now 0) ord EventTypeOrderCreated payload db
    \<and> \<not> has_key or_id (ID ord) (orders db)"
proof -
  obtain req where req: "gw_bind is_uuid body = Some req"
    using assms by (auto simp: gw_CreateOrder_def split: option.splits)
  let ?req = "\<lparr>cq_CustomerId = gr_CustomerID req, cq_Items = map item_request_to_proto (gr_Items req)\<rparr>"
  obtain res db1 n1 where g: "grpc_CreateOrder (pg_create (f, rid, now) uid t) ?req (db, n) = Returns (res, db1, n1)"
    by (cases "grpc_CreateOrder (pg_create (f, rid, now) uid t) ?req (db, n)")
      (auto simp: grpc_CreateOrder_Panics item_request_to_proto_def)
  note facts = grpc_CreateOrder_results [OF g]
  have sent: "tr0 = Delivered"
  proof (cases tr0)
    case (NotSent e)
    with assms req show ?thesis
      by (cases e) (auto simp: gw_CreateOrder_def pg_client_create_def over_rpc_def writeGRPCError_def)
  next
    case (ReplyLost e)
    with assms req show ?thesis
      by (cases e) (auto simp: gw_CreateOrder_def pg_client_create_def over_rpc_def writeGRPCError_def)
  qed
  show ?thesis
  proof (cases res)
    case (Inl e)
    with assms [unfolded sent] req g show ?thesis
      by (cases e) (auto simp: gw_CreateOrder_def pg_client_create_def rpc_result_def writeGRPCError_def)
  next
    case (Inr resp)
    obtain ord payload where ord: "resp = toOrderResponse ord" "db1 = saved rid (now 0) ord EventTypeOrderCreated payload db"
      "rs_Id resp = uid" "\<not> has_key or_id uid (orders db)"
      using facts by (auto simp: Inr)
    then have "uid = ID ord" by (simp add: toOrderResponse_def)
    with assms [unfolded sent] req g Inr ord show ?thesis
      by (auto simp: gw_CreateOrder_def pg_client_create_def rpc_result_def respond_def)
  qed
qed

text \<open>
  Property C18 (roundtrip). An order whose creation the gateway has answered with 201, whatever failed
  meanwhile, can be read back through the gateway at once: \<open>GET /orders/:id\<close> with the id of the answer, with
  an empty cache and a database and a service that answer, returns the same fields and the same items (as a multiset, since the query
  does not order them). The microseconds the columns keep are enough for the times, which are shown in
  seconds.
\<close>

theorem gateway_create_then_read:
  assumes "gw_CreateOrder is_uuid bind_text (pg_client_create tr0 (f, rid, now) uid t) body (db, n)
      = ((201, GwOrder r), db', n')" and "order_inv db"
  shows "\<exists>items. fst (gw_GetOrder None set_fails ttl (pg_get (\<lambda>_. Delivered) (\<lambda>_. db') (\<lambda>_. no_faults) tr) present later (go_ID r) Map.empty)
      = (200, GwOrder (r\<lparr>go_Items := items\<rparr>)) \<and> mset items = mset (go_Items r)"
proof -
  obtain ord payload where ord: "r = gw_view ord" "db' = saved rid (now 0) ord EventTypeOrderCreated payload db"
    "\<not> has_key or_id (ID ord) (orders db)"
    using created_order_saved [OF assms(1)] by blast
  have row: "find_row or_id (ID ord) (orders db') = Some (order_to_row ord)"
    using ord(3) by (simp add: ord(2) find_row_append find_row_Cons find_row_None [symmetric])
  have get: "GetByID no_faults (ID ord) db'
      = Inr (ord\<lparr>CreatedAt := timestamptz (CreatedAt ord), UpdatedAt := timestamptz (UpdatedAt ord)\<rparr>)"
    using row items_of_saved [OF assms(2) ord(3)] by (simp add: GetByID_no_faults ord(2))
  have "gw_view (ord\<lparr>CreatedAt := timestamptz (CreatedAt ord), UpdatedAt := timestamptz (UpdatedAt ord)\<rparr>) = gw_view ord"
    by (simp add: gw_view_def rfc3339_def seconds_text_def timestamptz_def)
  then have "fst (gw_GetOrder None set_fails ttl (pg_get (\<lambda>_. Delivered) (\<lambda>_. db') (\<lambda>_. no_faults) tr) present later (ID ord) Map.empty)
      = (200, GwOrder (gw_view ord))"
    by (simp add: gw_GetOrder_def cache_Get_def live_value_def pg_get_def grpc_GetOrder_def GetOrder_def get
        rpc_result_def)
  moreover have "go_ID r = ID ord" by (simp add: ord(1) gw_view_def)
  ultimately show ?thesis by (intro exI [of _ "go_Items r"]) (simp add: ord(1))
qed

theorem gateway_create_then_read_witness:
  "\<exists>r db' items. gw_CreateOrder (\<lambda>_. True) ''bad'' (pg_client_create Delivered (no_faults, ''r1'', \<lambda>_. sample_time) ''o1'' sample_time)
      sample_gw_body (empty_order_db, 0) = ((201, GwOrder r), db', 1)
    \<and> fst (gw_GetOrder None None 5 (pg_get (\<lambda>_. Delivered) (\<lambda>_. db') (\<lambda>_. no_faults) 1) 1 2 (go_ID r) Map.empty)
        = (200, GwOrder (r\<lparr>go_Items := items\<rparr>)) \<and> mset items = mset (go_Items r)"
  using gateway_create_then_read [OF gw_CreateOrder_sample order_inv_empty, of None 5 1 1 2] gw_CreateOrder_sample
  by blast

end
