(* ===== verification/Order_Http.thy ===== *)
theory Order_Http
  imports Order_Pagination Order_System
begin

text \<open>
  order-service's own HTTP interface: \<open>internal/delivery/http/order_handler.go\<close>, with the
  binding of its requests.

  The use case is an argument of each handler, as the handler holds a \<open>ports.OrderUseCase\<close>. The
  validator's test for UUID texts (\<open>is_uuid\<close>) and the texts of binding errors
  (\<open>bind_text\<close>) belong to a library and are arguments too. A panic is answered by gin's recovery
  with status 500 and no body.
\<close>

section \<open>Requests\<close>

record createOrderItemRequest =
  rq_SKU :: string
  rq_Name :: string
  rq_Price :: int64
  rq_Currency :: string
  rq_Quantity :: int64

record createOrderRequest =
  cr_CustomerID :: string
  cr_Items :: "createOrderItemRequest list"

definition fields_createOrderItemRequest :: "createOrderItemRequest fields" where
  "fields_createOrderItemRequest =
     [(''sku'', \<lambda>j r. map_option (\<lambda>s. r\<lparr>rq_SKU := s\<rparr>) (decode_string (rq_SKU r) j)),
      (''name'', \<lambda>j r. map_option (\<lambda>s. r\<lparr>rq_Name := s\<rparr>) (decode_string (rq_Name r) j)),
      (''price'', \<lambda>j r. map_option (\<lambda>s. r\<lparr>rq_Price := s\<rparr>) (decode_int (rq_Price r) j)),
      (''currency'', \<lambda>j r. map_option (\<lambda>s. r\<lparr>rq_Currency := s\<rparr>) (decode_string (rq_Currency r) j)),
      (''quantity'', \<lambda>j r. map_option (\<lambda>s. r\<lparr>rq_Quantity := s\<rparr>) (decode_int (rq_Quantity r) j))]"

definition zero_item_request :: createOrderItemRequest where
  "zero_item_request = \<lparr>rq_SKU = [], rq_Name = [], rq_Price = 0, rq_Currency = [], rq_Quantity = 0\<rparr>"

definition fields_createOrderRequest :: "createOrderRequest fields" where
  "fields_createOrderRequest =
     [(''customer_id'', \<lambda>j r. map_option (\<lambda>s. r\<lparr>cr_CustomerID := s\<rparr>) (decode_string (cr_CustomerID r) j)),
      (''items'', \<lambda>j r. map_option (\<lambda>s. r\<lparr>cr_Items := s\<rparr>)
         (decode_slice (decode_struct fields_createOrderItemRequest zero_item_request) j))]"

text \<open>The binding tags: \<open>required\<close> refuses the zero value, \<open>len=3\<close> counts characters.\<close>

definition valid_item_request :: "createOrderItemRequest \<Rightarrow> bool" where
  "valid_item_request r \<longleftrightarrow> rq_SKU r \<noteq> [] \<and> rq_Name r \<noteq> [] \<and> rq_Price r \<noteq> 0 \<and> 0 < sint (rq_Price r)
     \<and> rq_Currency r \<noteq> [] \<and> rune_count (rq_Currency r) = 3 \<and> rq_Quantity r \<noteq> 0 \<and> 0 < sint (rq_Quantity r)"

definition valid_request :: "(string \<Rightarrow> bool) \<Rightarrow> createOrderRequest \<Rightarrow> bool" where
  "valid_request is_uuid r \<longleftrightarrow> cr_CustomerID r \<noteq> [] \<and> is_uuid (cr_CustomerID r)
     \<and> 1 \<le> length (cr_Items r) \<and> list_all valid_item_request (cr_Items r)"

definition ShouldBindJSON :: "(string \<Rightarrow> bool) \<Rightarrow> wire \<Rightarrow> createOrderRequest option" where
  "ShouldBindJSON is_uuid body =
     (case unmarshal fields_createOrderRequest \<lparr>cr_CustomerID = [], cr_Items = []\<rparr> body of
        None \<Rightarrow> None
      | Some req \<Rightarrow> if valid_request is_uuid req then Some req else None)"

section \<open>Responses\<close>

record orderResponse =
  rp_ID :: string
  rp_CustomerID :: string
  rp_TotalCost :: int64
  rp_Currency :: string
  rp_Status :: string
  rp_Version :: int

definition http_order_response :: "Order \<Rightarrow> orderResponse" where
  "http_order_response ord = \<lparr>rp_ID = ID ord, rp_CustomerID = CustomerID ord,
     rp_TotalCost = Amount (TotalCost ord), rp_Currency = Currency (TotalCost ord),
     rp_Status = status_text (Status ord), rp_Version = Version ord\<rparr>"

datatype http_body = ErrorBody string | OrderBody orderResponse | OrdersBody "orderResponse list" string | NoBody

text \<open>\<open>strconv.Atoi\<close>: an optional sign and decimal digits within 64 bits.\<close>

definition atoi_digits :: "string \<Rightarrow> nat option" where
  "atoi_digits s = (if s = [] then None else read_digits 0 s)"

definition Atoi :: "string \<Rightarrow> int option" where
  "Atoi s =
     (let value = (case s of
        c # cs \<Rightarrow> (if c = CHR ''-'' then map_option (\<lambda>n. - int n) (atoi_digits cs)
                  else if c = CHR ''+'' then map_option int (atoi_digits cs)
                  else map_option int (atoi_digits s))
      | [] \<Rightarrow> None) in
      case value of None \<Rightarrow> None | Some i \<Rightarrow> if int64_range i then Some i else None)"

section \<open>Handlers\<close>

definition http_CreateOrder ::
  "(string \<Rightarrow> bool) \<Rightarrow> string \<Rightarrow> (CreateOrderInput \<Rightarrow> 'st \<Rightarrow> (order_error + Order) \<times> 'st) \<Rightarrow> wire \<Rightarrow> 'st
   \<Rightarrow> (nat \<times> http_body) \<times> 'st" where
  "http_CreateOrder is_uuid bind_text create body st =
     (case ShouldBindJSON is_uuid body of
        None \<Rightarrow> ((400, ErrorBody bind_text), st)
      | Some req \<Rightarrow>
          (let items = map (\<lambda>it. \<lparr>SKU = rq_SKU it, Name = rq_Name it,
                 Price = NewMoney (rq_Price it) (rq_Currency it), Quantity = rq_Quantity it\<rparr>) (cr_Items req) in
           case create \<lparr>in_CustomerID = cr_CustomerID req, in_Items = items\<rparr> st of
             (Inl e, st') \<Rightarrow>
               (if errors_is e ErrEmptyItems then (400, ErrorBody (error_text order_error_msg e))
                else (500, ErrorBody ''internal error''), st')
           | (Inr ord, st') \<Rightarrow> ((201, OrderBody (http_order_response ord)), st')))"

definition http_GetOrder :: "(string \<Rightarrow> order_error + Order) \<Rightarrow> string \<Rightarrow> nat \<times> http_body" where
  "http_GetOrder get oid =
     (case get oid of
        Inl e \<Rightarrow> (404, ErrorBody ''order not found'')
      | Inr ord \<Rightarrow> (200, OrderBody (http_order_response ord)))"

text \<open>The query parameters; one that is absent is the empty string.\<close>

definition http_ListOrders ::
  "(string \<Rightarrow> string \<Rightarrow> int \<Rightarrow> (order_error + Order list \<times> string) call) \<Rightarrow> string \<Rightarrow> string \<Rightarrow> string
   \<Rightarrow> nat \<times> http_body" where
  "http_ListOrders list_orders customerID cursor limit =
     (if customerID = [] then (400, ErrorBody ''customer_id is required'')
      else
        (let n = (case Atoi limit of None \<Rightarrow> 0 | Some i \<Rightarrow> i) in
         case list_orders customerID cursor n of
           Panics \<Rightarrow> (500, NoBody)
         | Returns (Inl e) \<Rightarrow> (500, ErrorBody ''internal error'')
         | Returns (Inr (page, nextCursor)) \<Rightarrow>
             (200, OrdersBody (map http_order_response page) nextCursor)))"

section \<open>Guarantees of the handlers\<close>

lemma ShouldBindJSON_Some:
  "ShouldBindJSON is_uuid body = Some req \<Longrightarrow> valid_request is_uuid req"
  by (auto simp: ShouldBindJSON_def split: option.splits if_splits)

text \<open>
  A create request is answered with 400 exactly when its binding
  fails, and then nothing is written; otherwise its items have positive prices and quantities, the
  domain's check for an order without items cannot fail, and the answer is 201 with the order that
  was saved, or 500 when the database failed.
\<close>

theorem http_CreateOrder_status:
  assumes "http_CreateOrder is_uuid bind_text
      (\<lambda>input st. CreateOrder (pg_save w) uid now input (fst st) (snd st)) body (db, n) = ((code, resp), db', n')"
  shows "code \<in> {201, 400, 500} \<and> (code = 400 \<longleftrightarrow> ShouldBindJSON is_uuid body = None)
    \<and> (code = 400 \<longrightarrow> db' = db) \<and> (code = 201 \<longleftrightarrow> n' = Suc n)
    \<and> (code = 201 \<longrightarrow> (\<exists>ord. resp = OrderBody (http_order_response ord) \<and> ID ord = uid
         \<and> has_key or_id uid (orders db')
         \<and> (\<forall>it \<in> set (Items ord). 0 < sint (Amount (Price it)) \<and> 0 < sint (Quantity it))))"
proof (cases "ShouldBindJSON is_uuid body")
  case None
  with assms show ?thesis by (auto simp: http_CreateOrder_def)
next
  case (Some req)
  note valid = ShouldBindJSON_Some [OF Some]
  define input where "input = \<lparr>in_CustomerID = cr_CustomerID req,
    in_Items = map (\<lambda>it. \<lparr>SKU = rq_SKU it, Name = rq_Name it,
      Price = NewMoney (rq_Price it) (rq_Currency it), Quantity = rq_Quantity it\<rparr>) (cr_Items req)\<rparr>"
  obtain f rid tm where w: "w = (f, rid, tm)" by (cases w)
  obtain res db1 n1 where c: "CreateOrder (pg_save w) uid now input db n = (res, db1, n1)"
    by (metis prod.exhaust)
  have ne: "in_Items input \<noteq> []"
    and pos: "\<forall>it \<in> set (in_Items input). 0 < sint (Amount (Price it)) \<and> 0 < sint (Quantity it)"
    using valid by (auto simp: input_def valid_request_def list_all_iff valid_item_request_def NewMoney_def)
  note facts = CreateOrder_results [OF c [unfolded w]]
  show ?thesis
  proof (cases res)
    case (Inl e)
    with facts ne have "\<not> errors_is e ErrEmptyItems" "n1 = n" by auto
    with assms Some c Inl show ?thesis
      by (auto simp: http_CreateOrder_def Let_def input_def)
  next
    case (Inr ord)
    with facts obtain payload where o: "NewOrder uid (in_CustomerID input) (in_Items input) now = Inr ord"
      "n1 = Suc n" "db1 = saved rid (tm 0) ord EventTypeOrderCreated payload db" by auto
    note fields = NewOrder_fields [OF o(1)]
    have "has_key or_id uid (orders db1)" by (simp add: o(3) fields has_key_def)
    moreover have "code = 201 \<and> resp = OrderBody (http_order_response ord) \<and> db' = db1 \<and> n' = Suc n"
      using assms Some c Inr o(2) by (simp add: http_CreateOrder_def Let_def input_def)
    moreover have "\<forall>it \<in> set (Items ord). 0 < sint (Amount (Price it)) \<and> 0 < sint (Quantity it)"
      using pos fields(3) by simp
    ultimately show ?thesis using Some fields(1) by auto
  qed
qed

definition sample_body :: wire where
  "sample_body = Doc (JObj [(''customer_id'', JStr ''c1''), (''items'', JArr
     [JObj [(''sku'', JStr ''s1''), (''name'', JStr ''n''), (''price'', JInt 5), (''currency'', JStr ''USD''),
            (''quantity'', JInt 2)]])])"

lemma bind_sample_body:
  "ShouldBindJSON (\<lambda>_. True) sample_body = Some \<lparr>cr_CustomerID = ''c1'', cr_Items =
     [\<lparr>rq_SKU = ''s1'', rq_Name = ''n'', rq_Price = 5, rq_Currency = ''USD'', rq_Quantity = 2\<rparr>]\<rparr>"
  by (simp add: ShouldBindJSON_def sample_body_def fields_createOrderRequest_def fields_createOrderItemRequest_def
      find_field_def upper_def zero_item_request_def int64_range_def valid_request_def valid_item_request_def
      rune_count_def)

lemma http_CreateOrder_sample:
  "http_CreateOrder (\<lambda>_. True) ''bad'' (\<lambda>input st.
        CreateOrder (pg_save (no_faults, ''r1'', \<lambda>_. sample_time)) ''o1'' sample_time input (fst st) (snd st))
      sample_body (empty_order_db, 0)
    = ((201, OrderBody (http_order_response sample_order)),
        saved ''r1'' sample_time sample_order EventTypeOrderCreated sample_payload empty_order_db, 1)"
  using NewOrder_sample
    by (simp add: http_CreateOrder_def bind_sample_body CreateOrder_def NewMoney_def sample_items_def
        marshal_sample pg_save_def save_sample)

theorem http_CreateOrder_status_witness:
  "\<exists>db' ord. http_CreateOrder (\<lambda>_. True) ''bad'' (\<lambda>input st.
        CreateOrder (pg_save (no_faults, ''r1'', \<lambda>_. sample_time)) ''o1'' sample_time input (fst st) (snd st))
      sample_body (empty_order_db, 0) = ((201, OrderBody (http_order_response ord)), db', 1)
    \<and> ID ord = ''o1'' \<and> has_key or_id ''o1'' (orders db')"
proof -
  from http_CreateOrder_status [OF http_CreateOrder_sample] obtain ord where ord: "http_order_response sample_order = http_order_response ord"
    "ID ord = ''o1''" "has_key or_id ''o1''
      (orders (saved ''r1'' sample_time sample_order EventTypeOrderCreated sample_payload empty_order_db))"
    by auto
  show ?thesis by (intro exI conjI) (rule http_CreateOrder_sample [unfolded ord(1)], rule ord(2), rule ord(3))
qed

text \<open>
  A read that fails for whatever reason is answered with 404 and
  \<open>order not found\<close>: so is one of an order that exists, when the database does not answer.
\<close>

theorem http_GetOrder_hides_failure:
  assumes "f_exec f k = Some m" and "k \<le> 1"
  shows "http_GetOrder (\<lambda>oid. GetOrder (GetByID f) oid db) oid = (404, ErrorBody ''order not found'')"
proof -
  have "k = 0 \<or> k = 1" using assms(2) by linarith
  then have "\<exists>e. GetByID f oid db = Inl e"
    using assms(1) by (auto simp: GetByID_def split: option.splits)
  then show ?thesis by (auto simp: http_GetOrder_def GetOrder_def)
qed

theorem http_GetOrder_hides_failure_witness:
  "has_key or_id ''o1'' (orders (os_db sample_created))
    \<and> http_GetOrder (\<lambda>oid. GetOrder (GetByID (no_faults\<lparr>f_exec := (\<lambda>k. if k = 1 then Some ''lost'' else None)\<rparr>)) oid
        (os_db sample_created)) ''o1'' = (404, ErrorBody ''order not found'')"
  using http_GetOrder_hides_failure [of "no_faults\<lparr>f_exec := (\<lambda>k. if k = 1 then Some ''lost'' else None)\<rparr>" 1 "''lost''"]
  by (simp add: sample_created_def has_key_def sample_order_def)

end
