(* ===== verification/Order_Entrances.thy ===== *)
theory Order_Entrances
  imports Gateway_System Order_Http
begin

text \<open>
  The two ways an order enters order-service: \<open>POST /orders\<close> of api-gateway, which passes the
  request on over gRPC (\<open>Gateway_Orders\<close>, \<open>Order_Grpc\<close>), and \<open>POST /orders\<close> of order-service
  itself (\<open>Order_Http\<close>).

  Both bind the same JSON members with the same tags, but the gateway's quantity is an \<open>int32\<close> and
  order-service's an \<open>int\<close>. \<open>quantities_fit\<close> is the exact difference: a body either has a quantity
  beyond 32 bits, and then the gateway refuses it, or both entrances bind it to the same request. From
  there on the gRPC conversions must not make a difference.
\<close>

section \<open>Two structs with the same member names\<close>

text \<open>
  When each setter of one struct does through \<open>h\<close> what the setter of the other does, on the
  members that fit, and fails on the others, so does the decoding of an object.
\<close>

lemma decode_members_agree:
  assumes names: "\<And>k. find_field gs k = None \<longleftrightarrow> find_field fs k = None"
    and others: "\<And>k v. find_field gs k = None \<Longrightarrow> fits (k, v)"
    and setters: "\<And>k v r s s'. find_field gs k = Some s' \<Longrightarrow> find_field fs k = Some s \<Longrightarrow>
      map_option h (s' v r) = (if fits (k, v) then s v (h r) else None)"
  shows "map_option h (decode_members gs ms r)
    = (if list_all fits ms then decode_members fs ms (h r) else None)"
proof (induction ms arbitrary: r)
  case (Cons m ms)
  obtain k v where m: "m = (k, v)" by (cases m)
  show ?case
  proof (cases "find_field gs k")
    case None
    with names [of k] others [of k v] Cons show ?thesis by (simp add: m)
  next
    case (Some s')
    with names [of k] obtain s where s: "find_field fs k = Some s" by fastforce
    from setters [OF Some s, of v r] Cons show ?thesis
      by (cases "s' v r"; cases "s v (h r)") (auto simp: m Some s split: if_splits)
  qed
qed simp

fun object_fits :: "(string \<times> json \<Rightarrow> bool) \<Rightarrow> json \<Rightarrow> bool" where
  "object_fits fits (JObj ms) = list_all fits ms"
| "object_fits fits _ = True"

fun array_fits :: "(json \<Rightarrow> bool) \<Rightarrow> json \<Rightarrow> bool" where
  "array_fits fits (JArr js) = list_all fits js"
| "array_fits fits _ = True"

lemma decode_struct_agree:
  assumes "\<And>ms. map_option h (decode_members gs ms zero')
      = (if list_all fits ms then decode_members fs ms (h zero') else None)"
  shows "map_option h (decode_struct gs zero' j)
    = (if object_fits fits j then decode_struct fs (h zero') j else None)"
  using assms by (cases j) auto

lemma those_agree:
  assumes "\<And>j. map_option h (f j) = (if fits j then g j else None)"
  shows "map_option (map h) (those (map f js)) = (if list_all fits js then those (map g js) else None)"
proof (induction js)
  case (Cons j js)
  from assms [of j] Cons show ?case
    by (cases "f j"; cases "g j"; cases "those (map f js)"; cases "those (map g js)") (auto split: if_splits)
qed simp

lemma decode_slice_agree:
  assumes "\<And>j. map_option h (f j) = (if fits j then g j else None)"
  shows "map_option (map h) (decode_slice f j) = (if array_fits fits j then decode_slice g j else None)"
  using those_agree [of h f fits g, OF assms] by (cases j) auto

section \<open>The two bindings\<close>

text \<open>The request of order-service that a request of the gateway stands for.\<close>

definition widen_item :: "gw_createOrderItemRequest \<Rightarrow> createOrderItemRequest" where
  "widen_item g = \<lparr>rq_SKU = gi_SKU g, rq_Name = gi_Name g, rq_Price = gi_Price g,
     rq_Currency = gi_Currency g, rq_Quantity = int_of_int32 (gi_Quantity g)\<rparr>"

definition widen_request :: "gw_createOrderRequest \<Rightarrow> createOrderRequest" where
  "widen_request g = \<lparr>cr_CustomerID = gr_CustomerID g, cr_Items = map widen_item (gr_Items g)\<rparr>"

text \<open>Every number a member \<open>quantity\<close> of an item holds is an \<open>int32\<close>.\<close>

fun int4_number :: "json \<Rightarrow> bool" where
  "int4_number (JInt i) = int4_range i"
| "int4_number _ = True"

definition quantity_fits :: "string \<times> json \<Rightarrow> bool" where
  "quantity_fits m \<longleftrightarrow> (fold_key (fst m) = fold_key ''quantity'' \<longrightarrow> int4_number (snd m))"

definition items_fit :: "string \<times> json \<Rightarrow> bool" where
  "items_fit m \<longleftrightarrow> (fold_key (fst m) = fold_key ''items'' \<longrightarrow> array_fits (object_fits quantity_fits) (snd m))"

fun quantities_fit :: "wire \<Rightarrow> bool" where
  "quantities_fit Malformed = True"
| "quantities_fit (Doc j) = object_fits items_fit j"

lemma sint_int32_in_range: "int4_range i \<Longrightarrow> sint (word_of_int i :: int32) = i"
  by (simp add: int4_range_def sint_sbintrunc' signed_take_bit_int_eq_self)

lemma int_of_int32_of_int: "int4_range i \<Longrightarrow> int_of_int32 (word_of_int i) = word_of_int i"
proof -
  assume "int4_range i"
  then have "sint (int_of_int32 (word_of_int i)) = sint (word_of_int i :: int64)"
    by (simp add: sint_int_of_int32 sint_int32_in_range sint_of_int_in_range int4_range_int64)
  then show ?thesis by (rule signed_word_eqI)
qed

lemma widen_zero: "widen_item zero_gw_item_request = zero_item_request"
  by (simp add: widen_item_def zero_gw_item_request_def zero_item_request_def int_of_int32_def)

lemma decode_int_widens:
  "int4_number j \<Longrightarrow> decode_int (int_of_int32 q) j = map_option int_of_int32 (decode_int32 q j)"
  "\<not> int4_number j \<Longrightarrow> decode_int32 q j = None"
  by (cases j; simp add: int_of_int32_of_int int4_range_int64)+

lemma decode_item_agree:
  "map_option widen_item (decode_struct fields_gw_item_request zero_gw_item_request j)
    = (if object_fits quantity_fits j then decode_struct fields_createOrderItemRequest zero_item_request j else None)"
  unfolding widen_zero [symmetric]
proof (rule decode_struct_agree, rule decode_members_agree)
  fix k v r s s'
  assume *: "find_field fields_gw_item_request k = Some s'" "find_field fields_createOrderItemRequest k = Some s"
  show "map_option widen_item (s' v r) = (if quantity_fits (k, v) then s v (widen_item r) else None)"
    using *
    by (auto simp: decode_int_widens find_field_def fields_gw_item_request_def fields_createOrderItemRequest_def quantity_fits_def
        widen_item_def option.map_comp comp_def upper_def split: if_splits)
qed (auto simp: find_field_def fields_gw_item_request_def fields_createOrderItemRequest_def quantity_fits_def
    upper_def split: if_splits)

lemma decode_items_widens:
  "array_fits (object_fits quantity_fits) j \<Longrightarrow>
    decode_slice (decode_struct fields_createOrderItemRequest zero_item_request) j
    = map_option (map widen_item) (decode_slice (decode_struct fields_gw_item_request zero_gw_item_request) j)"
  "\<not> array_fits (object_fits quantity_fits) j \<Longrightarrow>
    decode_slice (decode_struct fields_gw_item_request zero_gw_item_request) j = None"
  using decode_slice_agree [where h = widen_item and f = "decode_struct fields_gw_item_request zero_gw_item_request"
      and fits = "object_fits quantity_fits" and j = j, OF decode_item_agree] by (simp_all split: if_splits)

lemma decode_request_agree:
  "map_option widen_request (unmarshal fields_gw_request \<lparr>gr_CustomerID = [], gr_Items = []\<rparr> body)
    = (if quantities_fit body
       then unmarshal fields_createOrderRequest \<lparr>cr_CustomerID = [], cr_Items = []\<rparr> body else None)"
proof (cases body)
  case (Doc j)
  have zero: "\<lparr>cr_CustomerID = [], cr_Items = []\<rparr> = widen_request \<lparr>gr_CustomerID = [], gr_Items = []\<rparr>"
    by (simp add: widen_request_def)
  have "map_option widen_request (decode_struct fields_gw_request \<lparr>gr_CustomerID = [], gr_Items = []\<rparr> j)
    = (if object_fits items_fit j then decode_struct fields_createOrderRequest
        (widen_request \<lparr>gr_CustomerID = [], gr_Items = []\<rparr>) j else None)"
  proof (rule decode_struct_agree, rule decode_members_agree)
    fix k v r s s'
    assume *: "find_field fields_gw_request k = Some s'" "find_field fields_createOrderRequest k = Some s"
    show "map_option widen_request (s' v r) = (if items_fit (k, v) then s v (widen_request r) else None)"
      using *
      by (auto simp: decode_items_widens find_field_def fields_gw_request_def fields_createOrderRequest_def items_fit_def
          widen_request_def option.map_comp comp_def upper_def split: if_splits)
  qed (auto simp: find_field_def fields_gw_request_def fields_createOrderRequest_def items_fit_def
      upper_def split: if_splits)
  then show ?thesis by (simp add: Doc zero)
qed simp

lemma int_of_int32_eq_0 [simp]: "int_of_int32 q = 0 \<longleftrightarrow> q = 0"
  by (metis int32_round_trip int_of_int32_def signed_0)

lemma widen_valid [simp]: "valid_item_request (widen_item g) \<longleftrightarrow> gw_valid_item g"
  by (auto simp: valid_item_request_def gw_valid_item_def widen_item_def sint_int_of_int32)

lemma bindings_agree:
  "map_option widen_request (gw_bind is_uuid body)
    = (if quantities_fit body then ShouldBindJSON is_uuid body else None)"
proof -
  have valid: "valid_request is_uuid (widen_request g) \<longleftrightarrow> gr_CustomerID g \<noteq> [] \<and> is_uuid (gr_CustomerID g)
      \<and> 1 \<le> length (gr_Items g) \<and> list_all gw_valid_item (gr_Items g)" for g
    by (simp add: valid_request_def widen_request_def list.pred_map comp_def)
  note agree = decode_request_agree [of body]
  show ?thesis
  proof (cases "unmarshal fields_gw_request \<lparr>gr_CustomerID = [], gr_Items = []\<rparr> body")
    case None
    with agree show ?thesis by (auto simp: gw_bind_def ShouldBindJSON_def split: if_splits)
  next
    case (Some g)
    with agree have "quantities_fit body"
      "unmarshal fields_createOrderRequest \<lparr>cr_CustomerID = [], cr_Items = []\<rparr> body = Some (widen_request g)"
      by (auto split: if_splits)
    with Some show ?thesis by (simp add: gw_bind_def ShouldBindJSON_def valid)
  qed
qed

section \<open>The two handlers\<close>

text \<open>The items order-service's gRPC server makes of the gateway's message.\<close>

lemma proto_to_items_widen:
  "proto_to_items (map item_request_to_proto gs) = Returns (map (\<lambda>it. \<lparr>SKU = rq_SKU it, Name = rq_Name it,
     Price = NewMoney (rq_Price it) (rq_Currency it), Quantity = rq_Quantity it\<rparr>) (map widen_item gs))"
  by (induction gs) (simp_all add: item_request_to_proto_def widen_item_def)

lemma entrances_same_call:
  assumes "gw_bind is_uuid body = Some g"
  shows "\<exists>input. in_Items input \<noteq> []
    \<and> gw_CreateOrder is_uuid gw_text (pg_client_create Delivered w uid t) body st
        = (case pg_create w uid t input st of
             (Inl e, st') \<Rightarrow> (writeGRPCError (StatusError (fst (mapDomainErrToGRPC e)) (snd (mapDomainErrToGRPC e))), st')
           | (Inr ord, st') \<Rightarrow> ((201, GwOrder (gw_view ord)), st'))
    \<and> (quantities_fit body \<longrightarrow> http_CreateOrder is_uuid bind_text (pg_create w uid t) body st
        = (case pg_create w uid t input st of
             (Inl e, st') \<Rightarrow>
               (if errors_is e ErrEmptyItems then (400, ErrorBody (error_text order_error_msg e))
                else (500, ErrorBody ''internal error''), st')
           | (Inr ord, st') \<Rightarrow> ((201, OrderBody (http_order_response ord)), st')))"
proof -
  define input where "input = \<lparr>in_CustomerID = gr_CustomerID g, in_Items =
    map (\<lambda>it. \<lparr>SKU = rq_SKU it, Name = rq_Name it, Price = NewMoney (rq_Price it) (rq_Currency it),
      Quantity = rq_Quantity it\<rparr>) (map widen_item (gr_Items g))\<rparr>"
  have "quantities_fit body \<longrightarrow> ShouldBindJSON is_uuid body = Some (widen_request g)"
    using bindings_agree [of is_uuid body] assms by simp
  then show ?thesis
    using gw_bind_Some [OF assms]
    by (intro exI [of _ input])
      (auto simp: input_def gw_CreateOrder_def assms pg_client_create_def grpc_CreateOrder_def
        proto_to_items_widen rpc_result_def respond_def http_CreateOrder_def widen_request_def
        split: sum.splits prod.splits)
qed

text \<open>What order-service answers with 201 is saved, so its quantities fit the column.\<close>

lemma http_created_quantities:
  assumes "http_CreateOrder is_uuid bind_text (pg_create w uid t) body (db, n) = ((201, r), st)"
  shows "\<exists>ord. r = OrderBody (http_order_response ord) \<and> int4_quantities (Items ord)"
proof -
  obtain input ord st' where c: "pg_create w uid t input (db, n) = (Inr ord, st')"
    and r: "r = OrderBody (http_order_response ord)"
    using assms by (auto simp: http_CreateOrder_def Let_def split: option.splits prod.splits sum.splits if_splits)
  obtain f rid now res db' n' where w: "w = (f, rid, now)"
    "CreateOrder (pg_save (f, rid, now)) uid t input db n = (res, db', n')"
    by (metis prod.exhaust)
  then have "res = Inr ord" using c by (simp add: pg_create_def)
  with CreateOrder_results [OF w(2)] r show ?thesis by auto
qed

text \<open>The two entrances on one body; with any 201 of order-service set aside.\<close>

lemma entrances_agree_fit:
  assumes "gw_CreateOrder is_uuid gw_text (pg_client_create Delivered w uid t) body (db, n) = ((c1, r1), st1)"
    and "http_CreateOrder is_uuid bind_text (pg_create w uid t) body (db, n) = ((c2, r2), st2)"
  shows "(quantities_fit body \<longrightarrow> c1 = c2 \<and> st1 = st2
        \<and> (c1 = 201 \<longrightarrow> (\<exists>ord. r1 = GwOrder (gw_view ord) \<and> r2 = OrderBody (http_order_response ord))))
    \<and> (\<not> quantities_fit body \<longrightarrow> c1 = 400 \<and> st1 = (db, n))"
proof (cases "gw_bind is_uuid body")
  case None
  then have "quantities_fit body \<longrightarrow> ShouldBindJSON is_uuid body = None"
    using bindings_agree [of is_uuid body] by (auto split: if_splits)
  with assms None show ?thesis by (auto simp: gw_CreateOrder_def http_CreateOrder_def)
next
  case (Some g)
  obtain input where input: "in_Items input \<noteq> []"
    and gw: "gw_CreateOrder is_uuid gw_text (pg_client_create Delivered w uid t) body (db, n) = (case pg_create w uid t input (db, n) of
        (Inl e, st') \<Rightarrow> (writeGRPCError (StatusError (fst (mapDomainErrToGRPC e)) (snd (mapDomainErrToGRPC e))), st')
      | (Inr ord, st') \<Rightarrow> ((201, GwOrder (gw_view ord)), st'))"
    and ht: "quantities_fit body \<longrightarrow> http_CreateOrder is_uuid bind_text (pg_create w uid t) body (db, n)
      = (case pg_create w uid t input (db, n) of
        (Inl e, st') \<Rightarrow> (if errors_is e ErrEmptyItems then (400, ErrorBody (error_text order_error_msg e))
                else (500, ErrorBody ''internal error''), st')
      | (Inr ord, st') \<Rightarrow> ((201, OrderBody (http_order_response ord)), st'))"
    using entrances_same_call [OF Some, of gw_text w uid t "(db, n)" bind_text] by blast
  have fit: "quantities_fit body" using bindings_agree [of is_uuid body] Some by (auto split: if_splits)
  obtain f rid now res db' n' where c: "w = (f, rid, now)"
    "CreateOrder (pg_save (f, rid, now)) uid t input db n = (res, db', n')"
    by (metis prod.exhaust)
  note facts = CreateOrder_results [OF c(2)]
  show ?thesis
  proof (cases res)
    case (Inl e)
    then have "\<not> errors_is e s" for s using facts input by auto
    with assms gw ht fit c Inl show ?thesis
      by (auto simp: pg_create_def mapDomainErrToGRPC_def writeGRPCError_def http_code_def)
  next
    case (Inr ord)
    with assms gw ht fit c show ?thesis by (auto simp: pg_create_def)
  qed
qed

text \<open>
  Property C17 (equivalence). The two entrances agree: given the same body, id, clock and failures,
  when every quantity fits 32 bits the gateway and order-service answer with the same status code, leave
  the same database and counter, and on 201 both show the same saved order. A body with another quantity
  is refused by the gateway with 400 and writes nothing; order-service may bind it, but an order it
  answers with 201 has only quantities of 32 bits.
\<close>

theorem entrances_agree:
  assumes "gw_CreateOrder is_uuid gw_text (pg_client_create Delivered w uid t) body (db, n) = ((c1, r1), st1)"
    and "http_CreateOrder is_uuid bind_text (pg_create w uid t) body (db, n) = ((c2, r2), st2)"
  shows "(quantities_fit body \<longrightarrow> c1 = c2 \<and> st1 = st2
        \<and> (c1 = 201 \<longrightarrow> (\<exists>ord. r1 = GwOrder (gw_view ord) \<and> r2 = OrderBody (http_order_response ord))))
    \<and> (\<not> quantities_fit body \<longrightarrow> c1 = 400 \<and> st1 = (db, n))
    \<and> (c2 = 201 \<longrightarrow> (\<exists>ord. r2 = OrderBody (http_order_response ord) \<and> int4_quantities (Items ord)))"
  using entrances_agree_fit [OF assms] http_created_quantities [of is_uuid bind_text w uid t body db n r2 st2]
    assms(2) by simp

theorem entrances_agree_witness:
  "\<exists>ord st. gw_CreateOrder (\<lambda>_. True) ''bad'' (pg_client_create Delivered (no_faults, ''r1'', \<lambda>_. sample_time) ''o1'' sample_time)
      sample_body (empty_order_db, 0) = ((201, GwOrder (gw_view ord)), st)
    \<and> http_CreateOrder (\<lambda>_. True) ''bad'' (pg_create (no_faults, ''r1'', \<lambda>_. sample_time) ''o1'' sample_time)
      sample_body (empty_order_db, 0) = ((201, OrderBody (http_order_response ord)), st)"
proof -
  have h: "http_CreateOrder (\<lambda>_. True) ''bad'' (pg_create (no_faults, ''r1'', \<lambda>_. sample_time) ''o1'' sample_time)
      sample_body (empty_order_db, 0)
    = ((201, OrderBody (http_order_response sample_order)),
        saved ''r1'' sample_time sample_order EventTypeOrderCreated sample_payload empty_order_db, 1)"
    using http_CreateOrder_sample unfolding pg_create_def .
  obtain c1 r1 st1 where g: "gw_CreateOrder (\<lambda>_. True) ''bad''
      (pg_client_create Delivered (no_faults, ''r1'', \<lambda>_. sample_time) ''o1'' sample_time)
      sample_body (empty_order_db, 0) = ((c1, r1), st1)"
    by (metis prod.exhaust)
  have "quantities_fit sample_body"
    by (simp add: sample_body_def items_fit_def quantity_fits_def upper_def int4_range_def)
  with entrances_agree [OF g h] g h show ?thesis by auto
qed

end
