(* ===== verification/Go_Process.thy ===== *)
theory Go_Process
  imports Market_Prelude
begin

text \<open>
  The processes the services run as: what a Go \<open>main\<close> of this repository does with its resources,
  its goroutines, signals, panics and exits.

  A \<open>main\<close> is a list of statements. A process holds the statements still to run, its stack of
  deferred calls, the resources it has acquired and closed, its goroutines, whether the context of
  \<open>signal.NotifyContext\<close> is cancelled, whether \<open>main\<close> is unwinding from a panic, and how it ended.
  What happens to it is a list of \<open>event\<close>s: \<open>main\<close> makes a step, a signal arrives, a server fails,
  a goroutine or \<open>main\<close> panics, a goroutine ends. So every interleaving is a list of events, and
  \<open>run_events\<close> computes where it leads. A call that waits for others may return or not:
  \<open>main_step\<close> is then \<open>None\<close>, and \<open>main\<close> stays where it is.

  Used of Go and its libraries: \<open>os.Exit\<close> runs no deferred call; \<open>main\<close> returns after its
  deferred calls, the last one first; a panic in \<open>main\<close> runs them too and then ends the process with code
  2, a panic in another goroutine that nothing recovers ends it at once with code 2; \<open>net/http\<close> recovers
  the panics of its handlers, gRPC does not; while \<open>NotifyContext\<close> is in force a signal only cancels its
  context, otherwise it ends the process; \<open>Ping\<close> of a cancelled context is an error; the calls that
  take the context and block return when it is cancelled; \<open>Shutdown\<close> waits for the requests, until the
  deadline of its context if that has one; \<open>pgxpool.Pool.Close\<close> waits for the connections in use;
  \<open>kafka.Reader.Close\<close> waits for the reader's own goroutines; \<open>kafka.Writer.Close\<close> waits for writes, of
  which there are none when the worker has returned. Goroutines are not waited for. That a deferred
  call itself panics is not modelled.

  The locale \<open>go_main\<close> states what a tidy \<open>main\<close> looks like; that such a process gives back what it
  has acquired, in reverse order, is proved inside it. It is interpreted on the six \<open>main\<close> functions
  in \<open>Processes\<close>.
\<close>

section \<open>The environment\<close>

type_synonym environment = "string \<rightharpoonup> string"

text \<open>\<open>os.Getenv\<close>: empty for a variable that is not set.\<close>

definition Getenv :: "environment \<Rightarrow> string \<Rightarrow> string" where
  "Getenv env key = (case env key of None \<Rightarrow> [] | Some v \<Rightarrow> v)"

definition getEnv :: "environment \<Rightarrow> string \<Rightarrow> string \<Rightarrow> string" where
  "getEnv env key fallback = (let v = Getenv env key in if v \<noteq> [] then v else fallback)"

text \<open>\<open>strings.Split(s, ",")\<close>: one piece more than there are commas.\<close>

fun split_comma :: "string \<Rightarrow> string list" where
  "split_comma [] = [[]]"
| "split_comma (c # cs) =
     (if c = CHR '','' then [] # split_comma cs
      else (case split_comma cs of [] \<Rightarrow> [[c]] | p # ps \<Rightarrow> (c # p) # ps))"

section \<open>Statements\<close>

text \<open>A \<open>kafka.Reader\<close> by its configuration.\<close>

record kafka_reader =
  rd_Brokers :: "string list"
  rd_Topic :: string
  rd_GroupID :: string

text \<open>A \<open>kafka.Writer\<close>: how it chooses the partition of a message and which replicas have to acknowledge it.\<close>

datatype balancer = RoundRobin | Hash

datatype required_acks = RequireNone | RequireOne | RequireAll

record kafka_writer =
  kw_Addr :: "string list"
  kw_Balancer :: balancer
  kw_RequiredAcks :: required_acks

text \<open>What a process acquires and has to give back, by the call that does: \<open>stop()\<close>, \<open>Close()\<close>,
  \<open>Shutdown(context.Background())\<close> of a metrics server, \<open>cancel()\<close>.\<close>

datatype resource = Signals | PgPool string | OrderConn string | RedisConn string
  | Consumer "kafka_reader list" | Writer kafka_writer | MetricsServer string | ShutdownTimer nat

text \<open>
  What runs: a server with its routes, the requests a server was still handling when its shutdown ran
  out of time, the loop over a topic, an outbox worker with its interval in seconds and its batch.
\<close>

datatype task = ServeHTTP string "(string \<times> string) list" | ServeGRPC string | ServeMetrics string
  | HTTPRequests string | GRPCRequests string | Loop kafka_reader | WorkerLoop nat nat

text \<open>
  \<open>Open\<close>, \<open>Ping\<close>, \<open>Listen\<close>: on an error log it and \<open>os.Exit(1)\<close>. \<open>Make\<close>: a
  constructor that cannot fail. \<open>Go\<close>: the \<open>go\<close> statement. \<open>Await\<close>: \<open><-ctx.Done()\<close>.
  \<open>Run\<close>: the task in \<open>main\<close> itself, until the context is cancelled. The shutdown of a server, with the
  seconds its context gives it, if the context has a deadline.
\<close>

datatype statement = Open resource | Make resource | Ping resource | Listen string | Defer resource
  | Go task | Await | Run task | ShutdownHTTP string "nat option" | StopGRPC string "nat option"

datatype outcome = Alive | Exited nat | Killed

record process =
  pr_rest :: "statement list"
  pr_deferred :: "resource list"
  pr_acquired :: "resource list"
  pr_closed :: "resource list"
  pr_running :: "task list"
  pr_cancelled :: bool
  pr_panicked :: bool
  pr_outcome :: outcome

definition process_start :: "statement list \<Rightarrow> process" where
  "process_start main = \<lparr>pr_rest = main, pr_deferred = [], pr_acquired = [], pr_closed = [], pr_running = [], pr_cancelled = False,
     pr_panicked = False, pr_outcome = Alive\<rparr>"

section \<open>What happens to a process\<close>

definition exit_with :: "nat \<Rightarrow> process \<Rightarrow> process" where
  "exit_with code p = p\<lparr>pr_outcome := Exited code\<rparr>"

fun serves_http :: "string \<Rightarrow> task \<Rightarrow> bool" where
  "serves_http addr (ServeHTTP a rs) \<longleftrightarrow> a = addr"
| "serves_http addr _ \<longleftrightarrow> False"

fun is_server :: "task \<Rightarrow> bool" where
  "is_server (ServeHTTP _ _) \<longleftrightarrow> True"
| "is_server (ServeGRPC _) \<longleftrightarrow> True"
| "is_server _ \<longleftrightarrow> False"

text \<open>
  One statement of \<open>main\<close>, with whether it works: \<open>None\<close> when it blocks. A shutdown that works has
  waited for the requests; one that does not leaves them running when its time is over, and waits on
  without a deadline.
\<close>

fun exec :: "bool \<Rightarrow> statement \<Rightarrow> process \<Rightarrow> process option" where
  "exec ok (Open r) p = Some (if ok then p\<lparr>pr_acquired := r # pr_acquired p\<rparr> else exit_with 1 p)"
| "exec ok (Make r) p = Some (p\<lparr>pr_acquired := r # pr_acquired p\<rparr>)"
| "exec ok (Ping r) p = Some (if ok \<and> \<not> pr_cancelled p then p else exit_with 1 p)"
| "exec ok (Listen addr) p = Some (if ok then p else exit_with 1 p)"
| "exec ok (Defer r) p = Some (p\<lparr>pr_deferred := r # pr_deferred p\<rparr>)"
| "exec ok (Go t) p = Some (p\<lparr>pr_running := t # pr_running p\<rparr>)"
| "exec ok Await p = (if pr_cancelled p then Some p else None)"
| "exec ok (Run t) p = (if pr_cancelled p then Some p else None)"
| "exec ok (ShutdownHTTP addr deadline) p = (if ok \<or> deadline \<noteq> None
     then Some (p\<lparr>pr_running := (if ok then [] else [HTTPRequests addr])
       @ filter (\<lambda>t. \<not> serves_http addr t) (pr_running p)\<rparr>) else None)"
| "exec ok (StopGRPC addr deadline) p = (if ok \<or> deadline \<noteq> None
     then Some (p\<lparr>pr_running := (if ok then [] else [GRPCRequests addr])
       @ filter (\<lambda>t. t \<noteq> ServeGRPC addr) (pr_running p)\<rparr>) else None)"

text \<open>
  The deferred calls that may wait: \<open>Close\<close> of a pool while a goroutine that uses it runs, \<open>Close\<close>
  of readers, and \<open>Shutdown(context.Background())\<close> of the metrics page.
\<close>

fun uses_pool :: "task \<Rightarrow> bool" where
  "uses_pool (ServeMetrics _) \<longleftrightarrow> False"
| "uses_pool _ \<longleftrightarrow> True"

fun may_wait :: "resource \<Rightarrow> process \<Rightarrow> bool" where
  "may_wait (PgPool url) p \<longleftrightarrow> list_ex uses_pool (pr_running p)"
| "may_wait (Consumer readers) p \<longleftrightarrow> True"
| "may_wait (MetricsServer addr) p \<longleftrightarrow> True"
| "may_wait _ p \<longleftrightarrow> False"

text \<open>A deferred call; the page of a metrics server goes with it.\<close>

definition close_resource :: "resource \<Rightarrow> process \<Rightarrow> process" where
  "close_resource r p = p\<lparr>pr_closed := r # pr_closed p,
     pr_running := (case r of MetricsServer addr \<Rightarrow> filter (\<lambda>t. t \<noteq> ServeMetrics addr) (pr_running p) | _ \<Rightarrow> pr_running p)\<rparr>"

text \<open>
  \<open>main\<close> goes on: a statement, then the deferred calls, then the end of the process. A deferred call
  that may wait returns or not.
\<close>

definition main_step :: "bool \<Rightarrow> process \<Rightarrow> process option" where
  "main_step ok p =
     (case pr_rest p of
        s # ss \<Rightarrow> exec ok s (p\<lparr>pr_rest := ss\<rparr>)
      | [] \<Rightarrow>
          (case pr_deferred p of
             r # rs \<Rightarrow> if ok \<or> \<not> may_wait r p then Some (close_resource r (p\<lparr>pr_deferred := rs\<rparr>)) else None
           | [] \<Rightarrow> Some (exit_with (if pr_panicked p then 2 else 0) p)))"

datatype event = Main bool | MainPanics | Signal | ServerFails task | GoroutinePanics task | TaskEnds task

text \<open>
  A server that fails ends the process, but the one of the metrics is only logged. A loop ends once the
  context is cancelled, a request when it is answered. Every statement that calls something may panic.
\<close>

fun may_end :: "process \<Rightarrow> task \<Rightarrow> bool" where
  "may_end p (Loop r) \<longleftrightarrow> pr_cancelled p"
| "may_end p (HTTPRequests addr) \<longleftrightarrow> True"
| "may_end p (GRPCRequests addr) \<longleftrightarrow> True"
| "may_end p (ServeMetrics addr) \<longleftrightarrow> True"
| "may_end p _ \<longleftrightarrow> False"

fun crashes :: "task \<Rightarrow> bool" where
  "crashes (Loop r) \<longleftrightarrow> True"
| "crashes (ServeGRPC addr) \<longleftrightarrow> True"
| "crashes (GRPCRequests addr) \<longleftrightarrow> True"
| "crashes _ \<longleftrightarrow> False"

fun may_panic :: "statement \<Rightarrow> bool" where
  "may_panic (Defer _) \<longleftrightarrow> False"
| "may_panic (Go _) \<longleftrightarrow> False"
| "may_panic Await \<longleftrightarrow> False"
| "may_panic _ \<longleftrightarrow> True"

fun happen :: "event \<Rightarrow> process \<Rightarrow> process option" where
  "happen (Main ok) p = main_step ok p"
| "happen MainPanics p = (case pr_rest p of
     s # ss \<Rightarrow> if may_panic s then Some (p\<lparr>pr_rest := [], pr_panicked := True\<rparr>) else None
   | [] \<Rightarrow> None)"
| "happen Signal p = Some (if Signals \<in> set (pr_acquired p) \<and> Signals \<notin> set (pr_closed p)
     then p\<lparr>pr_cancelled := True\<rparr> else p\<lparr>pr_outcome := Killed\<rparr>)"
| "happen (ServerFails t) p = (if is_server t \<and> t \<in> set (pr_running p) then Some (exit_with 1 p) else None)"
| "happen (GoroutinePanics t) p = (if crashes t \<and> t \<in> set (pr_running p) then Some (exit_with 2 p) else None)"
| "happen (TaskEnds t) p = (if t \<in> set (pr_running p) \<and> may_end p t then Some (p\<lparr>pr_running := remove1 t (pr_running p)\<rparr>) else None)"

fun run_events :: "event list \<Rightarrow> process \<Rightarrow> process option" where
  "run_events [] p = Some p"
| "run_events (e # es) p =
     (if pr_outcome p \<noteq> Alive then None
      else (case happen e p of None \<Rightarrow> None | Some p' \<Rightarrow> run_events es p'))"

inductive reaches :: "statement list \<Rightarrow> process \<Rightarrow> bool" for main where
  init: "reaches main (process_start main)"
| step: "reaches main p \<Longrightarrow> pr_outcome p = Alive \<Longrightarrow> happen e p = Some p' \<Longrightarrow> reaches main p'"

lemma run_events_reaches:
  "reaches main p \<Longrightarrow> run_events es p = Some p' \<Longrightarrow> reaches main p'"
  by (induction es arbitrary: p) (auto intro: reaches.step split: if_splits option.splits)

section \<open>A tidy main\<close>

text \<open>Everything acquired is deferred before anything can go wrong (a \<open>go\<close> statement may stand between).\<close>

fun tidy :: "resource option \<Rightarrow> statement list \<Rightarrow> bool" where
  "tidy pend [] \<longleftrightarrow> pend = None"
| "tidy pend (Open r # ss) \<longleftrightarrow> pend = None \<and> tidy (Some r) ss"
| "tidy pend (Make r # ss) \<longleftrightarrow> pend = None \<and> tidy (Some r) ss"
| "tidy pend (Defer r # ss) \<longleftrightarrow> pend = Some r \<and> tidy None ss"
| "tidy pend (Go t # ss) \<longleftrightarrow> tidy pend ss"
| "tidy pend (_ # ss) \<longleftrightarrow> pend = None \<and> tidy None ss"

fun acquisition :: "statement \<Rightarrow> resource list" where
  "acquisition (Open r) = [r]"
| "acquisition (Make r) = [r]"
| "acquisition _ = []"

definition acquisitions :: "statement list \<Rightarrow> resource list" where
  "acquisitions ss = concat (map acquisition ss)"

text \<open>A server that is started is shut down later, and some statement waits for the signal.\<close>

fun stops :: "task \<Rightarrow> statement \<Rightarrow> bool" where
  "stops (ServeHTTP addr rs) s \<longleftrightarrow> (case s of ShutdownHTTP a _ \<Rightarrow> a = addr | _ \<Rightarrow> False)"
| "stops (ServeGRPC addr) s \<longleftrightarrow> (case s of StopGRPC a _ \<Rightarrow> a = addr | _ \<Rightarrow> False)"
| "stops _ s \<longleftrightarrow> True"

fun servers_stopped :: "statement list \<Rightarrow> bool" where
  "servers_stopped [] \<longleftrightarrow> True"
| "servers_stopped (Go t # ss) \<longleftrightarrow> (is_server t \<longrightarrow> list_ex (stops t) ss) \<and> servers_stopped ss"
| "servers_stopped (_ # ss) \<longleftrightarrow> servers_stopped ss"

fun waits :: "statement \<Rightarrow> bool" where
  "waits Await \<longleftrightarrow> True"
| "waits (Run _) \<longleftrightarrow> True"
| "waits _ \<longleftrightarrow> False"

definition pending_list :: "resource option \<Rightarrow> resource list" where
  "pending_list pend = (case pend of None \<Rightarrow> [] | Some r \<Rightarrow> [r])"

lemma acquisitions_simps [simp]:
  "acquisitions [] = []" "acquisitions (s # ss) = acquisition s @ acquisitions ss"
  by (simp_all add: acquisitions_def)

lemma pending_list_simps [simp]: "pending_list None = []" "pending_list (Some r) = [r]"
  by (simp_all add: pending_list_def)

text \<open>
  While the process is alive: what is acquired is what is closed, what is deferred and at most one
  resource whose \<open>defer\<close> comes next; and unless \<open>main\<close> has panicked, every server will be stopped, and
  \<open>main\<close> will wait for the signal.
\<close>

definition closing_order :: "statement list \<Rightarrow> process \<Rightarrow> bool" where
  "closing_order main p \<longleftrightarrow>
     (\<exists>pend. pr_acquired p = pending_list pend @ rev (pr_closed p) @ pr_deferred p)
     \<and> (\<exists>later. rev (pr_acquired p) @ later = acquisitions main)"

definition resources_inv :: "statement list \<Rightarrow> process \<Rightarrow> bool" where
  "resources_inv main p \<longleftrightarrow>
     (\<exists>pend. tidy pend (pr_rest p) \<and> pr_acquired p = pending_list pend @ rev (pr_closed p) @ pr_deferred p)
     \<and> (pr_closed p \<noteq> [] \<or> pr_panicked p \<longrightarrow> pr_rest p = [])
     \<and> (\<exists>later. rev (pr_acquired p) @ later = acquisitions main \<and> (\<not> pr_panicked p \<longrightarrow> later = acquisitions (pr_rest p)))"

definition servers_inv :: "process \<Rightarrow> bool" where
  "servers_inv p \<longleftrightarrow> pr_panicked p \<or> servers_stopped (pr_rest p)
     \<and> (\<forall>t \<in> set (pr_running p). is_server t \<longrightarrow> list_ex (stops t) (pr_rest p))"

definition waits_inv :: "process \<Rightarrow> bool" where
  "waits_inv p \<longleftrightarrow> pr_panicked p \<or> pr_cancelled p \<or> list_ex waits (pr_rest p)"

definition alive_inv :: "statement list \<Rightarrow> process \<Rightarrow> bool" where
  "alive_inv main p \<longleftrightarrow> resources_inv main p \<and> servers_inv p \<and> waits_inv p"

text \<open>
  And at its end: an orderly exit has given everything back; \<open>os.Exit\<close> runs no deferred call (but it may
  come while a panic runs them); a panic of \<open>main\<close> has run them all, one of a goroutine has stopped them
  wherever they were; and a signal can only kill the process before the first acquisition or after the last
  deferred call.
\<close>

fun end_of :: "statement list \<Rightarrow> process \<Rightarrow> outcome \<Rightarrow> bool" where
  "end_of main p Alive \<longleftrightarrow> alive_inv main p"
| "end_of main p (Exited code) \<longleftrightarrow> code \<le> 2
     \<and> (code = 0 \<longrightarrow> pr_closed p = acquisitions main \<and> pr_cancelled p \<and> \<not> list_ex is_server (pr_running p))
     \<and> (code = 1 \<longrightarrow> pr_closed p = [] \<or> pr_panicked p)
     \<and> (code = 2 \<longrightarrow> pr_panicked p \<and> pr_closed p = rev (pr_acquired p) \<or> list_ex crashes (pr_running p))"
| "end_of main p Killed \<longleftrightarrow> pr_closed p = rev (pr_acquired p)"

definition ended_well :: "statement list \<Rightarrow> process \<Rightarrow> outcome \<Rightarrow> bool" where
  "ended_well main p out \<longleftrightarrow> closing_order main p \<and> end_of main p out"

lemma alive_closing_order: "alive_inv main p \<Longrightarrow> closing_order main p"
  by (auto simp: alive_inv_def resources_inv_def closing_order_def)

lemma ended_well_Alive [simp]: "ended_well main p Alive \<longleftrightarrow> alive_inv main p"
  using alive_closing_order by (auto simp: ended_well_def)

lemma closing_order_sets:
  assumes "closing_order main p"
  shows "set (pr_deferred p) \<subseteq> set (pr_acquired p)" "set (pr_acquired p) \<subseteq> set (acquisitions main)"
proof -
  show "set (pr_deferred p) \<subseteq> set (pr_acquired p)" using assms by (auto simp: closing_order_def)
  obtain later where "acquisitions main = rev (pr_acquired p) @ later" using assms unfolding closing_order_def by metis
  then show "set (pr_acquired p) \<subseteq> set (acquisitions main)" by simp
qed

lemma closing_order_fields [simp]:
  "closing_order main (exit_with code p) \<longleftrightarrow> closing_order main p"
  "closing_order main (p\<lparr>pr_outcome := out\<rparr>) \<longleftrightarrow> closing_order main p"
  "closing_order main (p\<lparr>pr_rest := ss\<rparr>) \<longleftrightarrow> closing_order main p"
  by (simp_all add: closing_order_def exit_with_def)

fun next_pending :: "statement \<Rightarrow> resource option \<Rightarrow> resource option" where
  "next_pending (Open r) pend = Some r"
| "next_pending (Make r) pend = Some r"
| "next_pending (Go t) pend = pend"
| "next_pending _ pend = None"

lemma tidy_next: "tidy pend (s # ss) \<Longrightarrow> tidy (next_pending s pend) ss"
  by (cases s) auto

text \<open>A statement that does not end the process.\<close>

lemma resources_invE:
  assumes "resources_inv main p" and "pr_rest p = s # ss"
  obtains pend where "tidy pend (s # ss)" "pr_acquired p = pending_list pend @ pr_deferred p" "pr_closed p = []"
    "\<not> pr_panicked p" "rev (pr_acquired p) @ acquisition s @ acquisitions ss = acquisitions main"
  using assms by (auto simp: resources_inv_def)

lemma exec_resources:
  assumes "resources_inv main p" and "pr_rest p = s # ss" and "exec ok s (p\<lparr>pr_rest := ss\<rparr>) = Some p'"
    and "pr_outcome p = Alive" and "pr_outcome p' = Alive"
  shows "resources_inv main p'"
proof -
  obtain pend where pend: "tidy pend (s # ss)" "pr_acquired p = pending_list pend @ pr_deferred p" "pr_closed p = []"
    "\<not> pr_panicked p" "rev (pr_acquired p) @ acquisition s @ acquisitions ss = acquisitions main"
    using resources_invE [OF assms(1,2)] .
  have "pr_acquired p' = pending_list (next_pending s pend) @ pr_deferred p'" "pr_closed p' = []" "pr_rest p' = ss"
    "\<not> pr_panicked p'" "rev (pr_acquired p') @ acquisitions ss = acquisitions main"
    using pend assms(3,4,5) by (cases s; auto simp: exit_with_def split: if_splits)+
  with tidy_next [OF pend(1)] show ?thesis by (auto simp: resources_inv_def)
qed

lemma exec_servers:
  assumes "servers_inv p" and "pr_rest p = s # ss" and "\<not> pr_panicked p" and "exec ok s (p\<lparr>pr_rest := ss\<rparr>) = Some p'"
  shows "servers_inv p'"
proof -
  have stopped: "servers_stopped ss" "pr_rest p' = ss"
    using assms by (cases s; auto simp: servers_inv_def exit_with_def split: if_splits)+
  have "list_ex (stops t) ss" if "t \<in> set (pr_running p')" "is_server t" for t
    using assms that by (cases s; cases t; fastforce simp: servers_inv_def exit_with_def split: if_splits)
  with stopped show ?thesis by (simp add: servers_inv_def)
qed

lemma exec_waits:
  assumes "waits_inv p" and "pr_rest p = s # ss" and "exec ok s (p\<lparr>pr_rest := ss\<rparr>) = Some p'"
  shows "waits_inv p'"
  using assms by (cases s) (auto simp: waits_inv_def exit_with_def split: if_splits)

lemma exec_ends:
  "exec ok s p = Some p' \<Longrightarrow> pr_outcome p = Alive \<Longrightarrow> pr_outcome p' \<noteq> Alive \<Longrightarrow> p' = exit_with 1 p"
  by (cases s) (auto split: if_splits)

lemma exec_alive_inv:
  assumes "alive_inv main p" and "pr_rest p = s # ss" and "exec ok s (p\<lparr>pr_rest := ss\<rparr>) = Some p'"
    and "pr_outcome p = Alive"
  shows "ended_well main p' (pr_outcome p')"
proof (cases "pr_outcome p' = Alive")
  case True
  have "\<not> pr_panicked p" using assms(1,2) by (auto simp: alive_inv_def resources_inv_def)
  with True assms exec_resources [OF _ assms(2,3,4) True] exec_servers [OF _ assms(2) _ assms(3)] exec_waits [OF _ assms(2,3)]
  show ?thesis by (simp add: alive_inv_def)
next
  case False
  with exec_ends [OF assms(3)] assms(4) have "p' = exit_with 1 (p\<lparr>pr_rest := ss\<rparr>)" by simp
  with assms(1,2) alive_closing_order [OF assms(1)] show ?thesis
    by (simp add: ended_well_def) (simp add: exit_with_def alive_inv_def resources_inv_def)
qed

text \<open>A panic of \<open>main\<close>: nothing is acquired without its \<open>defer\<close> then.\<close>

lemma panic_alive_inv:
  assumes "alive_inv main p" and "pr_rest p = s # ss" and "may_panic s"
  shows "alive_inv main (p\<lparr>pr_rest := [], pr_panicked := True\<rparr>)"
proof -
  obtain pend where pend: "tidy pend (s # ss)" "pr_acquired p = pending_list pend @ pr_deferred p" "pr_closed p = []"
    "rev (pr_acquired p) @ acquisition s @ acquisitions ss = acquisitions main"
    using resources_invE [OF _ assms(2)] assms(1) unfolding alive_inv_def by metis
  have "pend = None" using pend(1) assms(3) by (cases s) auto
  with pend show ?thesis
    by (auto simp: alive_inv_def resources_inv_def servers_inv_def waits_inv_def intro!: exI [of _ None])
qed

text \<open>A deferred call.\<close>

lemma close_resource_fields [simp]:
  "pr_acquired (close_resource r p) = pr_acquired p" "pr_closed (close_resource r p) = r # pr_closed p"
  "pr_deferred (close_resource r p) = pr_deferred p" "pr_rest (close_resource r p) = pr_rest p"
  "pr_panicked (close_resource r p) = pr_panicked p" "pr_cancelled (close_resource r p) = pr_cancelled p"
  "pr_outcome (close_resource r p) = pr_outcome p"
  by (simp_all add: close_resource_def)

lemma close_resource_running: "set (pr_running (close_resource r p)) \<subseteq> set (pr_running p)"
  by (cases r) (auto simp: close_resource_def)

lemma close_alive_inv:
  assumes "alive_inv main p" and "pr_rest p = []" and "pr_deferred p = r # rs"
  shows "alive_inv main (close_resource r (p\<lparr>pr_deferred := rs\<rparr>))"
proof -
  obtain later where "rev (pr_acquired p) @ later = acquisitions main" "\<not> pr_panicked p \<longrightarrow> later = acquisitions (pr_rest p)"
    using assms(1) unfolding alive_inv_def resources_inv_def by blast
  then have "resources_inv main (close_resource r (p\<lparr>pr_deferred := rs\<rparr>))"
    using assms by (auto simp: alive_inv_def resources_inv_def intro!: exI [of _ later])
  moreover have "servers_inv (close_resource r (p\<lparr>pr_deferred := rs\<rparr>))"
    using assms close_resource_running [of r "p\<lparr>pr_deferred := rs\<rparr>"]
    by (auto simp: alive_inv_def servers_inv_def)
  ultimately show ?thesis using assms by (simp add: alive_inv_def waits_inv_def)
qed

lemma unwound_closed:
  assumes "alive_inv main p" and "pr_rest p = []" and "pr_deferred p = []"
  shows "pr_closed p = rev (pr_acquired p)"
  using assms by (auto simp: alive_inv_def resources_inv_def)

lemma return_ends_well:
  assumes "alive_inv main p" and "pr_rest p = []" and "pr_deferred p = []"
  shows "ended_well main (exit_with (if pr_panicked p then 2 else 0) p) (Exited (if pr_panicked p then 2 else 0))"
  using unwound_closed [OF assms] alive_closing_order [OF assms(1)] assms
  by (simp add: ended_well_def)
    (auto simp: alive_inv_def resources_inv_def servers_inv_def waits_inv_def exit_with_def list_ex_iff)

lemma remove1_servers: "servers_inv p \<Longrightarrow> servers_inv (p\<lparr>pr_running := remove1 t (pr_running p)\<rparr>)"
  using set_remove1_subset [of t "pr_running p"] by (auto simp: servers_inv_def)

text \<open>While a server runs, \<open>main\<close> has not come to its deferred calls, unless by a panic.\<close>

lemma server_running_open:
  assumes "alive_inv main p" and "t \<in> set (pr_running p)" and "is_server t"
  shows "pr_closed p = [] \<or> pr_panicked p"
  using assms by (auto simp: alive_inv_def resources_inv_def servers_inv_def)

locale go_main =
  fixes main :: "statement list" and body :: "statement list"
  assumes signals_first: "main = Make Signals # body"
    and tidy: "tidy None main"
    and distinct: "distinct (acquisitions main)"
    and stopped: "servers_stopped main"
    and waits: "list_ex waits main"
begin

lemma start_alive_inv: "alive_inv main (process_start main)"
  using tidy stopped waits
  by (auto simp: alive_inv_def resources_inv_def servers_inv_def waits_inv_def process_start_def intro!: exI [of _ None])

lemma acquired_once: "closing_order main p \<Longrightarrow> distinct (pr_acquired p)"
  using distinct unfolding closing_order_def by (metis distinct_append distinct_rev)

text \<open>A signal kills the process before \<open>NotifyContext\<close> or after its \<open>stop()\<close>, the last deferred call.\<close>

lemma signal_ends_well:
  assumes "alive_inv main p" and "Signals \<notin> set (pr_acquired p) \<or> Signals \<in> set (pr_closed p)"
  shows "pr_closed p = rev (pr_acquired p)"
proof -
  have inv: "resources_inv main p" using assms(1) by (simp add: alive_inv_def)
  obtain pend where pend: "tidy pend (pr_rest p)"
    "pr_acquired p = pending_list pend @ rev (pr_closed p) @ pr_deferred p"
    using inv unfolding resources_inv_def by blast
  obtain later where later: "rev (pr_acquired p) @ later = Signals # acquisitions body"
    using inv signals_first by (auto simp: resources_inv_def)
  show ?thesis
  proof (cases "pr_acquired p")
    case Nil
    with pend(2) show ?thesis by simp
  next
    case (Cons a as)
    then have "rev (pr_acquired p) \<noteq> []" by simp
    with later obtain ys where ys: "rev (pr_acquired p) = Signals # ys" by (cases "rev (pr_acquired p)") auto
    then have acq: "pr_acquired p = rev ys @ [Signals]" by (simp add: rev_swap)
    with assms(2) have closed: "Signals \<in> set (pr_closed p)" by simp
    then have "pr_closed p \<noteq> []" by auto
    with inv have "pr_rest p = []" by (simp add: resources_inv_def)
    with pend(1) have "pend = None" by simp
    have "pr_deferred p = []"
    proof (rule ccontr)
      assume ne: "pr_deferred p \<noteq> []"
      then have "last (pr_acquired p) = last (pr_deferred p)" by (simp add: pend(2) \<open>pend = None\<close>)
      with acq ne have "Signals \<in> set (pr_deferred p)" by (metis last_in_set last_snoc)
      with closed acquired_once [OF alive_closing_order [OF assms(1)]] show False
        by (auto simp: pend(2) \<open>pend = None\<close>)
    qed
    with pend(2) \<open>pend = None\<close> show ?thesis by simp
  qed
qed

lemma happen_ends_well:
  assumes "alive_inv main p" and "pr_outcome p = Alive" and "happen e p = Some p'"
  shows "ended_well main p' (pr_outcome p')"
proof (cases e)
  case (Main ok)
  show ?thesis
  proof (cases "pr_rest p")
    case (Cons s ss)
    with exec_alive_inv [OF assms(1) Cons _ assms(2)] assms(3) Main show ?thesis by (simp add: main_step_def)
  next
    case Nil
    show ?thesis
    proof (cases "pr_deferred p")
      case (Cons r rs)
      with assms(3) Main Nil have "p' = close_resource r (p\<lparr>pr_deferred := rs\<rparr>)"
        by (auto simp: main_step_def split: if_splits)
      with close_alive_inv [OF assms(1) Nil Cons] assms(2) show ?thesis by (simp add: close_resource_def)
    next
      case Nil
      with assms(3) Main \<open>pr_rest p = []\<close> have "p' = exit_with (if pr_panicked p then 2 else 0) p"
        by (simp add: main_step_def)
      with return_ends_well [OF assms(1) \<open>pr_rest p = []\<close> Nil] show ?thesis by (simp add: exit_with_def)
    qed
  qed
next
  case MainPanics
  then obtain s ss where "pr_rest p = s # ss" "may_panic s" "p' = p\<lparr>pr_rest := [], pr_panicked := True\<rparr>"
    using assms(3) by (auto split: list.splits if_splits)
  with panic_alive_inv [OF assms(1)] assms(2) show ?thesis by simp
next
  case Signal
  show ?thesis
  proof (cases "Signals \<in> set (pr_acquired p) \<and> Signals \<notin> set (pr_closed p)")
    case True
    with assms Signal show ?thesis by (auto simp: alive_inv_def resources_inv_def servers_inv_def waits_inv_def)
  next
    case False
    with assms(3) Signal have "p' = p\<lparr>pr_outcome := Killed\<rparr>" by simp
    with False signal_ends_well [OF assms(1)] alive_closing_order [OF assms(1)] show ?thesis
      by (simp add: ended_well_def) 
  qed
next
  case (ServerFails t)
  then have "p' = exit_with 1 p" "is_server t" "t \<in> set (pr_running p)" using assms(3) by (auto split: if_splits)
  with server_running_open [OF assms(1)] alive_closing_order [OF assms(1)] show ?thesis
    by (simp add: ended_well_def) (auto simp: exit_with_def)
next
  case (GoroutinePanics t)
  then have "p' = exit_with 2 p" "crashes t" "t \<in> set (pr_running p)" using assms(3) by (auto split: if_splits)
  with alive_closing_order [OF assms(1)] show ?thesis
    by (simp add: ended_well_def) (auto simp: exit_with_def list_ex_iff)
next
  case (TaskEnds t)
  then have "p' = p\<lparr>pr_running := remove1 t (pr_running p)\<rparr>" using assms(3) by (auto split: if_splits)
  with assms(1,2) remove1_servers [of p t] show ?thesis
    by (simp add: alive_inv_def resources_inv_def waits_inv_def)
qed

lemma reaches_ends_well: "reaches main p \<Longrightarrow> ended_well main p (pr_outcome p)"
proof (induction rule: reaches.induct)
  case init
  show ?case using start_alive_inv by (simp add: process_start_def)
next
  case (step p e p')
  then show ?case using happen_ends_well [of p e p'] by simp
qed

end

section \<open>After a signal or a panic main goes on to its end\<close>

definition work :: "process \<Rightarrow> nat" where
  "work p = Suc (2 * length (pr_rest p) + length (pr_deferred p))"

text \<open>\<open>main\<close> is on its way out: nothing makes it wait for the signal any more.\<close>

definition leaving :: "process \<Rightarrow> bool" where
  "leaving p \<longleftrightarrow> pr_cancelled p \<or> pr_panicked p \<and> pr_rest p = []"

fun has_deadline :: "statement \<Rightarrow> bool" where
  "has_deadline (ShutdownHTTP addr deadline) \<longleftrightarrow> deadline \<noteq> None"
| "has_deadline (StopGRPC addr deadline) \<longleftrightarrow> deadline \<noteq> None"
| "has_deadline _ \<longleftrightarrow> True"

definition waiting_call :: "process \<Rightarrow> resource \<Rightarrow> bool" where
  "waiting_call p r \<longleftrightarrow> pr_rest p = [] \<and> pr_deferred p \<noteq> [] \<and> hd (pr_deferred p) = r \<and> may_wait r p"

lemma main_step_works:
  assumes "leaving p" and "pr_outcome p = Alive" and "list_all has_deadline (pr_rest p)"
    and "ok \<or> (\<nexists>r. waiting_call p r)"
  shows "\<exists>p'. main_step ok p = Some p' \<and> (pr_outcome p' = Alive \<longrightarrow> leaving p' \<and> list_all has_deadline (pr_rest p'))"
proof (cases "pr_rest p")
  case (Cons s ss)
  with assms show ?thesis by (cases s) (auto simp: main_step_def leaving_def exit_with_def)
next
  case Nil
  with assms show ?thesis
    by (cases "pr_deferred p") (auto simp: main_step_def leaving_def exit_with_def close_resource_def waiting_call_def)
qed

lemma exec_work:
  "exec ok s p = Some p' \<Longrightarrow> work p' \<le> Suc (work p) \<and> pr_rest p' = pr_rest p"
  by (cases s) (auto simp: work_def exit_with_def split: if_splits)

lemma main_step_work: "main_step ok p = Some p' \<Longrightarrow> pr_outcome p' = Alive \<Longrightarrow> work p' < work p"
  by (cases "pr_rest p"; cases "pr_deferred p")
    (auto simp: main_step_def work_def exit_with_def close_resource_def split: if_splits dest!: exec_work)

lemma happen_work: "happen e p = Some p' \<Longrightarrow> work p' \<le> work p"
proof (cases e)
  case (Main ok)
  moreover assume "happen e p = Some p'"
  ultimately show ?thesis
    by (cases "pr_rest p"; cases "pr_deferred p")
      (auto simp: main_step_def work_def exit_with_def close_resource_def split: if_splits dest!: exec_work)
qed (auto simp: work_def exit_with_def split: if_splits list.splits)

lemma reaches_work: "reaches main p \<Longrightarrow> work p \<le> Suc (2 * length main)"
proof (induction rule: reaches.induct)
  case init
  show ?case by (simp add: work_def process_start_def)
next
  case (step p e p')
  with happen_work [of e p p'] show ?case by simp
qed

text \<open>The steps of \<open>main\<close> in a run, whatever happens between them.\<close>

fun is_main :: "event \<Rightarrow> bool" where
  "is_main (Main ok) \<longleftrightarrow> True"
| "is_main _ \<longleftrightarrow> False"

lemma run_events_main_steps:
  "run_events es p = Some p' \<Longrightarrow> length (filter is_main es) \<le> work p"
proof (induction es arbitrary: p)
  case (Cons e es)
  then obtain p1 where p1: "happen e p = Some p1" "run_events es p1 = Some p'" by (auto split: if_splits option.splits)
  note IH = Cons.IH [OF p1(2)]
  show ?case
  proof (cases "is_main e")
    case False
    with IH happen_work [OF p1(1)] show ?thesis by simp
  next
    case True
    then obtain ok where e: "e = Main ok" by (cases e) auto
    show ?thesis
    proof (cases "pr_outcome p1 = Alive")
      case True
      with main_step_work [of ok p p1] p1(1) IH e show ?thesis by simp
    next
      case False
      with p1(2) have "es = []" by (cases es) auto
      then show ?thesis by (simp add: e work_def)
    qed
  qed
qed simp

text \<open>Once nothing that may fail is left, \<open>main\<close> ends with an orderly exit, or the exit of its panic.\<close>

fun may_fail :: "statement \<Rightarrow> bool" where
  "may_fail (Open _) \<longleftrightarrow> True"
| "may_fail (Ping _) \<longleftrightarrow> True"
| "may_fail (Listen _) \<longleftrightarrow> True"
| "may_fail _ \<longleftrightarrow> False"

definition last_code :: "process \<Rightarrow> nat" where
  "last_code p = (if pr_panicked p then 2 else 0)"

lemma main_step_safe:
  assumes "pr_outcome p = Alive" and "\<not> list_ex may_fail (pr_rest p)" and "main_step ok p = Some p'"
  shows "\<not> list_ex may_fail (pr_rest p') \<and> pr_panicked p' = pr_panicked p \<and> (pr_outcome p' \<noteq> Alive \<longrightarrow> pr_outcome p' = Exited (last_code p))"
proof (cases "pr_rest p")
  case (Cons s ss)
  with assms show ?thesis by (cases s) (auto simp: main_step_def split: if_splits)
next
  case Nil
  with assms show ?thesis
    by (cases "pr_deferred p") (auto simp: main_step_def exit_with_def close_resource_def last_code_def split: if_splits)
qed

text \<open>
  \<open>main\<close> comes to its end by its own steps when no call waits for ever: \<open>oks\<close> says what the calls
  answer, one after the other, and either they all return or none of them can wait.
\<close>

lemma main_ends:
  assumes "reaches main p" and "pr_outcome p = Alive" and "leaving p" and "list_all has_deadline (pr_rest p)"
    and "\<forall>i. oks i \<or> (\<forall>q r. reaches main q \<longrightarrow> \<not> waiting_call q r)"
  shows "\<exists>n p'. n \<le> work p \<and> run_events (map (\<lambda>i. Main (oks i)) [k..<k + n]) p = Some p' \<and> pr_outcome p' \<noteq> Alive
    \<and> (\<not> list_ex may_fail (pr_rest p) \<longrightarrow> pr_outcome p' = Exited (last_code p))"
  using assms(1-4)
proof (induction "work p" arbitrary: p k rule: less_induct)
  case less
  have "oks k \<or> (\<nexists>r. waiting_call p r)" using assms(5) less.prems(1) by blast
  then obtain p1 where p1: "main_step (oks k) p = Some p1"
    "pr_outcome p1 = Alive \<longrightarrow> leaving p1 \<and> list_all has_deadline (pr_rest p1)"
    using main_step_works [OF less.prems(3,2,4)] by blast
  have safe: "\<not> list_ex may_fail (pr_rest p) \<Longrightarrow> \<not> list_ex may_fail (pr_rest p1) \<and> last_code p1 = last_code p
      \<and> (pr_outcome p1 \<noteq> Alive \<longrightarrow> pr_outcome p1 = Exited (last_code p))"
    using main_step_safe [OF less.prems(2) _ p1(1)] by (simp add: last_code_def)
  show ?case
  proof (cases "pr_outcome p1 = Alive")
    case False
    with p1 less.prems safe show ?thesis by (intro exI [of _ 1] exI [of _ p1]) (auto simp: work_def)
  next
    case True
    have "reaches main p1" using reaches.step [OF less.prems(1,2), of "Main (oks k)"] p1(1) by simp
    with less.hyps [OF main_step_work [OF p1(1) True] this, of "Suc k"] True p1(2) obtain n p' where n: "n \<le> work p1"
      "run_events (map (\<lambda>i. Main (oks i)) [Suc k..<Suc k + n]) p1 = Some p'"
      "pr_outcome p' \<noteq> Alive" "\<not> list_ex may_fail (pr_rest p1) \<longrightarrow> pr_outcome p' = Exited (last_code p1)" by auto
    have "[k..<k + Suc n] = k # [Suc k..<Suc k + n]" by (simp add: upt_conv_Cons)
    with n p1(1) less.prems(2) safe main_step_work [OF p1(1) True] show ?thesis
      by (intro exI [of _ "Suc n"] exI [of _ p']) auto
  qed
qed

text \<open>Goroutines are the ones \<open>main\<close> starts, or what a forced shutdown has left.\<close>

definition started_by :: "statement list \<Rightarrow> task \<Rightarrow> bool" where
  "started_by main t \<longleftrightarrow> Go t \<in> set main
     \<or> (\<exists>addr deadline. t = HTTPRequests addr \<and> ShutdownHTTP addr deadline \<in> set main)
     \<or> (\<exists>addr deadline. t = GRPCRequests addr \<and> StopGRPC addr deadline \<in> set main)"

lemma exec_tasks:
  "exec ok s p = Some p' \<Longrightarrow> s \<in> set main \<Longrightarrow> \<forall>t \<in> set (pr_running p). started_by main t \<Longrightarrow>
    (\<forall>t \<in> set (pr_running p'). started_by main t) \<and> pr_rest p' = pr_rest p"
  by (cases s; force simp: exit_with_def started_by_def split: if_splits)

lemma happen_tasks:
  assumes "happen e p = Some p'" and "set (pr_rest p) \<subseteq> set main" and "\<forall>t \<in> set (pr_running p). started_by main t"
  shows "set (pr_rest p') \<subseteq> set main \<and> (\<forall>t \<in> set (pr_running p'). started_by main t)"
proof (cases e)
  case (Main ok)
  show ?thesis
  proof (cases "pr_rest p")
    case (Cons s ss)
    with assms Main have "exec ok s (p\<lparr>pr_rest := ss\<rparr>) = Some p'" by (simp add: main_step_def)
    from exec_tasks [OF this, of main] assms(2,3) Cons show ?thesis by auto
  next
    case Nil
    with assms Main show ?thesis
      using close_resource_running by (cases "pr_deferred p") (fastforce simp: main_step_def exit_with_def split: if_splits)+
  qed
next
  case (TaskEnds t)
  with assms set_remove1_subset [of t "pr_running p"] show ?thesis by (auto split: if_splits)
qed (use assms in \<open>auto simp: exit_with_def split: if_splits list.splits\<close>)

lemma reaches_tasks: "reaches main p \<Longrightarrow> set (pr_rest p) \<subseteq> set main \<and> (\<forall>t \<in> set (pr_running p). started_by main t)"
proof (induction rule: reaches.induct)
  case init
  show ?case by (simp add: process_start_def)
next
  case (step p e p')
  then show ?case using happen_tasks [of e p p' main] by simp
qed

end
