(* ===== verification/Spec2Isabelle.thy ===== *)
theory Spec2Isabelle
  imports Market_Interleaving Service_Metrics Gateway_Server Gateway_Reads Order_Entrances Processes
begin

text \<open>
  Mini-marketplace: a verification development for the Go services under \<open>src/\<close>.

  \<^bold>\<open>The program.\<close> Four services. api-gateway takes HTTP requests, limits them per client with a
  token bucket in Redis, caches reads in Redis and calls order-service over gRPC. order-service keeps
  orders in PostgreSQL and writes, in the same transaction as every change, an event into an outbox
  table; a worker publishes the outbox to Kafka and moves a new order to \<open>AWAITING_STOCK\<close>.
  inventory-service consumes \<open>order.created\<close>, reserves the stock or records a failure, and answers
  through an outbox of its own with \<open>stock.reserved\<close> or \<open>stock.failed\<close>. order-service
  consumes the answer and confirms or cancels the order, which is announced the same way.
  notification-service consumes the three order events and tells the customer, with an inbox table
  against duplicates.

  \<^bold>\<open>How code is modelled.\<close> Structs are records, enumerations datatypes, int64 and int32 words of that
  width (\<open>Order_Domain\<close>, \<open>Order_Proto\<close>), strings byte lists, JSON a datatype of documents with
  Go's rules for decoding a struct (\<open>Go_Json\<close>), \<open>time.Time\<close> a civil time in UTC with nanoseconds
  (\<open>Go_Time\<close>). An error is a value of \<open>go_error\<close> (a sentinel, a wrapped error or an opaque text)
  and \<open>errors.Is\<close> walks the wrapping; a panic is \<open>Panics\<close> of the type \<open>call\<close>. A table is
  a list of row records. Each repository method is a function of the database that follows the method
  statement by statement; a record \<open>db_faults\<close> tells which statement, row, scan or commit fails,
  also a commit that succeeded although its answer was lost, and the theorems hold for all of them.
  Other transactions between two statements are functions on the database given as arguments.
  Kafka is a list of messages that only grows, its answer to a write (acknowledged, refused, written
  although refused) an argument. A gRPC call of the gateway is delivered, not sent, or loses its reply
  (\<open>transport\<close> in \<open>Gateway_System\<close>). gin, Redis's clock and the UUID check are parameters; a path that
  gin redirects for its final slash runs none of the middlewares.

  \<^bold>\<open>The theories.\<close>

  \<^item> \<open>Market_Prelude\<close>: errors, calls, tables with their updates, failures, shared lemmas and the
    collection \<open>go_simps\<close>. \<open>Go_Time\<close>, \<open>Go_Base64\<close>, \<open>Go_Json\<close>: what the source uses of
    Go's standard library, with its round trips.
  \<^item> \<open>Order_Domain\<close>: order-service's \<open>internal/domain/order.go\<close>: the aggregate, its status
    machine, the total in 64-bit arithmetic, the events and their JSON. \<open>Order_Cursor\<close> and
    \<open>Order_Store\<close>: \<open>internal/repository/postgres/order_repo.go\<close>. \<open>Order_UseCase\<close>:
    \<open>internal/usecase/order_usecase.go\<close>, against the locale \<open>order_repository\<close>, which
    is interpreted on the PostgreSQL model; the retry loop of \<open>UpdateOrderStatus\<close> is shown
    linearizable. \<open>Order_Grpc\<close>, \<open>Order_Proto\<close>, \<open>Order_Http\<close>: the two deliveries.
    \<open>Order_Consumer\<close> and \<open>Kafka_Consumer\<close>: \<open>internal/consumer/stock_result_consumer.go\<close>
    and the loop all consumers share. \<open>Order_Pagination\<close>: walks along the cursors of
    \<open>ListOrders\<close>.
  \<^item> \<open>Outbox_Worker\<close>: tick, publisher and loop of \<open>internal/outbox\<close> of both services, in the
    locales \<open>outbox_worker\<close> and \<open>reliable_outbox_worker\<close>, interpreted for both.
    \<open>Outbox_Interleaving\<close>: the tick taken apart into fetch, publishes, writes and commit, any number of
    workers at once, with the row locks and the uncommitted row versions of PostgreSQL, in the locales
    \<open>interleaved_worker\<close> and \<open>interleaved_workers\<close>, the second interpreted for both services.
  \<^item> \<open>Order_System\<close>: order-service as a step relation: creations, reads, racing status writes and
    worker ticks, with its invariant, the legal status histories and at-least-once delivery.
    \<open>Order_Interleaving\<close>: the service with its workers' actions as steps.
  \<^item> \<open>Inventory_Store\<close>, \<open>Inventory_UseCase\<close>, \<open>Inventory_System\<close>: inventory-service's
    \<open>stock_repo.go\<close>, \<open>inventory_usecase.go\<close> with \<open>order_created_consumer.go\<close> (locale
    \<open>stock_repository\<close>), and the service as a step relation with a ledger of what was reserved.
    \<open>Inventory_Interleaving\<close>: the service with its workers' actions as steps.
  \<^item> \<open>Service_Metrics\<close>: \<open>internal/metrics\<close> of the four services, and that the counter of
    inventory-service's consumer accounts for what the database gained.
  \<^item> \<open>Notification\<close>: notification-service (locale \<open>inbox_repository\<close>).
  \<^item> \<open>Gateway_Limiter\<close>: \<open>internal/ratelimit/limiter.go\<close> and its middleware. \<open>Gateway_Orders\<close>:
    \<open>internal/delivery/http/order_handler.go\<close> and \<open>internal/cache\<close>. \<open>Gateway_System\<close>: the
    gateway in front of order-service (locale \<open>order_client\<close>). \<open>Gateway_Reads\<close>: a client's walk over
    its orders and the read of an order just created. \<open>Gateway_Server\<close>: the metrics
    middleware and the chain and routes of \<open>cmd/gateway/main.go\<close>, with gin's redirects.
  \<^item> \<open>Saga\<close>: that each service decodes what the other encodes (locale \<open>event_contract\<close>, six
    interpretations), the undisturbed run of an order from its event to the customer, and the orders no
    delivery settles.
  \<^item> \<open>Marketplace\<close>, \<open>Marketplace_Steps\<close>: the three services behind the gateway as one system.
    A step is one transaction of one service with any failures, and a consumer may take any message
    its topics have ever held, so all interleavings and redeliveries are covered. Steps project to
    steps of the components, whose invariants carry over; what is added is the agreement between the
    services. The handlers are shown to be paths of this system, with any steps of the marketplace,
    racing results for the same order included, between their reads and writes. \<open>Saga_Causality\<close>: in
    its logs no effect comes without its cause.
  \<^item> \<open>Market_Interleaving\<close>: the same system with every action of the outbox workers of both services as a
    step, so that a message is read before its sender commits. Every run shows the databases, the reads, the
    ledger, the customers' lines and the messages, in the order of their first appearance, of a run with
    atomic ticks, so the agreement and the causality of the services carry over.
  \<^item> \<open>Order_Entrances\<close>: that the gateway's and order-service's own \<open>POST /orders\<close> agree, by a simulation
    of the two JSON bindings, over a call that is delivered.
  \<^item> \<open>Go_Process\<close>, \<open>Processes\<close>: the six \<open>main\<close> functions under \<open>cmd/\<close> as lists of statements over
    resources, deferred calls, goroutines, signals, panics and exits; any list of events is a run. A shutdown
    with a deadline may run out of time and leave its requests running, a deferred call that waits for others
    (\<open>may_wait\<close>) may not return. The locale
    \<open>go_main\<close> says what a tidy \<open>main\<close> is and is interpreted on all six; the constructors, \<open>Run\<close> and
    \<open>Close\<close> of the consumers tell which process reads which topic in which group.

  \<^bold>\<open>What is shown.\<close> Agreement of the services and truth of the notifications; no overselling and one
  reservation per order; atomicity of creations, updates and reservations under every failure;
  at-least-once publication, mutual exclusion and the recovery of the workers; legal status histories and the
  linearization of the optimistic lock; exactness of the pagination, also against concurrent writers;
  round trips of cursors, events and stored orders; exactness or wrap-around of totals; the limiter's
  bound, the staleness bound of the cache and what the request counters count; that the processes give
  back what they acquire, end after a signal unless a deferred call waits for others, and read every topic
  that is written. Several theorems state
  what the code does where it does not do what it means to: \<open>result_overtakes_commit\<close>, \<open>answer_lost_in_window\<close>,
  \<open>broken_page_ends_walk\<close>, \<open>nonpositive_quantity_stuck\<close>, \<open>failed_commit_notifies_again\<close>,
  \<open>UpdateOrderStatus_hides_conflict\<close>, \<open>gateway_missing_order\<close>, \<open>loops_outlive_pool\<close>.

  \<^bold>\<open>Bounds.\<close> \<open>maxRetries\<close> is 3, a page has 20 orders unless 1 to 100 are asked for, the bucket
  holds 10 tokens and gains 2 a second, the cache lives 5 seconds: the constants of the source. The
  batch of a worker's tick is arbitrary; a loop's run is the list of its ticks or fetches, so it ends
  because the list does, and the liveness theorems state how many undisturbed ticks are enough. The
  walk over pages takes fuel; \<open>list_pages_complete\<close> and, against concurrent writers,
  \<open>list_pages_concurrent\<close> show that one unit more than there are full pages is enough.

  \<^bold>\<open>Not modelled.\<close> The loggers: configuration of a library without decisions. The methods of the gateway's gRPC client, which pass each call on (the client is an argument
  of the handlers). Generated code
  (protoc, mockgen, swag), of which only the message types are used. Durations, whose
  histograms are counted but not measured. The lengths and the UUID syntax of
  the order tables' columns are not checked: a value PostgreSQL refuses is a failing statement, which
  every theorem allows; that it stores a text without the spaces that are too many for the column is not
  modelled. A status write of the use case is one step also among the actions of the workers;
  its transaction is two statements long and waits for the rows a worker has written. JSON is compared as documents, not as bytes. The limiter's script runs on an ordered
  field in place of doubles. The text of validation errors is a parameter. Contexts are not modelled:
  inside the handlers a cancellation shows as a failing statement, a failing fetch or the end of a list; in
  the processes it is the flag of \<open>NotifyContext\<close>. The time a shutdown takes is not measured: it works
  or it runs out of time. That a deferred call itself panics is not modelled. UUIDs are compared as the
  texts that were stored, where PostgreSQL takes several spellings of one UUID. The time of a cursor a
  client made up itself is compared with its nanoseconds, where the parameter of the query keeps
  microseconds (a cursor the service gave has no more). The internal retries of kafka-go, and a write that
  reaches Kafka after its call has returned, show only as what they leave: a message that is written once,
  or written although refused, and messages may be delivered any number of times. A worker that has lost
  its connection ends its tick at once; the code may publish one record more before its next statement
  fails. The reads of the gateway's handlers have no state of the service in their results, as
  order-service's reads write nothing.
\<close>

end
